(* ===== verification/Prelude.thy ===== *)
theory Prelude
  imports Main "HOL-Library.Word"
begin

unbundle bit_operations_syntax

text \<open>
  Shared vocabulary of the LineFS development.

  \<^item> \<open>run\<close>: the outcome of a piece of C code. \<open>Done x\<close> is a normal return, \<open>Failed f\<close> is
    a \<open>panic\<close>, a failing \<open>mlfs_assert\<close> (compiled into release builds, see
    \<open>libfs/src/global/defs.h\<close>) , a NULL dereference or an out-of-bounds access, and \<open>Waiting\<close> is a busy-wait loop
    whose condition has not become true with the messages received so far.
  \<^item> Unsigned machine integers are natural numbers with the wrap-around written out
    (\<open>add_w\<close>, \<open>sub_w\<close> for a width), so that a difference that underflows in C also
    underflows in the model; bit-level code uses the words of HOL-Library.
  \<^item> General facts on lists, sums and divisions used by several components.
\<close>

section \<open>Outcomes of C code\<close>

datatype fault = Panic string | Assertion string | NullDeref string | OutOfBounds string

datatype 'a run = Done 'a | Failed fault | Waiting

definition run_bind :: "'a run \<Rightarrow> ('a \<Rightarrow> 'b run) \<Rightarrow> 'b run" where
  "run_bind m f = (case m of Done x \<Rightarrow> f x | Failed e \<Rightarrow> Failed e | Waiting \<Rightarrow> Waiting)"

definition run_map :: "('a \<Rightarrow> 'b) \<Rightarrow> 'a run \<Rightarrow> 'b run" where
  "run_map f m = run_bind m (\<lambda>x. Done (f x))"

text \<open>The release build of \<open>mlfs_assert\<close> aborts when its argument is 0.\<close>

definition mlfs_assert :: "bool \<Rightarrow> string \<Rightarrow> 'a run \<Rightarrow> 'a run" where
  "mlfs_assert b what k = (if b then k else Failed (Assertion what))"

definition is_done :: "'a run \<Rightarrow> bool" where
  "is_done m \<longleftrightarrow> (case m of Done _ \<Rightarrow> True | _ \<Rightarrow> False)"

named_theorems run_simps "rewriting of outcomes"

lemma run_bind_simps [simp, run_simps]:
  "run_bind (Done x) f = f x"
  "run_bind (Failed e) f = Failed e"
  "run_bind Waiting f = Waiting"
  by (simp_all add: run_bind_def)

lemma run_map_simps [simp, run_simps]:
  "run_map f (Done x) = Done (f x)"
  "run_map f (Failed e) = Failed e"
  "run_map f Waiting = Waiting"
  by (simp_all add: run_map_def)

lemma is_done_simps [simp, run_simps]:
  "is_done (Done x)" "\<not> is_done (Failed e)" "\<not> is_done Waiting"
  by (simp_all add: is_done_def)

lemma mlfs_assert_simps [simp, run_simps]:
  "mlfs_assert True w k = k"
  "mlfs_assert False w k = Failed (Assertion w)"
  by (simp_all add: mlfs_assert_def)

lemma run_bind_Done_iff: "run_bind m f = Done y \<longleftrightarrow> (\<exists>x. m = Done x \<and> f x = Done y)"
  by (cases m) auto

lemma run_map_Done_iff: "run_map f m = Done y \<longleftrightarrow> (\<exists>x. m = Done x \<and> y = f x)"
  by (cases m) auto

lemma mlfs_assert_Done_iff: "mlfs_assert b w k = Done y \<longleftrightarrow> b \<and> k = Done y"
  by (simp add: mlfs_assert_def)

lemmas run_Done_iffs [run_simps] = run_bind_Done_iff run_map_Done_iff mlfs_assert_Done_iff

lemma run_bind_assoc: "run_bind (run_bind m f) g = run_bind m (\<lambda>x. run_bind (f x) g)"
  by (cases m) simp_all

section \<open>Unsigned integers of a given width\<close>

definition add_w :: "nat \<Rightarrow> nat \<Rightarrow> nat \<Rightarrow> nat" where
  "add_w w a b = (a + b) mod 2 ^ w"

definition sub_w :: "nat \<Rightarrow> nat \<Rightarrow> nat \<Rightarrow> nat" where
  "sub_w w a b = (a + (2 ^ w - b mod 2 ^ w)) mod 2 ^ w"

definition cast_w :: "nat \<Rightarrow> nat \<Rightarrow> nat" where
  "cast_w w a = a mod 2 ^ w"

text \<open>The value of an \<open>unsigned\<close> converted to an \<open>int\<close> of the same width.\<close>

definition signed_w :: "nat \<Rightarrow> nat \<Rightarrow> int" where
  "signed_w w a = (if a mod 2 ^ w < 2 ^ (w - 1) then int (a mod 2 ^ w)
                   else int (a mod 2 ^ w) - 2 ^ w)"

abbreviation add8 :: "nat \<Rightarrow> nat \<Rightarrow> nat" where "add8 \<equiv> add_w 8"
abbreviation add16 :: "nat \<Rightarrow> nat \<Rightarrow> nat" where "add16 \<equiv> add_w 16"
abbreviation add32 :: "nat \<Rightarrow> nat \<Rightarrow> nat" where "add32 \<equiv> add_w 32"
abbreviation add64 :: "nat \<Rightarrow> nat \<Rightarrow> nat" where "add64 \<equiv> add_w 64"
abbreviation sub8 :: "nat \<Rightarrow> nat \<Rightarrow> nat" where "sub8 \<equiv> sub_w 8"
abbreviation sub32 :: "nat \<Rightarrow> nat \<Rightarrow> nat" where "sub32 \<equiv> sub_w 32"
abbreviation sub64 :: "nat \<Rightarrow> nat \<Rightarrow> nat" where "sub64 \<equiv> sub_w 64"
abbreviation cast16 :: "nat \<Rightarrow> nat" where "cast16 \<equiv> cast_w 16"
abbreviation cast32 :: "nat \<Rightarrow> nat" where "cast32 \<equiv> cast_w 32"

lemma add_w_id: "a + b < 2 ^ w \<Longrightarrow> add_w w a b = a + b"
  by (simp add: add_w_def)

lemma sub_w_id: "b \<le> a \<Longrightarrow> a < 2 ^ w \<Longrightarrow> sub_w w a b = a - b"
proof -
  assume ba: "b \<le> a" and aw: "a < 2 ^ w"
  then have "b mod 2 ^ w = b" by simp
  moreover have "a + (2 ^ w - b) = (a - b) + 2 ^ w" using ba aw by linarith
  moreover have "(a - b + 2 ^ w) mod 2 ^ w = a - b" using aw by simp
  ultimately show ?thesis by (simp only: sub_w_def)
qed

lemma sub_w_underflow: "a < b \<Longrightarrow> b < 2 ^ w \<Longrightarrow> sub_w w a b = 2 ^ w - (b - a)"
  by (simp add: sub_w_def)

lemma cast_w_id: "a < 2 ^ w \<Longrightarrow> cast_w w a = a"
  by (simp add: cast_w_def)

lemma add_w_bound [simp]: "add_w w a b < 2 ^ w"
  by (simp add: add_w_def)

lemma sub_w_bound [simp]: "sub_w w a b < 2 ^ w"
  by (simp add: sub_w_def)

lemma cast_w_bound [simp]: "cast_w w a < 2 ^ w"
  by (simp add: cast_w_def)

lemma add_w_sub_w: "a < 2 ^ w \<Longrightarrow> sub_w w (add_w w a b) b = a"
proof -
  assume a: "a < 2 ^ w"
  have "sub_w w (add_w w a b) b = ((a + b) mod 2 ^ w + (2 ^ w - b mod 2 ^ w)) mod 2 ^ w"
    by (simp add: sub_w_def add_w_def)
  also have "\<dots> = (a + (b + (2 ^ w - b mod 2 ^ w))) mod 2 ^ w"
    by (simp only: mod_add_left_eq add.assoc)
  also have "b + (2 ^ w - b mod 2 ^ w) = (b div 2 ^ w + 1) * 2 ^ w"
  proof -
    have "b div 2 ^ w * 2 ^ w + b mod 2 ^ w = b" by (rule div_mult_mod_eq)
    moreover have "b mod 2 ^ w \<le> 2 ^ w" by (simp add: less_imp_le)
    moreover have "(b div 2 ^ w + 1) * 2 ^ w = b div 2 ^ w * 2 ^ w + 2 ^ w" by simp
    ultimately show ?thesis by linarith
  qed
  also have "(a + (b div 2 ^ w + 1) * 2 ^ w) mod 2 ^ w = a mod 2 ^ w"
    by (metis mod_mult_self1 mult.commute)
  finally show ?thesis using a by simp
qed

lemma signed_w_small: "a < 2 ^ (w - 1) \<Longrightarrow> 0 < w \<Longrightarrow> signed_w w a = int a"
proof -
  assume a: "a < 2 ^ (w - 1)" and w: "0 < w"
  have "(2::nat) ^ (w - 1) \<le> 2 ^ w" by (rule power_increasing) simp_all
  with a have "a < 2 ^ w" by linarith
  then have "a mod 2 ^ w = a" by simp
  with a show ?thesis by (simp add: signed_w_def)
qed

section \<open>Alignment\<close>

text \<open>\<open>ALIGN(x, a)\<close> of \<open>libfs/src/global/util.h\<close>: \<open>(x + (a - 1)) & ~(a - 1)\<close>, for \<open>a\<close> a power
  of two the next multiple of \<open>a\<close>.\<close>

definition ALIGN :: "nat \<Rightarrow> nat \<Rightarrow> nat" where
  "ALIGN x a = (x + (a - 1)) div a * a"

lemma ALIGN_ge: "0 < a \<Longrightarrow> x \<le> ALIGN x a"
proof -
  assume a: "0 < a"
  have "x + (a - 1) = (x + (a - 1)) div a * a + (x + (a - 1)) mod a" by simp
  moreover have "(x + (a - 1)) mod a \<le> a - 1" using mod_less_divisor [OF a, of "x + (a - 1)"] by linarith
  ultimately show ?thesis unfolding ALIGN_def by linarith
qed

lemma ALIGN_less: "0 < a \<Longrightarrow> ALIGN x a < x + a"
proof -
  assume a: "0 < a"
  have "(x + (a - 1)) div a * a \<le> x + (a - 1)" by simp
  then show ?thesis using a unfolding ALIGN_def by linarith
qed

lemma ALIGN_dvd [simp]: "a dvd ALIGN x a"
  by (simp add: ALIGN_def)

lemma ALIGN_mod [simp]: "ALIGN x a mod a = 0"
  by (simp add: ALIGN_def)

lemma ALIGN_aligned: "0 < a \<Longrightarrow> x mod a = 0 \<Longrightarrow> ALIGN x a = x"
proof -
  assume a: "0 < a" and "x mod a = 0"
  then obtain k where k: "x = k * a" by (metis div_mult_mod_eq add_0_right)
  have "(k * a + (a - 1)) div a = k + (a - 1) div a" using a by (simp only: div_mult_self3 neq0_conv)
  then have "(k * a + (a - 1)) div a = k" using a by simp
  then show ?thesis using k by (simp add: ALIGN_def)
qed

lemma multiple_step: "a mod b = 0 \<Longrightarrow> c mod b = 0 \<Longrightarrow> a < c \<Longrightarrow> a + b \<le> (c::nat)"
proof -
  assume "a mod b = 0" "c mod b = 0" and lt: "a < c"
  then obtain k l where k: "a = b * k" "c = b * l" by (auto elim!: dvdE)
  then have "k < l" using lt by (simp add: mult_less_cancel1)
  then have "b * Suc k \<le> b * l" by (intro mult_le_mono2) simp
  then show ?thesis using k by simp
qed

lemma align_gap:
  assumes "a mod b = 0" and "x < a" and "a < x + b"
  shows "x mod b + (a - x) = (b::nat)"
proof -
  have b: "0 < b" "b \<le> a" using assms multiple_step [of 0 b a] by auto
  have "(a - b) mod b = 0" using assms(1) b by (simp add: le_mod_geq)
  moreover have "x = (a - b) + (b - (a - x))" using assms b by linarith
  ultimately have "x mod b = (b - (a - x)) mod b"
    by (metis add.left_neutral mod_add_left_eq)
  also have "\<dots> = b - (a - x)" using assms by (intro mod_less) linarith
  finally show ?thesis using assms by linarith
qed

section \<open>Lists\<close>

lemma sum_list_map_le_nth: "i < length xs \<Longrightarrow> xs ! i \<le> sum_list (xs :: nat list)"
  by (metis elem_le_sum_list)

lemma nth_list_update_eq_or: "xs[i := v] ! j = (if i = j \<and> i < length xs then v else xs ! j)"
  by (metis list_update_beyond not_less nth_list_update_eq nth_list_update_neq)

end
