(* ===== verification/Loghdr.thy ===== *)
theory Loghdr
  imports Prelude
begin

text \<open>
  The log header of a transaction and how a system call fills it in.

  Models the log structures of \<open>libfs/src/filesystem/shared.h\<close> (\<open>struct logheader\<close>,
  \<open>struct logheader_meta\<close>, \<open>io_vec_t\<close>, \<open>next_loghdr_blknr\<close>, \<open>find_intersection\<close>,
  \<open>wrap_arounded_blknr\<close>), \<open>add_to_loghdr\<close>, \<open>start_log_tx\<close> and \<open>compute_log_blocks\<close> of
  \<open>libfs/src/log/log.c\<close>, and the header part of \<open>add_to_log\<close> of
  \<open>libfs/src/filesystem/fs.c\<close>. Fixed-size C arrays are lists of that length. The header
  is abstracted to the list of operations it describes (\<open>meta_ops\<close>), and adding an entry
  is shown to append one operation; the number of log blocks reserved for a transaction
  is the sum over its operations.
\<close>

section \<open>Global parameters\<close>

definition g_block_size_bytes :: nat where "g_block_size_bytes = 4096"
definition g_block_size_shift :: nat where "g_block_size_shift = 12"
definition g_max_blocks_per_operation :: nat where "g_max_blocks_per_operation = 4"
definition g_log_size :: nat where "g_log_size = 131072"
definition LH_COMMIT_MAGIC :: nat where "LH_COMMIT_MAGIC = 0x1FB9"

lemmas g_params = g_block_size_bytes_def g_block_size_shift_def g_max_blocks_per_operation_def
  g_log_size_def LH_COMMIT_MAGIC_def

section \<open>Structures\<close>

type_synonym byte = "8 word"

text \<open>The \<open>L_TYPE_*\<close> values 1 to 8; any other byte (a zeroed entry) is \<open>L_TYPE_INVALID\<close>.\<close>

datatype l_type =
    L_TYPE_DIR_ADD | L_TYPE_DIR_RENAME | L_TYPE_DIR_DEL
  | L_TYPE_INODE_CREATE | L_TYPE_INODE_UPDATE
  | L_TYPE_FILE | L_TYPE_UNLINK | L_TYPE_ALLOC
  | L_TYPE_INVALID

record logheader =
  lh_n :: nat
  lh_type :: "l_type list"
  lh_inode_no :: "nat list"
  lh_data :: "nat list"
  lh_length :: "nat list"
  lh_blocks :: "nat list"
  lh_nr_log_blocks :: nat
  lh_mtime :: nat
  lh_inuse :: nat

record io_vec =
  iov_base :: "byte list"
  iov_size :: nat

record logheader_meta =
  lm_loghdr :: "logheader option"
  lm_is_hdr_allocated :: bool
  lm_hdr_blkno :: nat
  lm_pos :: nat
  lm_nr_iovec :: nat
  lm_io_vec :: "io_vec list"
  lm_ext_used :: nat
  lm_loghdr_ext :: "byte list"

text \<open>\<open>mlfs_zalloc\<close> of a log header, and \<open>memset\<close> of the thread's \<open>logheader_meta\<close>.\<close>

definition zero_loghdr :: logheader where
  "zero_loghdr = \<lparr>lh_n = 0,
     lh_type = replicate g_max_blocks_per_operation L_TYPE_INVALID,
     lh_inode_no = replicate g_max_blocks_per_operation 0,
     lh_data = replicate g_max_blocks_per_operation 0,
     lh_length = replicate g_max_blocks_per_operation 0,
     lh_blocks = replicate g_max_blocks_per_operation 0,
     lh_nr_log_blocks = 0, lh_mtime = 0, lh_inuse = 0\<rparr>"

definition zero_loghdr_meta :: logheader_meta where
  "zero_loghdr_meta = \<lparr>lm_loghdr = None, lm_is_hdr_allocated = False, lm_hdr_blkno = 0,
     lm_pos = 0, lm_nr_iovec = 0,
     lm_io_vec = replicate 10 \<lparr>iov_base = [], iov_size = 0\<rparr>,
     lm_ext_used = 0, lm_loghdr_ext = replicate 2048 0\<rparr>"

section \<open>Positions in the circular log\<close>

definition next_loghdr_blknr :: "nat \<Rightarrow> nat \<Rightarrow> nat \<Rightarrow> nat \<Rightarrow> nat" where
  "next_loghdr_blknr current sz start end_blk =
     (if sub64 (add64 current sz) 1 = end_blk then start else add64 current sz)"

definition wrap_arounded_blknr :: "nat \<Rightarrow> nat \<Rightarrow> nat \<Rightarrow> nat \<Rightarrow> nat" where
  "wrap_arounded_blknr start_blknr blk_cnt log_start_blknr log_end_blknr =
     (let end_blk = sub64 (add64 start_blknr blk_cnt) 1;
          log_size = add64 (sub64 log_end_blknr log_start_blknr) 1
      in sub64 end_blk log_size)"

record mlfs_interval =
  itv_start :: nat
  itv_size :: nat

definition find_intersection :: "mlfs_interval \<Rightarrow> mlfs_interval \<Rightarrow> mlfs_interval option" where
  "find_intersection i1 i2 =
     (if itv_start i2 > sub32 (add32 (itv_start i1) (itv_size i1)) 1 \<or>
         itv_start i1 > sub32 (add32 (itv_start i2) (itv_size i2)) 1
      then None
      else let st = max (itv_start i1) (itv_start i2) in
        Some \<lparr>itv_start = st,
              itv_size = sub32 (min (add32 (itv_start i1) (itv_size i1))
                                    (add32 (itv_start i2) (itv_size i2))) st\<rparr>)"

section \<open>Filling in the header\<close>

definition buf_write :: "byte list \<Rightarrow> nat \<Rightarrow> byte list \<Rightarrow> byte list" where
  "buf_write buf off bs = take off buf @ bs @ drop (off + length bs) buf"

text \<open>The extension area: \<open>'0' + i\<close>, the extra bytes, \<open>strncat\<close> of a bar, a final NUL.\<close>

definition add_extra :: "nat \<Rightarrow> byte list \<Rightarrow> logheader_meta \<Rightarrow> logheader_meta run" where
  "add_extra i extra lm =
     (let u = lm_ext_used lm;
          b1 = buf_write (lm_loghdr_ext lm) u (of_nat (48 + i) # extra);
          p = add16 (add16 u 1) (length extra);
          q = p + length (takeWhile (\<lambda>b. b \<noteq> 0) (drop p b1));
          b2 = buf_write b1 q [124, 0];
          u' = add16 p 1;
          b3 = buf_write b2 u' [0]
      in mlfs_assert (u' \<le> 2048) ''ext_used <= 2048''
           (Done (lm\<lparr>lm_loghdr_ext := b3, lm_ext_used := u'\<rparr>)))"

definition data_in_loghdr :: "l_type \<Rightarrow> bool" where
  "data_in_loghdr t \<longleftrightarrow> t = L_TYPE_FILE \<or> t = L_TYPE_DIR_ADD \<or> t = L_TYPE_DIR_RENAME \<or>
     t = L_TYPE_DIR_DEL"

definition add_to_loghdr ::
  "nat \<Rightarrow> l_type \<Rightarrow> nat \<Rightarrow> nat \<Rightarrow> nat \<Rightarrow> byte list \<Rightarrow> logheader_meta \<Rightarrow> logheader_meta run" where
  "add_to_loghdr log_size ty inum data len extra lm =
     (let lm = (if lm_is_hdr_allocated lm then lm
                else lm\<lparr>lm_loghdr := Some zero_loghdr, lm_is_hdr_allocated := True\<rparr>)
      in case lm_loghdr lm of
        None \<Rightarrow> Failed (NullDeref ''loghdr'')
      | Some h \<Rightarrow>
          if lh_n h \<ge> log_size then Failed (Panic ''too big a transaction for log'')
          else let i = lh_n h in
          if i \<ge> g_max_blocks_per_operation then Failed (Panic ''log header is too small'')
          else let h' = h\<lparr>lh_type := (lh_type h)[i := ty],
                         lh_inode_no := (lh_inode_no h)[i := inum],
                         lh_data := (lh_data h)[i := (if data_in_loghdr ty then data else 0)],
                         lh_length := (lh_length h)[i := len],
                         lh_n := add8 (lh_n h) 1\<rparr>;
                   lm' = lm\<lparr>lm_loghdr := Some h'\<rparr>
               in if length extra \<noteq> 0 then add_extra i extra lm' else Done lm')"

text \<open>
  \<open>add_to_log\<close> returns the new header metadata; the update of the in-memory file size that
  ends the C function is \<open>grow_size\<close>.
\<close>

definition add_to_log ::
  "nat \<Rightarrow> l_type \<Rightarrow> nat \<Rightarrow> byte list \<Rightarrow> nat \<Rightarrow> nat \<Rightarrow> logheader_meta \<Rightarrow> logheader_meta run" where
  "add_to_log log_size ltype inum dat off sz lm =
     mlfs_assert (add64 off sz > off) ''off + size > off''
       (let k = lm_nr_iovec lm;
            lm1 = lm\<lparr>lm_io_vec := (lm_io_vec lm)[k := \<lparr>iov_base = dat, iov_size = sz\<rparr>],
                     lm_nr_iovec := add32 k 1\<rparr>
        in mlfs_assert (lm_nr_iovec lm1 \<le> 9) ''nr_iovec <= 9''
             (add_to_loghdr log_size ltype inum off sz [] lm1))"

definition grow_size :: "nat \<Rightarrow> nat \<Rightarrow> nat \<Rightarrow> nat" where
  "grow_size off sz isize = (if sz > 0 \<and> add64 off sz > isize then add64 off sz else isize)"

section \<open>Blocks needed by a transaction\<close>

fun compute_log_blocks_loop :: "l_type list \<Rightarrow> io_vec list \<Rightarrow> nat \<Rightarrow> nat \<Rightarrow> nat run" where
  "compute_log_blocks_loop [] iovs n_iovec acc = Done acc"
| "compute_log_blocks_loop (t # ts) iovs n_iovec acc =
     (case t of
        L_TYPE_UNLINK \<Rightarrow> compute_log_blocks_loop ts iovs n_iovec (add32 acc 1)
      | L_TYPE_INODE_CREATE \<Rightarrow> compute_log_blocks_loop ts iovs n_iovec (add32 acc 1)
      | L_TYPE_INODE_UPDATE \<Rightarrow> compute_log_blocks_loop ts iovs n_iovec (add32 acc 1)
      | L_TYPE_ALLOC \<Rightarrow> Failed (Panic ''unsupported log type'')
      | L_TYPE_INVALID \<Rightarrow> Failed (Panic ''unsupported log type'')
      | _ \<Rightarrow> let sz = iov_size (iovs ! n_iovec) in
          compute_log_blocks_loop ts iovs (add8 n_iovec 1)
            (if sz < g_block_size_bytes then add32 acc 1
             else add32 acc (sz div 2 ^ g_block_size_shift)))"

definition compute_log_blocks :: "logheader_meta \<Rightarrow> nat run" where
  "compute_log_blocks lm =
     (case lm_loghdr lm of
        None \<Rightarrow> Failed (NullDeref ''loghdr'')
      | Some h \<Rightarrow> compute_log_blocks_loop (take (lh_n h) (lh_type h)) (lm_io_vec lm) 0 0)"

section \<open>The operations of a transaction\<close>

text \<open>
  What a filled-in header means: a list of operations, an inode image or file (directory)
  data of one \<open>io_vec\<close>. Data entries take the \<open>io_vec\<close>s in order, as the loops of
  \<open>compute_log_blocks\<close> and \<open>persist_log_blocks\<close> do.
\<close>

datatype log_op =
    Op_Inode l_type nat
  | Op_Data l_type nat nat io_vec

fun entry_ops :: "(l_type \<times> nat \<times> nat) list \<Rightarrow> io_vec list \<Rightarrow> log_op list" where
  "entry_ops [] iovs = []"
| "entry_ops ((t, inum, dat) # es) iovs =
     (if data_in_loghdr t
      then (case iovs of [] \<Rightarrow> [] | v # vs \<Rightarrow> Op_Data t inum dat v # entry_ops es vs)
      else Op_Inode t inum # entry_ops es iovs)"

definition lh_entries :: "logheader \<Rightarrow> (l_type \<times> nat \<times> nat) list" where
  "lh_entries h = map (\<lambda>i. (lh_type h ! i, lh_inode_no h ! i, lh_data h ! i)) [0..<lh_n h]"

definition meta_ops :: "logheader_meta \<Rightarrow> log_op list" where
  "meta_ops lm = (case lm_loghdr lm of None \<Rightarrow> []
     | Some h \<Rightarrow> entry_ops (lh_entries h) (take (lm_nr_iovec lm) (lm_io_vec lm)))"

fun op_blocks :: "log_op \<Rightarrow> nat" where
  "op_blocks (Op_Inode t inum) = 1"
| "op_blocks (Op_Data t inum off v) =
     (if iov_size v < g_block_size_bytes then 1 else iov_size v div g_block_size_bytes)"

definition n_data :: "logheader \<Rightarrow> nat" where
  "n_data h = length (filter (\<lambda>e. data_in_loghdr (fst e)) (lh_entries h))"

definition committable :: "l_type \<Rightarrow> bool" where
  "committable t \<longleftrightarrow> t \<noteq> L_TYPE_ALLOC \<and> t \<noteq> L_TYPE_INVALID"

text \<open>Well-formed transaction metadata.\<close>

definition wf_loghdr :: "logheader \<Rightarrow> bool" where
  "wf_loghdr h \<longleftrightarrow> lh_n h \<le> g_max_blocks_per_operation \<and>
     length (lh_type h) = g_max_blocks_per_operation \<and>
     length (lh_inode_no h) = g_max_blocks_per_operation \<and>
     length (lh_data h) = g_max_blocks_per_operation \<and>
     length (lh_length h) = g_max_blocks_per_operation \<and>
     length (lh_blocks h) = g_max_blocks_per_operation"

definition wf_meta :: "logheader_meta \<Rightarrow> bool" where
  "wf_meta lm \<longleftrightarrow> length (lm_io_vec lm) = 10 \<and>
     lm_is_hdr_allocated lm = (lm_loghdr lm \<noteq> None) \<and>
     (case lm_loghdr lm of None \<Rightarrow> lm_nr_iovec lm = 0
      | Some h \<Rightarrow> wf_loghdr h \<and> lm_nr_iovec lm = n_data h)"

section \<open>Lemmas on transaction metadata\<close>

lemma wf_zero_loghdr [simp]: "wf_loghdr zero_loghdr"
  by (simp add: wf_loghdr_def zero_loghdr_def)

lemma lh_entries_zero [simp]: "lh_entries zero_loghdr = []"
  by (simp add: lh_entries_def zero_loghdr_def)

lemma n_data_zero [simp]: "n_data zero_loghdr = 0"
  by (simp add: n_data_def)

lemma wf_zero_loghdr_meta [simp]: "wf_meta zero_loghdr_meta"
  by (simp add: wf_meta_def zero_loghdr_meta_def)

lemma meta_ops_zero [simp]: "meta_ops zero_loghdr_meta = []"
  by (simp add: meta_ops_def zero_loghdr_meta_def)

lemma length_lh_entries [simp]: "length (lh_entries h) = lh_n h"
  by (simp add: lh_entries_def)

lemma n_data_le: "n_data h \<le> lh_n h"
  by (metis n_data_def length_filter_le length_lh_entries)

lemma entry_ops_append:
  "length (filter (\<lambda>e. data_in_loghdr (fst e)) es) \<le> length iovs \<Longrightarrow>
   entry_ops (es @ es') iovs =
   entry_ops es iovs @
   entry_ops es' (drop (length (filter (\<lambda>e. data_in_loghdr (fst e)) es)) iovs)"
  by (induction es iovs rule: entry_ops.induct) (auto split: list.splits)

lemma entry_ops_take:
  "length (filter (\<lambda>e. data_in_loghdr (fst e)) es) = k \<Longrightarrow>
   entry_ops es (take k iovs) = entry_ops es iovs"
  by (induction es iovs arbitrary: k rule: entry_ops.induct)
     (auto split: list.splits simp: take_Cons')

text \<open>The header with one more entry.\<close>

definition push_entry :: "l_type \<Rightarrow> nat \<Rightarrow> nat \<Rightarrow> nat \<Rightarrow> logheader \<Rightarrow> logheader" where
  "push_entry ty inum dat len h =
     h\<lparr>lh_type := (lh_type h)[lh_n h := ty],
       lh_inode_no := (lh_inode_no h)[lh_n h := inum],
       lh_data := (lh_data h)[lh_n h := dat],
       lh_length := (lh_length h)[lh_n h := len],
       lh_n := add8 (lh_n h) 1\<rparr>"

lemma lh_n_push_entry [simp]:
  "lh_n h < g_max_blocks_per_operation \<Longrightarrow> lh_n (push_entry ty inum dat len h) = Suc (lh_n h)"
  by (simp add: push_entry_def add_w_id g_max_blocks_per_operation_def)

lemma lh_entries_push_entry:
  assumes "wf_loghdr h" and "lh_n h < g_max_blocks_per_operation"
  shows "lh_entries (push_entry ty inum dat len h) = lh_entries h @ [(ty, inum, dat)]"
proof -
  have n: "lh_n (push_entry ty inum dat len h) = Suc (lh_n h)" using assms(2) by simp
  have "lh_entries (push_entry ty inum dat len h) =
    map (\<lambda>i. (lh_type (push_entry ty inum dat len h) ! i, lh_inode_no (push_entry ty inum dat len h) ! i,
      lh_data (push_entry ty inum dat len h) ! i)) [0..<lh_n h] @ [(ty, inum, dat)]"
    unfolding lh_entries_def n using assms by (simp add: push_entry_def wf_loghdr_def)
  also have "map (\<lambda>i. (lh_type (push_entry ty inum dat len h) ! i,
      lh_inode_no (push_entry ty inum dat len h) ! i,
      lh_data (push_entry ty inum dat len h) ! i)) [0..<lh_n h] = lh_entries h"
    unfolding lh_entries_def by (rule map_cong) (auto simp: push_entry_def)
  finally show ?thesis .
qed

lemma wf_push_entry:
  "wf_loghdr h \<Longrightarrow> lh_n h < g_max_blocks_per_operation \<Longrightarrow> wf_loghdr (push_entry ty inum dat len h)"
  unfolding wf_loghdr_def by (simp add: push_entry_def add_w_id g_max_blocks_per_operation_def)

lemma n_data_push_entry:
  "wf_loghdr h \<Longrightarrow> lh_n h < g_max_blocks_per_operation \<Longrightarrow>
   n_data (push_entry ty inum dat len h) = n_data h + (if data_in_loghdr ty then 1 else 0)"
  by (simp add: n_data_def lh_entries_push_entry)

text \<open>\<open>add_to_loghdr\<close> without extra bytes either panics or pushes one entry.\<close>

definition cur_loghdr :: "logheader_meta \<Rightarrow> logheader" where
  "cur_loghdr lm = (case lm_loghdr lm of None \<Rightarrow> zero_loghdr | Some h \<Rightarrow> h)"

lemma wf_cur_loghdr: "wf_meta lm \<Longrightarrow> wf_loghdr (cur_loghdr lm)"
  by (auto simp: wf_meta_def cur_loghdr_def split: option.splits)

lemma wf_meta_iovec:
  "wf_meta lm \<Longrightarrow> lm_nr_iovec lm = n_data (cur_loghdr lm)"
  by (auto simp: wf_meta_def cur_loghdr_def split: option.splits)

lemma meta_ops_cur:
  "wf_meta lm \<Longrightarrow> meta_ops lm = entry_ops (lh_entries (cur_loghdr lm)) (lm_io_vec lm)"
  by (auto simp: meta_ops_def wf_meta_def cur_loghdr_def n_data_def intro!: entry_ops_take
      split: option.splits)

lemma add_to_loghdr_eq:
  assumes "lm_is_hdr_allocated lm = (lm_loghdr lm \<noteq> None)"
  shows "add_to_loghdr log_size ty inum data len [] lm =
    (if lh_n (cur_loghdr lm) \<ge> log_size then Failed (Panic ''too big a transaction for log'')
     else if lh_n (cur_loghdr lm) \<ge> g_max_blocks_per_operation
       then Failed (Panic ''log header is too small'')
     else Done (lm\<lparr>lm_is_hdr_allocated := True,
       lm_loghdr := Some (push_entry ty inum (if data_in_loghdr ty then data else 0) len
                            (cur_loghdr lm))\<rparr>))"
  using assms by (cases "lm_loghdr lm")
    (auto simp: add_to_loghdr_def cur_loghdr_def push_entry_def Let_def)

lemma nr_iovec_small:
  "wf_meta lm \<Longrightarrow> lm_nr_iovec lm \<le> g_max_blocks_per_operation"
  using wf_meta_iovec wf_cur_loghdr n_data_le
  by (metis le_trans wf_loghdr_def)

text \<open>An inode entry.\<close>

lemma add_to_loghdr_inode:
  assumes wf: "wf_meta lm" and t: "\<not> data_in_loghdr ty"
    and ok: "add_to_loghdr log_size ty inum data len [] lm = Done lm'"
  shows "wf_meta lm'" and "meta_ops lm' = meta_ops lm @ [Op_Inode ty inum]"
proof -
  let ?h = "cur_loghdr lm"
  from wf have a: "lm_is_hdr_allocated lm = (lm_loghdr lm \<noteq> None)" by (simp add: wf_meta_def)
  from ok a have n: "lh_n ?h < g_max_blocks_per_operation"
    and lm': "lm' = lm\<lparr>lm_is_hdr_allocated := True, lm_loghdr := Some (push_entry ty inum 0 len ?h)\<rparr>"
    using t by (auto simp: add_to_loghdr_eq split: if_splits)
  note wfh = wf_cur_loghdr [OF wf]
  show wf': "wf_meta lm'"
    using wf n wfh t wf_meta_iovec [OF wf]
    by (simp add: lm' wf_meta_def wf_push_entry n_data_push_entry)
  have "meta_ops lm' = entry_ops (lh_entries ?h @ [(ty, inum, 0)]) (lm_io_vec lm)"
    using meta_ops_cur [OF wf'] n wfh by (simp add: lm' cur_loghdr_def lh_entries_push_entry)
  also have "\<dots> = entry_ops (lh_entries ?h) (lm_io_vec lm) @ [Op_Inode ty inum]"
    using t n_data_le [of ?h] n wf
    by (subst entry_ops_append)
       (auto simp: n_data_def [symmetric] wf_meta_def g_max_blocks_per_operation_def)
  finally show "meta_ops lm' = meta_ops lm @ [Op_Inode ty inum]"
    by (simp add: meta_ops_cur [OF wf])
qed

text \<open>A data entry: the \<open>io_vec\<close> goes with the entry.\<close>

lemma add_to_log_Done:
  assumes wf: "wf_meta lm" and t: "data_in_loghdr ty"
    and ok: "add_to_log log_size ty inum dat off sz lm = Done lm'"
  shows "wf_meta lm'"
    and "meta_ops lm' = meta_ops lm @ [Op_Data ty inum off \<lparr>iov_base = dat, iov_size = sz\<rparr>]"
proof -
  let ?h = "cur_loghdr lm"
  let ?v = "\<lparr>iov_base = dat, iov_size = sz\<rparr>"
  let ?k = "lm_nr_iovec lm"
  note wfh = wf_cur_loghdr [OF wf] and k4 = nr_iovec_small [OF wf]
  have k: "?k = n_data ?h" by (rule wf_meta_iovec [OF wf])
  have k10: "?k < length (lm_io_vec lm)"
    using wf k4 by (simp add: wf_meta_def g_max_blocks_per_operation_def)
  have ks: "add32 ?k 1 = Suc ?k"
    using k4 by (simp add: add_w_id g_max_blocks_per_operation_def)
  let ?lm1 = "lm\<lparr>lm_io_vec := (lm_io_vec lm)[?k := ?v], lm_nr_iovec := Suc ?k\<rparr>"
  have a: "lm_is_hdr_allocated ?lm1 = (lm_loghdr ?lm1 \<noteq> None)" using wf by (simp add: wf_meta_def)
  have c1: "cur_loghdr ?lm1 = ?h" by (simp add: cur_loghdr_def)
  from ok have "add_to_loghdr log_size ty inum off sz [] ?lm1 = Done lm'"
    by (simp add: add_to_log_def Let_def ks [unfolded One_nat_def] run_simps)
  then have n: "lh_n ?h < g_max_blocks_per_operation"
    and lm': "lm' = ?lm1\<lparr>lm_is_hdr_allocated := True, lm_loghdr := Some (push_entry ty inum off sz ?h)\<rparr>"
    using t by (auto simp: add_to_loghdr_eq [OF a] c1 split: if_splits)
  show wf': "wf_meta lm'"
    using wf n wfh t k by (simp add: lm' wf_meta_def wf_push_entry n_data_push_entry)
  have "meta_ops lm' = entry_ops (lh_entries ?h @ [(ty, inum, off)]) ((lm_io_vec lm)[?k := ?v])"
    using meta_ops_cur [OF wf'] n wfh by (simp add: lm' cur_loghdr_def lh_entries_push_entry)
  also have "\<dots> = entry_ops (lh_entries ?h) ((lm_io_vec lm)[?k := ?v]) @
      entry_ops [(ty, inum, off)] (drop ?k ((lm_io_vec lm)[?k := ?v]))"
    using k10 by (subst entry_ops_append) (auto simp: n_data_def [symmetric] k)
  also have "entry_ops [(ty, inum, off)] (drop ?k ((lm_io_vec lm)[?k := ?v])) = [Op_Data ty inum off ?v]"
    using t k10 by (simp add: drop_update_swap Cons_nth_drop_Suc [symmetric])
  also have "entry_ops (lh_entries ?h) ((lm_io_vec lm)[?k := ?v]) =
      entry_ops (lh_entries ?h) (lm_io_vec lm)"
    using entry_ops_take [of "lh_entries ?h" ?k "(lm_io_vec lm)[?k := ?v]"]
      entry_ops_take [of "lh_entries ?h" ?k "lm_io_vec lm"]
    by (simp add: n_data_def [symmetric] k)
  finally show "meta_ops lm' = meta_ops lm @ [Op_Data ty inum off ?v]"
    by (simp add: meta_ops_cur [OF wf])
qed

section \<open>The block count of a transaction\<close>

definition ops_blocks :: "log_op list \<Rightarrow> nat" where
  "ops_blocks ops = sum_list (map op_blocks ops)"

lemma ops_blocks_simps [simp]:
  "ops_blocks [] = 0" "ops_blocks (x # xs) = op_blocks x + ops_blocks xs"
  "ops_blocks (xs @ ys) = ops_blocks xs + ops_blocks ys"
  by (simp_all add: ops_blocks_def)

lemma op_blocks_pos: "0 < op_blocks x"
  by (cases x) (auto simp: g_block_size_bytes_def)

lemma compute_log_blocks_loop_eq:
  assumes "\<forall>e \<in> set es. committable (fst e)"
    and "length (filter (\<lambda>e. data_in_loghdr (fst e)) es) + k \<le> length iovs"
    and "length iovs < 2 ^ 8"
  shows "compute_log_blocks_loop (map fst es) iovs k acc =
    Done (if es = [] then acc else (acc + ops_blocks (entry_ops es (drop k iovs))) mod 2 ^ 32)"
  using assms
proof (induction es arbitrary: k acc)
  case Nil
  then show ?case by simp
next
  case (Cons e es)
  obtain t inum dat where e: "e = (t, inum, dat)" by (cases e)
  have tail: "\<forall>e \<in> set es. committable (fst e)" using Cons.prems(1) by simp
  have drp: "(acc mod 2 ^ 32 + x) mod 2 ^ 32 = (acc + x) mod 2 ^ 32" for acc x :: nat
    by (simp add: mod_add_left_eq)
  show ?case
  proof (cases "data_in_loghdr t")
    case True
    from Cons.prems e True have k: "k < length iovs" by simp
    then have k8: "add8 k 1 = Suc k" using Cons.prems(3) by (simp add: add_w_id)
    have pre: "length (filter (\<lambda>e. data_in_loghdr (fst e)) es) + Suc k \<le> length iovs"
      using Cons.prems(2) e True by simp
    have shift: "iov_size (iovs ! k) div 2 ^ g_block_size_shift = iov_size (iovs ! k) div g_block_size_bytes"
      by (simp add: g_params)
    note ih = Cons.IH [OF tail pre Cons.prems(3)]
    have "drop k iovs = iovs ! k # drop (Suc k) iovs" using k by (rule Cons_nth_drop_Suc [symmetric])
    with True k8 e show ?thesis
      by (cases t) (simp_all add: data_in_loghdr_def Let_def shift ih add_w_def drp mod_add_left_eq
          add.assoc mod_simps)
  next
    case False
    have pre: "length (filter (\<lambda>e. data_in_loghdr (fst e)) es) + k \<le> length iovs"
      using Cons.prems(2) e False by simp
    note ih = Cons.IH [OF tail pre Cons.prems(3)]
    from False Cons.prems(1) e show ?thesis
      by (cases t) (simp_all add: data_in_loghdr_def committable_def ih add_w_def mod_simps)
  qed
qed

lemma compute_log_blocks_eq:
  assumes wf: "wf_meta lm" and h: "lm_loghdr lm = Some h"
    and c: "\<forall>e \<in> set (lh_entries h). committable (fst e)"
  shows "compute_log_blocks lm = Done (ops_blocks (meta_ops lm) mod 2 ^ 32)"
proof -
  have wfh: "wf_loghdr h" using wf h by (simp add: wf_meta_def)
  have len10: "length (lm_io_vec lm) = 10" using wf by (simp add: wf_meta_def)
  have ty: "take (lh_n h) (lh_type h) = map fst (lh_entries h)"
    using wfh by (intro nth_equalityI) (auto simp: lh_entries_def wf_loghdr_def)
  have nd: "length (filter (\<lambda>e. data_in_loghdr (fst e)) (lh_entries h)) + 0 \<le> length (lm_io_vec lm)"
    using n_data_le [of h] wfh len10
    by (simp add: n_data_def wf_loghdr_def g_max_blocks_per_operation_def)
  have "compute_log_blocks lm =
      Done (if lh_entries h = [] then 0
            else (0 + ops_blocks (entry_ops (lh_entries h) (drop 0 (lm_io_vec lm)))) mod 2 ^ 32)"
    unfolding compute_log_blocks_def
    using compute_log_blocks_loop_eq [OF c nd, of 0] len10 by (simp add: h ty)
  also have "entry_ops (lh_entries h) (drop 0 (lm_io_vec lm)) = meta_ops lm"
    using meta_ops_cur [OF wf] by (simp add: cur_loghdr_def h)
  finally show ?thesis
    using meta_ops_cur [OF wf] by (auto simp: cur_loghdr_def h)
qed

text \<open>An \<open>L_TYPE_ALLOC\<close> entry (\<open>fallocate\<close>) is not supported by the commit path.\<close>

lemma compute_log_blocks_loop_alloc:
  "L_TYPE_ALLOC \<in> set ts \<Longrightarrow> \<forall>t \<in> set ts. t \<noteq> L_TYPE_INVALID \<Longrightarrow>
   compute_log_blocks_loop ts iovs k acc = Failed (Panic ''unsupported log type'')"
  by (induction ts iovs k acc rule: compute_log_blocks_loop.induct)
     (auto split: l_type.splits simp: Let_def)

section \<open>Intervals\<close>

text \<open>\<open>find_intersection\<close> computes the intersection of two block intervals, and reports none
  exactly when they are disjoint.\<close>

theorem find_intersection_correct:
  assumes "0 < itv_size i1" and "0 < itv_size i2"
    and "itv_start i1 + itv_size i1 < 2 ^ 32" and "itv_start i2 + itv_size i2 < 2 ^ 32"
  shows "{itv_start i1..<itv_start i1 + itv_size i1} \<inter> {itv_start i2..<itv_start i2 + itv_size i2} =
    (case find_intersection i1 i2 of None \<Rightarrow> {} | Some r \<Rightarrow> {itv_start r..<itv_start r + itv_size r})"
proof -
  have s1: "sub32 (add32 (itv_start i1) (itv_size i1)) 1 = itv_start i1 + itv_size i1 - 1"
    and s2: "sub32 (add32 (itv_start i2) (itv_size i2)) 1 = itv_start i2 + itv_size i2 - 1"
    using assms by (simp_all add: add_w_id sub_w_id)
  note s1 = s1 [unfolded One_nat_def] and s2 = s2 [unfolded One_nat_def]
  have a1: "add32 (itv_start i1) (itv_size i1) = itv_start i1 + itv_size i1"
    and a2: "add32 (itv_start i2) (itv_size i2) = itv_start i2 + itv_size i2"
    using assms by (simp_all add: add_w_id)
  show ?thesis
  proof (cases "find_intersection i1 i2")
    case None
    then show ?thesis using assms by (auto simp: find_intersection_def s1 s2 Let_def split: if_splits)
  next
    case (Some r)
    then have ov: "itv_start i2 \<le> itv_start i1 + itv_size i1 - 1"
      "itv_start i1 \<le> itv_start i2 + itv_size i2 - 1"
      by (auto simp: find_intersection_def s1 s2 Let_def split: if_splits)
    let ?st = "max (itv_start i1) (itv_start i2)"
    let ?en = "min (itv_start i1 + itv_size i1) (itv_start i2 + itv_size i2)"
    from ov assms have "?st < ?en" "?en < 2 ^ 32" by auto
    then have "sub32 ?en ?st = ?en - ?st" by (simp add: sub_w_id)
    with Some ov s1 s2 a1 a2 have "itv_start r = ?st" "itv_size r = ?en - ?st"
      by (auto simp: find_intersection_def Let_def split: if_splits)
    with \<open>?st < ?en\<close> Some show ?thesis by auto
  qed
qed

theorem find_intersection_correct_witness:
  "{3..<3 + 5} \<inter> {6..<6 + 10} = {6::nat..<6 + 2} \<and>
   find_intersection \<lparr>itv_start = 3, itv_size = 5\<rparr> \<lparr>itv_start = 6, itv_size = 10\<rparr> =
     Some \<lparr>itv_start = 6, itv_size = 2\<rparr>"
  using find_intersection_correct
    [of "\<lparr>itv_start = 3, itv_size = 5\<rparr>" "\<lparr>itv_start = 6, itv_size = 10\<rparr>"]
  by (simp add: find_intersection_def Let_def add_w_def sub_w_def)

section \<open>Properties of transaction metadata\<close>

text \<open>Adding data to a transaction refines appending one operation: whenever \<open>add_to_log\<close>
  returns, the metadata stays well formed and describes the earlier operations followed
  by exactly the new one, with its type, inode, offset and buffer.\<close>

theorem add_to_log_appends:
  assumes "wf_meta lm" and "data_in_loghdr ty"
    and "add_to_log log_size ty inum dat off sz lm = Done lm'"
  shows "wf_meta lm' \<and> meta_ops lm' = meta_ops lm @ [Op_Data ty inum off \<lparr>iov_base = dat, iov_size = sz\<rparr>]"
  using add_to_log_Done [OF assms] by simp

theorem add_to_log_appends_witness:
  "\<exists>lm'. add_to_log g_log_size L_TYPE_FILE 7 [1, 2, 3] 10 3 zero_loghdr_meta = Done lm' \<and>
     wf_meta lm' \<and> meta_ops lm' = [Op_Data L_TYPE_FILE 7 10 \<lparr>iov_base = [1, 2, 3], iov_size = 3\<rparr>]"
proof -
  obtain lm' where "add_to_log g_log_size L_TYPE_FILE 7 [1, 2, 3] 10 3 zero_loghdr_meta = Done lm'"
    by (simp add: add_to_log_def Let_def add_w_def add_to_loghdr_def zero_loghdr_meta_def
        zero_loghdr_def data_in_loghdr_def g_params)
  with add_to_log_appends [OF wf_zero_loghdr_meta _ this] show ?thesis
    by (simp add: data_in_loghdr_def)
qed

text \<open>The number of blocks reserved for a transaction is, modulo the width of the C counter,
  the sum over its operations: one block per inode image and per partial write, and the
  whole blocks of a large write.\<close>

theorem compute_log_blocks_sum:
  assumes "wf_meta lm" and "lm_loghdr lm = Some h"
    and "\<forall>e \<in> set (lh_entries h). committable (fst e)"
  shows "compute_log_blocks lm = Done (ops_blocks (meta_ops lm) mod 2 ^ 32)"
  by (rule compute_log_blocks_eq [OF assms])

definition two_op_meta :: logheader_meta where
  "two_op_meta = zero_loghdr_meta\<lparr>lm_is_hdr_allocated := True, lm_nr_iovec := 1,
     lm_loghdr := Some (zero_loghdr\<lparr>lh_n := 2,
       lh_type := [L_TYPE_INODE_UPDATE, L_TYPE_FILE, L_TYPE_INVALID, L_TYPE_INVALID]\<rparr>),
     lm_io_vec := \<lparr>iov_base = [], iov_size = 8192\<rparr> # replicate 9 \<lparr>iov_base = [], iov_size = 0\<rparr>\<rparr>"

theorem compute_log_blocks_sum_witness:
  "compute_log_blocks two_op_meta = Done 3 \<and> wf_meta two_op_meta"
proof -
  let ?h = "zero_loghdr\<lparr>lh_n := 2,
    lh_type := [L_TYPE_INODE_UPDATE, L_TYPE_FILE, L_TYPE_INVALID, L_TYPE_INVALID]\<rparr>"
  have h: "lm_loghdr two_op_meta = Some ?h" by (simp add: two_op_meta_def)
  have w: "wf_meta two_op_meta"
    by (simp add: wf_meta_def two_op_meta_def wf_loghdr_def zero_loghdr_def n_data_def lh_entries_def
        upt_rec data_in_loghdr_def g_max_blocks_per_operation_def)
  have "\<forall>e \<in> set (lh_entries ?h). committable (fst e)"
    by (simp add: lh_entries_def upt_rec committable_def zero_loghdr_def)
  from compute_log_blocks_sum [OF w h this] w show ?thesis
    by (simp add: meta_ops_def two_op_meta_def zero_loghdr_def lh_entries_def upt_rec data_in_loghdr_def
        g_params)
qed

text \<open>C35. A transaction with an \<open>L_TYPE_ALLOC\<close> entry cannot commit: the size computation panics.\<close>

theorem compute_log_blocks_rejects_alloc:
  assumes "lm_loghdr lm = Some h" and "L_TYPE_ALLOC \<in> set (take (lh_n h) (lh_type h))"
    and "L_TYPE_INVALID \<notin> set (take (lh_n h) (lh_type h))"
  shows "compute_log_blocks lm = Failed (Panic ''unsupported log type'')"
  using assms compute_log_blocks_loop_alloc [of "take (lh_n h) (lh_type h)" "lm_io_vec lm" 0 0]
  by (auto simp: compute_log_blocks_def)

theorem compute_log_blocks_rejects_alloc_witness:
  "compute_log_blocks (zero_loghdr_meta\<lparr>lm_loghdr := Some (zero_loghdr\<lparr>lh_n := 1,
     lh_type := [L_TYPE_ALLOC, L_TYPE_INVALID, L_TYPE_INVALID, L_TYPE_INVALID]\<rparr>)\<rparr>) =
   Failed (Panic ''unsupported log type'')"
  by (rule compute_log_blocks_rejects_alloc [where h = "zero_loghdr\<lparr>lh_n := 1,
        lh_type := [L_TYPE_ALLOC, L_TYPE_INVALID, L_TYPE_INVALID, L_TYPE_INVALID]\<rparr>"])
     simp_all

end
