(* ===== verification/Fcache.thy ===== *)
theory Fcache
  imports Loghdr
begin

text \<open>
  In-memory inodes and their file caches.

  Models \<open>struct dinode\<close>, \<open>struct inode\<close> (\<open>libfs/src/filesystem/shared.h\<close>), and of
  \<open>libfs/src/filesystem/fs.h\<close> the inode cache (\<open>icache_*\<close>), \<open>struct fcache_block\<close>,
  \<open>struct fcache_log\<close> and the operations on them in the \<open>KLIB_HASH\<close> build, together with
  \<open>check_log_invalidation\<close> of \<open>libfs/src/filesystem/fs.c\<close>. A file cache block lists the
  log blocks that patch one 4K block of a file. The lemmas show that the counters agree
  with the lists and that invalidation keeps exactly the pointers to log blocks which
  the circular log has not reused.

  A khash table is a map, the null table \<open>None\<close>. A kernel list is a list whose first
  element is the one after the list head. Locks are omitted: each operation runs to
  completion under its own lock.
\<close>

section \<open>Structures\<close>

definition T_DIR :: nat where "T_DIR = 1"
definition T_FILE :: nat where "T_FILE = 2"
definition T_DEV :: nat where "T_DEV = 3"
definition NDIRECT :: nat where "NDIRECT = 7"

definition I_BUSY :: byte where "I_BUSY = 0x1"
definition I_VALID :: byte where "I_VALID = 0x2"
definition I_DIRTY :: byte where "I_DIRTY = 0x4"
definition I_DELETING :: byte where "I_DELETING = 0x8"
definition I_RESYNC :: byte where "I_RESYNC = 0x10"

record dinode =
  di_itype :: nat
  di_nlink :: nat
  di_size :: nat
  di_atime :: nat
  di_ctime :: nat
  di_mtime :: nat
  di_l1_addrs :: "nat list"
  di_l2_addrs :: "nat list"
  di_l3_addrs :: "nat list"

record fcache_log =
  fcl_addr :: nat
  fcl_hdr_addr :: nat
  fcl_offset :: nat
  fcl_size :: nat
  fcl_version :: nat

record fcache_block =
  fcb_key :: nat
  fcb_inum :: nat
  fcb_invalidate :: nat
  fcb_is_data_cached :: bool
  fcb_data :: "byte list"
  fcb_log_entries :: nat
  fcb_log_version :: nat
  fcb_log_head :: "fcache_log list"

text \<open>
  The first fields of \<open>struct inode\<close> are those of \<open>struct dinode\<close>, and \<open>_dinode\<close> points
  at the inode itself, so the in-memory image is a field of the record.
\<close>

record inode =
  i_dinode :: dinode
  i_dinode_flags :: byte
  i_inum :: nat
  i_ref :: int
  i_flags :: byte
  i_fcache_hash :: "(nat \<rightharpoonup> fcache_block) option"
  i_n_fcache_entries :: nat

definition zero_dinode :: dinode where
  "zero_dinode = \<lparr>di_itype = 0, di_nlink = 0, di_size = 0, di_atime = 0, di_ctime = 0,
     di_mtime = 0, di_l1_addrs = replicate (NDIRECT + 1) 0,
     di_l2_addrs = replicate (NDIRECT + 1) 0, di_l3_addrs = replicate (NDIRECT + 1) 0\<rparr>"

definition setup_ondisk_inode :: "nat \<Rightarrow> dinode" where
  "setup_ondisk_inode ty = zero_dinode\<lparr>di_itype := ty\<rparr>"

definition flag_set :: "byte \<Rightarrow> byte \<Rightarrow> bool" where
  "flag_set fl f \<longleftrightarrow> and fl f \<noteq> 0"

definition flag_clear :: "byte \<Rightarrow> byte \<Rightarrow> byte" where
  "flag_clear fl f = and fl (not f)"

section \<open>Inode cache\<close>

type_synonym icache = "nat \<rightharpoonup> inode"

definition icache_find :: "nat \<Rightarrow> icache \<Rightarrow> inode option" where
  "icache_find inum ic = ic inum"

definition icache_alloc_add :: "nat \<Rightarrow> icache \<Rightarrow> inode \<times> icache" where
  "icache_alloc_add inum ic =
     (let ip = \<lparr>i_dinode = zero_dinode, i_dinode_flags = 0, i_inum = inum, i_ref = 1,
               i_flags = 0, i_fcache_hash = None, i_n_fcache_entries = 0\<rparr>
      in (ip, ic(inum \<mapsto> ip)))"

definition icache_add :: "inode \<Rightarrow> icache \<Rightarrow> icache" where
  "icache_add ip ic = ic(i_inum ip \<mapsto> ip)"

definition icache_del :: "inode \<Rightarrow> icache \<Rightarrow> icache" where
  "icache_del ip ic = ic(i_inum ip := None)"

section \<open>Log pointers of a file cache block\<close>

definition mk_fcache_log :: "nat \<Rightarrow> nat \<Rightarrow> nat \<Rightarrow> nat \<Rightarrow> fcache_log" where
  "mk_fcache_log addr offset sz version =
     \<lparr>fcl_addr = addr, fcl_hdr_addr = 0, fcl_offset = offset, fcl_size = sz, fcl_version = version\<rparr>"

definition fcache_log_add :: "nat \<Rightarrow> nat \<Rightarrow> nat \<Rightarrow> nat \<Rightarrow> fcache_block \<Rightarrow> fcache_block" where
  "fcache_log_add addr offset sz version b =
     b\<lparr>fcb_log_entries := add32 (fcb_log_entries b) 1,
       fcb_log_head := mk_fcache_log addr offset sz version # fcb_log_head b\<rparr>"

text \<open>The loop of \<open>fcache_log_replace\<close>: unlink the first older entry the new one covers.\<close>

fun drop_covered :: "nat \<Rightarrow> nat \<Rightarrow> fcache_log list \<Rightarrow> fcache_log list" where
  "drop_covered offset sz [] = []"
| "drop_covered offset sz (e # es) =
     (if fcl_offset e = offset \<and> fcl_size e \<le> sz then es else e # drop_covered offset sz es)"

definition fcache_log_replace :: "nat \<Rightarrow> nat \<Rightarrow> nat \<Rightarrow> nat \<Rightarrow> fcache_block \<Rightarrow> fcache_block" where
  "fcache_log_replace addr offset sz version b =
     (let es = drop_covered offset sz (fcb_log_head b);
          n = (if length es < length (fcb_log_head b) then sub32 (fcb_log_entries b) 1
               else fcb_log_entries b)
      in b\<lparr>fcb_log_entries := add32 n 1,
           fcb_log_head := mk_fcache_log addr offset sz version # es\<rparr>)"

text \<open>\<open>fcache_log_del\<close> of the entry at position \<open>i\<close> of the list.\<close>

definition fcache_log_del :: "nat \<Rightarrow> fcache_block \<Rightarrow> fcache_block" where
  "fcache_log_del i b =
     (let n = sub32 (fcb_log_entries b) 1
      in b\<lparr>fcb_log_head := take i (fcb_log_head b) @ drop (Suc i) (fcb_log_head b),
           fcb_log_entries := n,
           fcb_log_version := (if n = 0 then 0 else fcb_log_version b)\<rparr>)"

definition fcache_log_del_all :: "fcache_block \<Rightarrow> fcache_block" where
  "fcache_log_del_all b = b\<lparr>fcb_log_head := [], fcb_log_entries := 0, fcb_log_version := 0\<rparr>"

section \<open>The file cache of an inode\<close>

definition fcache_init :: "inode \<Rightarrow> inode" where
  "fcache_init ip = (case i_fcache_hash ip of None \<Rightarrow> ip\<lparr>i_fcache_hash := Some Map.empty\<rparr> | Some _ \<Rightarrow> ip)"

definition fcache_table :: "inode \<Rightarrow> nat \<rightharpoonup> fcache_block" where
  "fcache_table ip = (case i_fcache_hash ip of None \<Rightarrow> Map.empty | Some h \<Rightarrow> h)"

definition fcache_find :: "nat \<Rightarrow> inode \<Rightarrow> fcache_block option \<times> inode" where
  "fcache_find key ip = (let ip = fcache_init ip in (fcache_table ip key, ip))"

definition fcache_set :: "nat \<Rightarrow> fcache_block \<Rightarrow> inode \<Rightarrow> inode" where
  "fcache_set key b ip = ip\<lparr>i_fcache_hash := Some ((fcache_table ip)(key \<mapsto> b))\<rparr>"

definition new_fcache_block :: "nat \<Rightarrow> nat \<Rightarrow> fcache_block" where
  "new_fcache_block key inum = \<lparr>fcb_key = key, fcb_inum = inum, fcb_invalidate = 0,
     fcb_is_data_cached = False, fcb_data = [], fcb_log_entries = 0, fcb_log_version = 0,
     fcb_log_head = []\<rparr>"

definition fcache_alloc_add :: "nat \<Rightarrow> inode \<Rightarrow> fcache_block \<times> inode" where
  "fcache_alloc_add key ip =
     (let b = new_fcache_block key (i_inum ip)
      in (b, fcache_set key b (ip\<lparr>i_n_fcache_entries := add32 (i_n_fcache_entries ip) 1\<rparr>)))"

text \<open>
  \<open>fcache_del\<close> tests the slot that \<open>kh_get\<close> returns with \<open>kh_exist\<close>; for an absent key the
  slot is past the table, and the test reads out of bounds.
\<close>

definition fcache_del :: "fcache_block \<Rightarrow> inode \<Rightarrow> inode run" where
  "fcache_del b ip =
     (case i_fcache_hash ip of
        None \<Rightarrow> Failed (NullDeref ''fcache_hash'')
      | Some h \<Rightarrow> (case h (fcb_key b) of
          None \<Rightarrow> Failed (OutOfBounds ''kh_exist'')
        | Some _ \<Rightarrow> Done (ip\<lparr>i_fcache_hash := Some (h(fcb_key b := None)),
                            i_n_fcache_entries := sub32 (i_n_fcache_entries ip) 1\<rparr>)))"

definition fcache_del_all :: "inode \<Rightarrow> inode run" where
  "fcache_del_all ip =
     (case i_fcache_hash ip of
        None \<Rightarrow> Failed (NullDeref ''fcache_hash'')
      | Some _ \<Rightarrow> Done (ip\<lparr>i_fcache_hash := None\<rparr>))"

section \<open>Invalidation of log pointers\<close>

text \<open>\<open>int version_diff = avail_version - version\<close> on 32-bit operands.\<close>

definition version_diff :: "nat \<Rightarrow> nat \<Rightarrow> int" where
  "version_diff avail_version version = signed_w 32 (sub32 avail_version version)"

definition outdated :: "nat \<Rightarrow> nat \<Rightarrow> fcache_log \<Rightarrow> bool" where
  "outdated avail_version next_avail_header e \<longleftrightarrow>
     version_diff avail_version (fcl_version e) > 1 \<or>
     version_diff avail_version (fcl_version e) = 1 \<and> fcl_addr e < next_avail_header"

text \<open>The reverse walk over the list, from position \<open>n - 1\<close> down to 0.\<close>

fun inval_loop :: "nat \<Rightarrow> nat \<Rightarrow> nat \<Rightarrow> fcache_block \<Rightarrow> fcache_block" where
  "inval_loop av na 0 b = b"
| "inval_loop av na (Suc i) b =
     inval_loop av na i (if outdated av na (fcb_log_head b ! i) then fcache_log_del i b else b)"

definition check_log_invalidation :: "nat \<Rightarrow> nat \<Rightarrow> fcache_block \<Rightarrow> (int \<times> fcache_block) run" where
  "check_log_invalidation av na b =
     (let d = version_diff av (fcb_log_version b) in
      mlfs_assert (d \<ge> 0) ''version_diff >= 0''
        (mlfs_assert (fcb_log_entries b \<noteq> 0 \<or> fcb_is_data_cached b) ''log_entries || is_data_cached''
          (let b' = (if fcb_log_entries b \<noteq> 0
                     then if d > 1 then fcache_log_del_all b
                          else inval_loop av na (length (fcb_log_head b)) b
                     else b)
           in Done (if fcb_log_entries b' \<noteq> 0 \<or> fcb_is_data_cached b' then 0 else 1, b'))))"

section \<open>Lemmas\<close>

text \<open>The counter of a block agrees with its list, and versions do not run ahead.\<close>

definition wf_fcb :: "nat \<Rightarrow> fcache_block \<Rightarrow> bool" where
  "wf_fcb av b \<longleftrightarrow> fcb_log_entries b = length (fcb_log_head b) \<and>
     length (fcb_log_head b) < 2 ^ 32 \<and> fcb_log_version b \<le> av \<and>
     (\<forall>e \<in> set (fcb_log_head b). fcl_version e \<le> fcb_log_version b)"

text \<open>
  What a log pointer must satisfy to be usable: its block is of the current lap of the
  log, or of the previous lap and not yet reached by the tail.
\<close>

definition live_ptr :: "nat \<Rightarrow> nat \<Rightarrow> fcache_log \<Rightarrow> bool" where
  "live_ptr av na e \<longleftrightarrow> fcl_version e = av \<or> Suc (fcl_version e) = av \<and> na \<le> fcl_addr e"

lemma version_diff_eq:
  "v \<le> av \<Longrightarrow> av < 2 ^ 31 \<Longrightarrow> version_diff av v = int (av - v)"
  by (simp add: version_diff_def sub_w_id signed_w_small)

lemma outdated_iff:
  "fcl_version e \<le> av \<Longrightarrow> av < 2 ^ 31 \<Longrightarrow> outdated av na e \<longleftrightarrow> \<not> live_ptr av na e"
  by (auto simp: outdated_def live_ptr_def version_diff_eq)

lemma wf_new_fcache_block [simp]: "wf_fcb av (new_fcache_block key inum)"
  by (simp add: wf_fcb_def new_fcache_block_def)

lemma wf_fcache_log_add:
  "wf_fcb av b \<Longrightarrow> Suc (length (fcb_log_head b)) < 2 ^ 32 \<Longrightarrow>
   wf_fcb av (fcache_log_add addr off sz av (b\<lparr>fcb_log_version := av\<rparr>))"
  by (auto simp: wf_fcb_def fcache_log_add_def add_w_id mk_fcache_log_def intro: order_trans)

lemma drop_covered_length:
  "length (drop_covered off sz es) = length es \<or> Suc (length (drop_covered off sz es)) = length es"
  by (induction es) auto

lemma drop_covered_subset: "set (drop_covered off sz es) \<subseteq> set es"
  by (induction es) auto

lemma wf_fcache_log_replace:
  assumes wf: "wf_fcb av b" and len: "Suc (length (fcb_log_head b)) < 2 ^ 32"
  shows "wf_fcb av (fcache_log_replace addr off sz av (b\<lparr>fcb_log_version := av\<rparr>))"
proof -
  let ?es = "drop_covered off sz (fcb_log_head b)"
  let ?b = "fcache_log_replace addr off sz av (b\<lparr>fcb_log_version := av\<rparr>)"
  have "length ?es = length (fcb_log_head b) \<or> Suc (length ?es) = length (fcb_log_head b)"
    by (rule drop_covered_length)
  then have "fcb_log_entries ?b = Suc (length ?es)" "Suc (length ?es) < 2 ^ 32"
    using wf len by (auto simp: wf_fcb_def fcache_log_replace_def Let_def sub_w_id add_w_id)
  moreover have "fcb_log_head ?b = mk_fcache_log addr off sz av # ?es" "fcb_log_version ?b = av"
    by (simp_all add: fcache_log_replace_def Let_def)
  moreover have "\<forall>e \<in> set ?es. fcl_version e \<le> av"
    using wf drop_covered_subset [of off sz "fcb_log_head b"] unfolding wf_fcb_def
    by (meson order_trans subsetD)
  ultimately show ?thesis by (simp add: wf_fcb_def mk_fcache_log_def)
qed

lemma wf_fcache_log_del_all [simp]: "wf_fcb av (fcache_log_del_all b)"
  by (simp add: wf_fcb_def fcache_log_del_all_def)

text \<open>The walk is a filter of the list.\<close>

lemma fcache_log_del_fields [simp]:
  "fcb_key (fcache_log_del i b) = fcb_key b" "fcb_inum (fcache_log_del i b) = fcb_inum b"
  "fcb_is_data_cached (fcache_log_del i b) = fcb_is_data_cached b"
  "fcb_log_head (fcache_log_del i b) = take i (fcb_log_head b) @ drop (Suc i) (fcb_log_head b)"
  by (simp_all add: fcache_log_del_def Let_def)

lemma inval_loop_filter:
  assumes "n \<le> length (fcb_log_head b)"
  shows "fcb_log_head (inval_loop av na n b) =
    filter (\<lambda>e. \<not> outdated av na e) (take n (fcb_log_head b)) @ drop n (fcb_log_head b)"
  using assms
proof (induction n arbitrary: b)
  case 0
  then show ?case by simp
next
  case (Suc n)
  let ?es = "fcb_log_head b"
  have n: "n < length ?es" using Suc.prems by simp
  have split: "take (Suc n) ?es = take n ?es @ [?es ! n]" "drop n ?es = ?es ! n # drop (Suc n) ?es"
    using n by (simp_all add: take_Suc_conv_app_nth Cons_nth_drop_Suc)
  show ?case
  proof (cases "outdated av na (?es ! n)")
    case True
    have "n \<le> length (fcb_log_head (fcache_log_del n b))" using n by simp
    from Suc.IH [OF this] True n show ?thesis by (simp add: split(1))
  next
    case False
    with Suc.IH [of b] n show ?thesis by (simp add: split)
  qed
qed

lemma inval_loop_fields [simp]:
  "fcb_key (inval_loop av na n b) = fcb_key b" "fcb_inum (inval_loop av na n b) = fcb_inum b"
  "fcb_is_data_cached (inval_loop av na n b) = fcb_is_data_cached b"
  by (induction av na n b rule: inval_loop.induct) auto

lemma inval_loop_counter:
  assumes "n \<le> length (fcb_log_head b)" "fcb_log_entries b = length (fcb_log_head b)"
    "length (fcb_log_head b) < 2 ^ 32"
  shows "fcb_log_entries (inval_loop av na n b) = length (fcb_log_head (inval_loop av na n b)) \<and>
    (fcb_log_version (inval_loop av na n b) = fcb_log_version b \<or>
     fcb_log_version (inval_loop av na n b) = 0 \<and> fcb_log_head (inval_loop av na n b) = [])"
  using assms
proof (induction n arbitrary: b)
  case (Suc n)
  let ?b = "if outdated av na (fcb_log_head b ! n) then fcache_log_del n b else b"
  have ent: "fcb_log_entries ?b = length (fcb_log_head ?b)" "length (fcb_log_head ?b) < 2 ^ 32"
    "n \<le> length (fcb_log_head ?b)"
    using Suc.prems by (auto simp: fcache_log_del_def Let_def sub_w_id)
  have "fcb_log_version ?b = fcb_log_version b \<or> fcb_log_version ?b = 0 \<and> fcb_log_head ?b = []"
    using Suc.prems by (auto simp: fcache_log_del_def Let_def sub_w_id)
  with Suc.IH [OF ent(3,1,2)] inval_loop_filter [OF ent(3), of av na] show ?case
    by auto
qed simp

lemma check_log_invalidation_eq:
  assumes wf: "wf_fcb av b" and av: "av < 2 ^ 31"
    and use: "fcb_log_head b \<noteq> [] \<or> fcb_is_data_cached b"
  obtains ret b' where "check_log_invalidation av na b = Done (ret, b')"
    and "fcb_log_head b' = filter (live_ptr av na) (fcb_log_head b)"
    and "wf_fcb av b'" and "fcb_is_data_cached b' = fcb_is_data_cached b"
    and "fcb_key b' = fcb_key b"
    and "ret = (if fcb_log_head b' = [] \<and> \<not> fcb_is_data_cached b then 1 else 0)"
proof -
  let ?d = "version_diff av (fcb_log_version b)"
  have d: "?d = int (av - fcb_log_version b)" using wf av by (simp add: wf_fcb_def version_diff_eq)
  have live: "filter (\<lambda>e. \<not> outdated av na e) (fcb_log_head b) = filter (live_ptr av na) (fcb_log_head b)"
    using wf av by (intro filter_cong) (auto simp: wf_fcb_def outdated_iff)
  have n0: "fcb_log_entries b \<noteq> 0 \<longleftrightarrow> fcb_log_head b \<noteq> []" using wf by (simp add: wf_fcb_def)
  define b' where "b' = (if fcb_log_entries b \<noteq> 0
    then if ?d > 1 then fcache_log_del_all b
         else inval_loop av na (length (fcb_log_head b)) b else b)"
  have head: "fcb_log_head b' = filter (live_ptr av na) (fcb_log_head b)"
  proof (cases "?d > 1")
    case True
    then have "\<forall>e \<in> set (fcb_log_head b). \<not> live_ptr av na e"
      using wf d by (auto simp: wf_fcb_def live_ptr_def)
    with True n0 show ?thesis by (simp add: b'_def fcache_log_del_all_def filter_False)
  next
    case False
    with n0 show ?thesis
      by (auto simp: b'_def inval_loop_filter live)
  qed
  have wf': "wf_fcb av b'"
    using wf inval_loop_counter [of "length (fcb_log_head b)" b av na]
      inval_loop_filter [of "length (fcb_log_head b)" b av na]
    by (auto simp: b'_def wf_fcb_def fcache_log_del_all_def filter_empty_conv
        le_less_trans [OF length_filter_le])
  have rest: "fcb_is_data_cached b' = fcb_is_data_cached b" "fcb_key b' = fcb_key b"
    by (auto simp: b'_def fcache_log_del_all_def)
  have "check_log_invalidation av na b =
      Done (if fcb_log_entries b' \<noteq> 0 \<or> fcb_is_data_cached b' then 0 else 1, b')"
    using use d n0 by (auto simp: check_log_invalidation_def Let_def b'_def)
  moreover have "fcb_log_entries b' \<noteq> 0 \<longleftrightarrow> fcb_log_head b' \<noteq> []" using wf' by (simp add: wf_fcb_def)
  ultimately show ?thesis using that head wf' rest by (auto split: if_splits)
qed

section \<open>Properties\<close>

text \<open>Invalidation keeps exactly the log pointers that are still good: on a well-formed
  cache block \<open>check_log_invalidation\<close> succeeds, its result lists precisely the pointers
  of the current lap and those of the previous lap that the tail has not reached, the
  counter agrees with the list, and the return value tells whether anything is left.\<close>

theorem check_log_invalidation_keeps_live:
  assumes "wf_fcb av b" and "av < 2 ^ 31" and "fcb_log_head b \<noteq> [] \<or> fcb_is_data_cached b"
  shows "\<exists>ret b'. check_log_invalidation av na b = Done (ret, b') \<and>
    fcb_log_head b' = filter (live_ptr av na) (fcb_log_head b) \<and> wf_fcb av b' \<and>
    (ret = 1 \<longleftrightarrow> fcb_log_head b' = [] \<and> \<not> fcb_is_data_cached b)"
  using check_log_invalidation_eq [OF assms, of na] by (metis zero_neq_one)

definition two_lap_block :: fcache_block where
  "two_lap_block = (new_fcache_block 0 7)\<lparr>fcb_log_entries := 3, fcb_log_version := 4,
     fcb_log_head := [mk_fcache_log 20 0 8 4, mk_fcache_log 90 8 8 3, mk_fcache_log 30 16 8 3]\<rparr>"

theorem check_log_invalidation_keeps_live_witness:
  "\<exists>ret b'. check_log_invalidation 4 50 two_lap_block = Done (ret, b') \<and>
    fcb_log_head b' = [mk_fcache_log 20 0 8 4, mk_fcache_log 90 8 8 3] \<and> ret \<noteq> 1"
proof -
  have "wf_fcb 4 two_lap_block" "fcb_log_head two_lap_block \<noteq> [] \<or> fcb_is_data_cached two_lap_block"
    by (auto simp: wf_fcb_def two_lap_block_def mk_fcache_log_def)
  from check_log_invalidation_keeps_live [OF this(1) _ this(2), of 50] show ?thesis
    by (auto simp: two_lap_block_def mk_fcache_log_def live_ptr_def)
qed

end
