(* ===== verification/Peer.thy ===== *)
theory Peer
  imports Fcache
begin

text \<open>
  Replication state that a LibFS keeps about the next node of its chain.

  Models \<open>struct peer_metadata\<close> of \<open>libfs/src/distributed/replication.h\<close>, its initialisation
  in \<open>init_replication\<close>, and \<open>update_peer_sync_state\<close> and \<open>update_peer_digest_state\<close> of
  \<open>libfs/src/distributed/replication.c\<close>. A null peer (a single-node setup) is \<open>None\<close>.
\<close>

record peer_meta =
  pm_id :: nat
  pm_local_start :: nat
  pm_remote_start :: nat
  pm_remote_end :: nat
  pm_start_digest :: nat
  pm_base_addr :: nat
  pm_start_version :: nat
  pm_avail_version :: nat
  pm_n_digest :: nat
  pm_n_pending :: nat
  pm_digesting :: bool
  pm_n_unsync :: nat
  pm_n_unsync_upto_end :: nat
  pm_n_unsync_blk :: nat
  pm_cond_check :: nat
  pm_recently_issued_seqn :: nat
  pm_recently_acked_seqn :: nat

definition init_peer :: "nat \<Rightarrow> nat \<Rightarrow> peer_meta" where
  "init_peer idx begin_blk = \<lparr>pm_id = idx, pm_local_start = begin_blk, pm_remote_start = begin_blk,
     pm_remote_end = 0, pm_start_digest = begin_blk, pm_base_addr = 0, pm_start_version = 0,
     pm_avail_version = 0, pm_n_digest = 0, pm_n_pending = 0, pm_digesting = False,
     pm_n_unsync = 0, pm_n_unsync_upto_end = 0, pm_n_unsync_blk = 0, pm_cond_check = begin_blk,
     pm_recently_issued_seqn = 0, pm_recently_acked_seqn = 0\<rparr>"

definition update_peer_sync_state :: "nat \<Rightarrow> nat \<Rightarrow> peer_meta option \<Rightarrow> peer_meta option" where
  "update_peer_sync_state nr_log_blocks nr_unsync peer =
     (case peer of None \<Rightarrow> None
      | Some p \<Rightarrow> Some (p\<lparr>pm_n_unsync_blk := add64 (pm_n_unsync_blk p) nr_log_blocks,
                          pm_n_unsync := add32 (pm_n_unsync p) nr_unsync\<rparr>))"

text \<open>
  \<open>nic\<close> is the \<open>NIC_SIDE\<close> build of KernFS, which also counts down \<open>n_digest\<close>. The version
  counter is incremented by the condition of the last \<open>if\<close>.
\<close>

definition update_peer_digest_state ::
  "bool \<Rightarrow> nat \<Rightarrow> nat \<Rightarrow> nat \<Rightarrow> bool \<Rightarrow> peer_meta option \<Rightarrow> peer_meta option" where
  "update_peer_digest_state nic n_replica start_digest n_digested rotated peer =
     (case peer of None \<Rightarrow> None
      | Some p \<Rightarrow>
          let rot = (rotated \<or> pm_start_digest p > start_digest);
              p1 = p\<lparr>pm_start_digest := start_digest, pm_digesting := False,
                     pm_n_digest := (if nic \<and> n_replica > 1 then sub32 (pm_n_digest p) n_digested
                                     else pm_n_digest p)\<rparr>
          in if rot
             then let v = add32 (pm_start_version p1) 1
                  in Some (p1\<lparr>pm_start_version := v,
                              pm_remote_end := (if v = pm_avail_version p1 then 0
                                                else pm_remote_end p1)\<rparr>)
             else Some p1)"

lemma update_peer_digest_state_version:
  assumes "update_peer_digest_state nic nr sd nd rot (Some p) = Some p'"
  shows "pm_start_digest p' = sd" and "\<not> pm_digesting p'"
    and "pm_start_version p' = (if rot \<or> sd < pm_start_digest p
           then add32 (pm_start_version p) 1 else pm_start_version p)"
  using assms by (auto simp: update_peer_digest_state_def Let_def split: if_splits)

end
