(* ===== verification/Bitmap.thy ===== *)
theory Bitmap
  imports Prelude
begin

text \<open>
  Bitmaps as arrays of 64-bit words.

  Models \<open>libfs/src/ds/bitmap.c\<close> and the inline functions of \<open>libfs/src/ds/bitmap.h\<close>: searching,
  setting, clearing, counting and shifting. The bitmaps of LineFS record used inodes, read
  cache slots, peers and persisted log requests. The lemmas relate each routine, which works
  word by word with masks for the first and the last word, to the bit sequence it stands for
  (\<open>bit_at\<close>). Indices are \<open>unsigned long\<close>, and the numbers of bits are far below
  \<open>2 ^ 32\<close>.
\<close>

type_synonym bitmap = "64 word list"

definition BITS_PER_LONG :: nat where "BITS_PER_LONG = 64"

definition BITS_TO_LONGS :: "nat \<Rightarrow> nat" where
  "BITS_TO_LONGS nbits = (nbits + 63) div 64"

definition BITMAP_FIRST_WORD_MASK :: "nat \<Rightarrow> 64 word" where
  "BITMAP_FIRST_WORD_MASK start = push_bit (start mod 64) (NOT 0)"

definition BITMAP_LAST_WORD_MASK :: "nat \<Rightarrow> 64 word" where
  "BITMAP_LAST_WORD_MASK nbits = drop_bit ((64 - nbits mod 64) mod 64) (NOT 0)"

text \<open>The processor's instructions for the lowest and highest set bit and for counting bits.\<close>

definition ffs :: "64 word \<Rightarrow> nat" where
  "ffs w = length (takeWhile (\<lambda>i. \<not> bit w i) [0..<64])"

definition fls :: "64 word \<Rightarrow> nat" where
  "fls w = 63 - length (takeWhile (\<lambda>i. \<not> bit w i) (rev [0..<64]))"

definition hweight_long :: "64 word \<Rightarrow> nat" where
  "hweight_long w = length (filter (bit w) [0..<64])"

definition bit_at :: "bitmap \<Rightarrow> nat \<Rightarrow> bool" where
  "bit_at m i \<longleftrightarrow> bit (m ! (i div 64)) (i mod 64)"

section \<open>Searching\<close>

function find_next_loop :: "bitmap \<Rightarrow> nat \<Rightarrow> 64 word \<Rightarrow> nat \<Rightarrow> 64 word \<Rightarrow> nat" where
  "find_next_loop addr nbits invert start tmp =
     (if tmp \<noteq> 0 then min (start + ffs tmp) nbits
      else if start + 64 \<ge> nbits then nbits
      else find_next_loop addr nbits invert (start + 64) (addr ! ((start + 64) div 64) XOR invert))"
  by pat_completeness auto
termination
  by (relation "measure (\<lambda>(addr, nbits, invert, start, tmp). nbits - start)") auto

declare find_next_loop.simps [simp del]

definition find_next_bit_inv :: "bitmap \<Rightarrow> nat \<Rightarrow> nat \<Rightarrow> 64 word \<Rightarrow> nat" where
  "find_next_bit_inv addr nbits start invert =
     (if nbits = 0 \<or> start \<ge> nbits then nbits
      else find_next_loop addr nbits invert (start div 64 * 64)
             ((addr ! (start div 64) XOR invert) AND BITMAP_FIRST_WORD_MASK start))"

definition find_next_bit :: "bitmap \<Rightarrow> nat \<Rightarrow> nat \<Rightarrow> nat" where
  "find_next_bit addr sz offset = find_next_bit_inv addr sz offset 0"

definition find_next_zero_bit :: "bitmap \<Rightarrow> nat \<Rightarrow> nat \<Rightarrow> nat" where
  "find_next_zero_bit addr sz offset = find_next_bit_inv addr sz offset (NOT 0)"

function find_first_loop :: "bitmap \<Rightarrow> nat \<Rightarrow> 64 word \<Rightarrow> nat \<Rightarrow> nat" where
  "find_first_loop addr sz invert idx =
     (if idx * 64 < sz then
        (if addr ! idx \<noteq> invert then min (idx * 64 + ffs (addr ! idx XOR invert)) sz
         else find_first_loop addr sz invert (idx + 1))
      else sz)"
  by pat_completeness auto
termination
  by (relation "measure (\<lambda>(addr, sz, invert, idx). sz - idx)") auto

declare find_first_loop.simps [simp del]

definition find_first_bit :: "bitmap \<Rightarrow> nat \<Rightarrow> nat" where
  "find_first_bit addr sz = find_first_loop addr sz 0 0"

text \<open>\<open>ffz\<close> is \<open>ffs\<close> of the complement.\<close>

definition find_first_zero_bit :: "bitmap \<Rightarrow> nat \<Rightarrow> nat" where
  "find_first_zero_bit addr sz = find_first_loop addr sz (NOT 0) 0"

fun find_last_loop :: "bitmap \<Rightarrow> nat \<Rightarrow> 64 word \<Rightarrow> nat \<Rightarrow> nat" where
  "find_last_loop addr sz val idx =
     (let v = val AND addr ! idx
      in if v \<noteq> 0 then idx * 64 + fls v
         else case idx of 0 \<Rightarrow> sz | Suc j \<Rightarrow> find_last_loop addr sz (NOT 0) j)"

definition find_last_bit :: "bitmap \<Rightarrow> nat \<Rightarrow> nat" where
  "find_last_bit addr sz =
     (if sz \<noteq> 0 then find_last_loop addr sz (BITMAP_LAST_WORD_MASK sz) ((sz - 1) div 64) else sz)"

section \<open>Setting, clearing and counting\<close>

text \<open>The loop over words: \<open>f\<close> combines a word with the mask.\<close>

function mask_loop :: "(64 word \<Rightarrow> 64 word \<Rightarrow> 64 word) \<Rightarrow> nat \<Rightarrow> nat \<Rightarrow> nat \<Rightarrow> nat \<Rightarrow> 64 word \<Rightarrow> bitmap \<Rightarrow> bitmap" where
  "mask_loop f sz p len bits mask_word m =
     (if len \<ge> bits \<and> bits > 0 then mask_loop f sz (p + 1) (len - bits) 64 (NOT 0) (m[p := f (m ! p) mask_word])
      else if len \<noteq> 0 then m[p := f (m ! p) (mask_word AND BITMAP_LAST_WORD_MASK sz)]
      else m)"
  by pat_completeness auto
termination
  by (relation "measure (\<lambda>(f, sz, p, len, bits, mask_word, m). len)") auto

declare mask_loop.simps [simp del]

definition bitmap_set :: "bitmap \<Rightarrow> nat \<Rightarrow> nat \<Rightarrow> bitmap" where
  "bitmap_set m start len =
     mask_loop (OR) (start + len) (start div 64) len (64 - start mod 64) (BITMAP_FIRST_WORD_MASK start) m"

definition bitmap_clear :: "bitmap \<Rightarrow> nat \<Rightarrow> nat \<Rightarrow> bitmap" where
  "bitmap_clear m start len =
     mask_loop (\<lambda>w msk. w AND NOT msk) (start + len) (start div 64) len (64 - start mod 64)
       (BITMAP_FIRST_WORD_MASK start) m"

definition bitmap_weight :: "bitmap \<Rightarrow> nat \<Rightarrow> nat" where
  "bitmap_weight m bits =
     (let lim = bits div 64
      in sum_list (map (\<lambda>k. hweight_long (m ! k)) [0..<lim]) +
         (if bits mod 64 \<noteq> 0 then hweight_long (m ! lim AND BITMAP_LAST_WORD_MASK bits) else 0))"

section \<open>Shifting\<close>

text \<open>
  \<open>bitmap_shift_right\<close> with the same array as source and destination, as LineFS calls it:
  each round reads words that no earlier round has written.
\<close>

definition shift_word :: "nat \<Rightarrow> nat \<Rightarrow> nat \<Rightarrow> bitmap \<Rightarrow> nat \<Rightarrow> 64 word" where
  "shift_word off rem nbits m k =
     (let lim = BITS_TO_LONGS nbits; msk = BITMAP_LAST_WORD_MASK nbits;
          masked = (\<lambda>j. if j = lim - 1 then m ! j AND msk else m ! j);
          upper = (if rem = 0 \<or> off + k + 1 \<ge> lim then 0 else push_bit (64 - rem) (masked (off + k + 1)));
          lower = drop_bit rem (masked (off + k))
      in lower OR upper)"

function shift_right_loop :: "nat \<Rightarrow> nat \<Rightarrow> nat \<Rightarrow> nat \<Rightarrow> bitmap \<Rightarrow> bitmap" where
  "shift_right_loop off rem nbits k m =
     (if off + k < BITS_TO_LONGS nbits
      then shift_right_loop off rem nbits (k + 1) (m[k := shift_word off rem nbits m k])
      else m)"
  by pat_completeness auto
termination
  by (relation "measure (\<lambda>(off, rem, nbits, k, m). BITS_TO_LONGS nbits - (off + k))") auto

declare shift_right_loop.simps [simp del]

definition zero_words :: "nat \<Rightarrow> nat \<Rightarrow> bitmap \<Rightarrow> bitmap" where
  "zero_words from n m = take from m @ replicate n 0 @ drop (from + n) m"

definition bitmap_shift_right :: "bitmap \<Rightarrow> nat \<Rightarrow> nat \<Rightarrow> bitmap" where
  "bitmap_shift_right m sh nbits =
     (let off = sh div 64; m' = shift_right_loop off (sh mod 64) nbits 0 m
      in if off \<noteq> 0 then zero_words (BITS_TO_LONGS nbits - off) off m' else m')"

section \<open>Masks and words\<close>

lemma word_nonzero: "(w :: 64 word) \<noteq> 0 \<Longrightarrow> \<exists>i < 64. bit w i"
  by (auto simp: bit_eq_iff bit_imp_le_length)

lemma ffs_spec:
  assumes "w \<noteq> 0"
  shows "ffs w < 64" and "bit w (ffs w)" and "\<And>j. j < ffs w \<Longrightarrow> \<not> bit w j"
proof -
  let ?t = "takeWhile (\<lambda>i. \<not> bit w i) [0..<64]"
  have all: "\<not> bit w j" if "j < ffs w" for j
  proof -
    have "j < 64" using that length_takeWhile_le [of "\<lambda>i. \<not> bit w i" "[0..<64]"] by (simp add: ffs_def)
    moreover have "?t ! j \<in> set ?t" using that by (simp add: ffs_def)
    ultimately show ?thesis using that takeWhile_nth [of j "\<lambda>i. \<not> bit w i" "[0..<64]"]
      by (auto simp: ffs_def dest: set_takeWhileD)
  qed
  obtain i where "i < 64" "bit w i" using word_nonzero [OF assms] by blast
  then show lt: "ffs w < 64" using all [of i] by (cases "ffs w < 64") auto
  show "bit w (ffs w)" using nth_length_takeWhile [of "\<lambda>i. \<not> bit w i" "[0..<64]"] lt by (simp add: ffs_def)
  show "\<And>j. j < ffs w \<Longrightarrow> \<not> bit w j" by (rule all)
qed

lemma bit_first_mask: "bit (BITMAP_FIRST_WORD_MASK start) j \<longleftrightarrow> start mod 64 \<le> j \<and> j < 64"
  by (auto simp: BITMAP_FIRST_WORD_MASK_def bit_simps)

lemma bit_last_mask: "bit (BITMAP_LAST_WORD_MASK nbits) j \<longleftrightarrow> j < (if nbits mod 64 = 0 then 64 else nbits mod 64)"
  by (auto simp: BITMAP_LAST_WORD_MASK_def bit_simps)

lemma bit_lt_64: "bit (w :: 64 word) j \<Longrightarrow> j < 64"
  using bit_imp_le_length [of w j] by simp

section \<open>Correctness of the searches\<close>

definition first_from :: "(nat \<Rightarrow> bool) \<Rightarrow> nat \<Rightarrow> nat \<Rightarrow> nat \<Rightarrow> bool" where
  "first_from P lo hi r \<longleftrightarrow> r \<le> hi \<and> (r < hi \<longrightarrow> lo \<le> r \<and> P r) \<and> (\<forall>i. lo \<le> i \<and> i < r \<longrightarrow> \<not> P i)"

lemma word_index:
  assumes "start mod 64 = (0::nat)" and "j < 64"
  shows "(start + j) div 64 = start div 64" and "(start + j) mod 64 = j"
proof -
  obtain q where "start = 64 * q" using assms(1) by (metis mod_0_imp_dvd dvdE)
  then show "(start + j) div 64 = start div 64" "(start + j) mod 64 = j" using assms(2) by simp_all
qed

definition tmp_ok :: "(nat \<Rightarrow> bool) \<Rightarrow> nat \<Rightarrow> nat \<Rightarrow> 64 word \<Rightarrow> bool" where
  "tmp_ok P lo start tmp \<longleftrightarrow> (\<forall>i. lo \<le> i \<and> i < start \<longrightarrow> \<not> P i) \<and>
     (\<forall>j. bit tmp j \<longleftrightarrow> j < 64 \<and> lo \<le> start + j \<and> P (start + j))"

lemma tmp_ok_below:
  assumes "tmp_ok P lo start tmp" and "\<And>j. j < n \<Longrightarrow> \<not> bit tmp j" and "n \<le> 64" and "lo \<le> i" and "i < start + n"
  shows "\<not> P i"
proof (cases "i < start")
  case True
  then show ?thesis using assms by (simp add: tmp_ok_def)
next
  case False
  then have e: "start + (i - start) = i" and n: "i - start < n" using assms(5) by simp_all
  have "bit tmp (i - start) \<longleftrightarrow> i - start < 64 \<and> lo \<le> start + (i - start) \<and> P (start + (i - start))"
    using assms(1) unfolding tmp_ok_def by blast
  then show ?thesis unfolding e using assms(2) [OF n] n assms(3,4) by simp
qed

lemma find_next_loop_spec:
  assumes "start mod 64 = 0" and "start < nbits" and "tmp_ok P lo start tmp"
    and "\<And>i. P i \<longleftrightarrow> bit (addr ! (i div 64) XOR invert) (i mod 64)" and "lo < start + 64"
  shows "first_from P lo nbits (find_next_loop addr nbits invert start tmp)"
  using assms
proof (induction addr nbits invert start tmp rule: find_next_loop.induct)
  case (1 addr nbits invert start tmp)
  note prems = "1.prems" and IH = "1.IH"
  note below = tmp_ok_below [OF prems(3)]
  show ?case
  proof (cases "tmp = 0")
    case False
    note F = ffs_spec [OF False]
    have "\<not> P i" if "lo \<le> i" "i < start + ffs tmp" for i
      using below [of "ffs tmp"] F(1,3) that by simp
    moreover have "lo \<le> start + ffs tmp" "P (start + ffs tmp)" using F(2) prems(3) by (simp_all add: tmp_ok_def)
    ultimately show ?thesis using False
      by (subst find_next_loop.simps) (auto simp: first_from_def min_def)
  next
    case True
    then have no: "\<not> P i" if "lo \<le> i" "i < start + 64" for i using below [of 64] that by simp
    show ?thesis
    proof (cases "start + 64 \<ge> nbits")
      case t: True
      then show ?thesis using True no by (subst find_next_loop.simps) (auto simp: first_from_def)
    next
      case False
      have s64: "(start + 64) mod 64 = 0" using prems(1) by simp
      have w: "bit (addr ! ((start + 64) div 64) XOR invert) j \<longleftrightarrow> j < 64 \<and> P (start + 64 + j)" for j
        using prems(4) [of "start + 64 + j"] word_index [OF s64, of j] bit_lt_64 by (cases "j < 64") auto
      have tk: "tmp_ok P lo (start + 64) (addr ! ((start + 64) div 64) XOR invert)"
        unfolding tmp_ok_def w using no prems(5) by simp
      have "first_from P lo nbits (find_next_loop addr nbits invert (start + 64) (addr ! ((start + 64) div 64) XOR invert))"
        by (rule IH [OF _ _ s64 _ tk prems(4)]) (use True False prems(5) in simp_all)
      then show ?thesis using True False by (subst find_next_loop.simps) simp
    qed
  qed
qed

lemma find_next_bit_inv_spec:
  assumes "lo \<le> nbits"
  shows "first_from (\<lambda>i. bit (addr ! (i div 64) XOR invert) (i mod 64)) lo nbits
    (find_next_bit_inv addr nbits lo invert)"
proof (cases "lo < nbits")
  case True
  let ?P = "\<lambda>i. bit (addr ! (i div 64) XOR invert) (i mod 64)" and ?s = "lo div 64 * 64"
  have e: "lo = ?s + lo mod 64" and r: "lo mod 64 < 64" by simp_all
  have s: "?s mod 64 = 0" "?s < nbits" "lo < ?s + 64" using True e r by (simp, linarith, linarith)
  have m: "lo mod 64 \<le> j \<longleftrightarrow> lo \<le> ?s + j" for j using e by linarith
  have "tmp_ok ?P lo ?s ((addr ! (lo div 64) XOR invert) AND BITMAP_FIRST_WORD_MASK lo)"
    unfolding tmp_ok_def
  proof (intro conjI allI)
    show "lo \<le> i \<and> i < ?s \<longrightarrow> \<not> ?P i" for i using e by linarith
    show "bit ((addr ! (lo div 64) XOR invert) AND BITMAP_FIRST_WORD_MASK lo) j \<longleftrightarrow>
      j < 64 \<and> lo \<le> ?s + j \<and> ?P (?s + j)" for j
      using word_index [OF s(1), of j] bit_lt_64 [of "addr ! (lo div 64) XOR invert" j]
      unfolding bit_and_iff bit_first_mask m by auto
  qed
  from find_next_loop_spec [OF s(1,2) this refl s(3)] True show ?thesis by (simp add: find_next_bit_inv_def)
next
  case False
  with assms show ?thesis by (auto simp: find_next_bit_inv_def first_from_def)
qed

lemma find_next_bit_spec: "lo \<le> n \<Longrightarrow> first_from (bit_at m) lo n (find_next_bit m n lo)"
  using find_next_bit_inv_spec [of lo n m 0] by (simp add: find_next_bit_def bit_at_def [abs_def])

lemma find_next_zero_bit_spec:
  assumes "lo \<le> n"
  shows "first_from (\<lambda>i. \<not> bit_at m i) lo n (find_next_zero_bit m n lo)"
proof -
  have "bit (m ! (i div 64) XOR NOT 0) (i mod 64) \<longleftrightarrow> \<not> bit_at m i" for i
    by (simp add: bit_at_def bit_simps)
  then show ?thesis using find_next_bit_inv_spec [OF assms, of m "NOT 0"] by (simp add: find_next_zero_bit_def)
qed

section \<open>Correctness of setting, clearing and counting\<close>

lemma bit_at_update:
  "p < length m \<Longrightarrow> bit_at (m[p := w]) i \<longleftrightarrow> (if i div 64 = p then bit w (i mod 64) else bit_at m i)"
  by (auto simp: bit_at_def nth_list_update)

lemma word_range:
  assumes "r < 64" and "r + n \<le> (64::nat)"
  shows "64 * p + r \<le> i \<and> i < 64 * p + r + n \<longleftrightarrow> i div 64 = p \<and> r \<le> i mod 64 \<and> i mod 64 < r + n"
proof -
  have e: "i = 64 * (i div 64) + i mod 64" "i mod 64 < 64" by simp_all
  show ?thesis
  proof
    assume a: "64 * p + r \<le> i \<and> i < 64 * p + r + n"
    then have "i div 64 = p" using assms by (intro div_nat_eqI) auto
    with a e show "i div 64 = p \<and> r \<le> i mod 64 \<and> i mod 64 < r + n" by auto
  qed (use e in auto)
qed

lemma mask_loop_spec:
  assumes "r < 64" and "bits = 64 - r" and "\<And>j. bit mask_word j \<longleftrightarrow> r \<le> j \<and> j < 64" and "sz = 64 * p + r + len"
    and "sz \<le> 64 * length m" and f: "\<And>w msk j. bit (f w msk) j = (if bit msk j then v else bit w j)"
  shows "length (mask_loop f sz p len bits mask_word m) = length m \<and>
    (bit_at (mask_loop f sz p len bits mask_word m) i \<longleftrightarrow>
     (if 64 * p + r \<le> i \<and> i < sz then v else bit_at m i))"
  using assms
proof (induction f sz p len bits mask_word m arbitrary: r rule: mask_loop.induct)
  case (1 f sz p len bits mask_word m)
  note prems = "1.prems"
  have e: "i = 64 * (i div 64) + i mod 64" "i mod 64 < 64" by simp_all
  show ?case
  proof (cases "len \<ge> bits \<and> bits > 0")
    case True
    let ?m = "m[p := f (m ! p) mask_word]"
    have p: "p < length m" using prems(1,2,4,5) True by linarith
    have ones: "\<And>j. bit (NOT 0 :: 64 word) j \<longleftrightarrow> 0 \<le> j \<and> j < 64" by (simp add: bit_simps)
    have sz: "sz = 64 * (p + 1) + 0 + (len - bits)" "sz \<le> 64 * length ?m" using prems(1,2,4,5) True by simp_all
    have "bit_at ?m i \<longleftrightarrow> (if i div 64 = p \<and> r \<le> i mod 64 then v else bit_at m i)"
      unfolding bit_at_update [OF p] using prems(3) [of "i mod 64"] prems(6) e(2) by (auto simp: bit_at_def)
    moreover have "i div 64 = p \<and> r \<le> i mod 64 \<longleftrightarrow> 64 * p + r \<le> i \<and> i < 64 * (p + 1)"
      using word_range [of r "64 - r" p i] prems(1) e(2) by auto
    ultimately have m: "bit_at ?m i \<longleftrightarrow> (if 64 * p + r \<le> i \<and> i < 64 * (p + 1) then v else bit_at m i)" by simp
    have u: "mask_loop f sz p len bits mask_word m = mask_loop f sz (p + 1) (len - bits) 64 (NOT 0) ?m"
      using True by (subst mask_loop.simps) simp
    have r0: "0 < (64::nat)" "64 = 64 - (0::nat)" by simp_all
    note IH = "1.IH" [OF True r0 ones sz prems(6)]
    have lim: "64 * p + r < 64 * (p + 1)" "64 * (p + 1) \<le> sz" using prems(1) sz(1) by simp_all
    show ?thesis unfolding u using IH m lim by (simp split: if_splits)
  next
    case False
    show ?thesis
    proof (cases "len = 0")
      case True
      have "mask_loop f sz p len bits mask_word m = m" using True False by (subst mask_loop.simps) auto
      then show ?thesis using True prems(4) by auto
    next
      case ne: False
      let ?w = "f (m ! p) (mask_word AND BITMAP_LAST_WORD_MASK sz)"
      have rl: "r + len < 64" using False prems(1,2) by simp
      have p: "p < length m" using prems(4,5) ne by linarith
      have "sz mod 64 = r + len" unfolding prems(4) using rl by (simp add: add.assoc)
      then have mk: "bit (mask_word AND BITMAP_LAST_WORD_MASK sz) j \<longleftrightarrow> r \<le> j \<and> j < r + len" for j
        using ne rl by (auto simp: bit_and_iff bit_last_mask prems(3))
      have "bit_at (m[p := ?w]) i \<longleftrightarrow> (if i div 64 = p \<and> r \<le> i mod 64 \<and> i mod 64 < r + len then v else bit_at m i)"
        unfolding bit_at_update [OF p] prems(6) mk by (auto simp: bit_at_def)
      moreover have "mask_loop f sz p len bits mask_word m = m[p := ?w]"
        using False ne by (subst mask_loop.simps) auto
      ultimately show ?thesis using word_range [of r len p i] prems(1,4) rl by simp
    qed
  qed
qed

lemma bitmap_set_spec:
  assumes "start + len \<le> 64 * length m"
  shows "length (bitmap_set m start len) = length m"
    and "bit_at (bitmap_set m start len) i \<longleftrightarrow> bit_at m i \<or> (start \<le> i \<and> i < start + len)"
proof -
  have e: "start + len = 64 * (start div 64) + start mod 64 + len" "64 * (start div 64) + start mod 64 = start" by simp_all
  note S = mask_loop_spec [of "start mod 64" "64 - start mod 64" "BITMAP_FIRST_WORD_MASK start" "start + len"
    "start div 64" len m "(OR)" True i, OF _ refl bit_first_mask e(1) assms]
  show "length (bitmap_set m start len) = length m"
    and "bit_at (bitmap_set m start len) i \<longleftrightarrow> bit_at m i \<or> (start \<le> i \<and> i < start + len)"
    using S unfolding bitmap_set_def e(2) by (auto simp: bit_or_iff)
qed

lemma bitmap_clear_spec:
  assumes "start + len \<le> 64 * length m"
  shows "length (bitmap_clear m start len) = length m"
    and "bit_at (bitmap_clear m start len) i \<longleftrightarrow> bit_at m i \<and> \<not> (start \<le> i \<and> i < start + len)"
proof -
  have e: "start + len = 64 * (start div 64) + start mod 64 + len" "64 * (start div 64) + start mod 64 = start" by simp_all
  have f: "bit (w AND NOT msk) j = (if bit msk j then False else bit w j)" for w msk :: "64 word" and j
    using bit_lt_64 [of w j] by (auto simp: bit_simps)
  note S = mask_loop_spec [of "start mod 64" "64 - start mod 64" "BITMAP_FIRST_WORD_MASK start" "start + len"
    "start div 64" len m "\<lambda>w msk. w AND NOT msk" False i, OF _ refl bit_first_mask e(1) assms f]
  show "length (bitmap_clear m start len) = length m"
    and "bit_at (bitmap_clear m start len) i \<longleftrightarrow> bit_at m i \<and> \<not> (start \<le> i \<and> i < start + len)"
    using S unfolding bitmap_clear_def e(2) by auto
qed

lemma hweight_card: "hweight_long w = card {j. j < 64 \<and> bit w j}"
proof -
  have "hweight_long w = card (set (filter (bit w) [0..<64]))"
    unfolding hweight_long_def by (rule distinct_card [symmetric]) simp
  also have "set (filter (bit w) [0..<64]) = {j. j < 64 \<and> bit w j}" by auto
  finally show ?thesis .
qed

lemma card_word_bits:
  assumes "\<And>j. j < 64 \<Longrightarrow> bit w j \<longleftrightarrow> P (64 * k + j) \<and> 64 * k + j < n"
  shows "hweight_long w = card {i. 64 * k \<le> i \<and> i < 64 * k + 64 \<and> i < n \<and> P i}"
proof -
  have "{i. 64 * k \<le> i \<and> i < 64 * k + 64 \<and> i < n \<and> P i} = (+) (64 * k) ` {j. j < 64 \<and> bit w j}"
  proof (rule set_eqI)
    fix i
    show "i \<in> {i. 64 * k \<le> i \<and> i < 64 * k + 64 \<and> i < n \<and> P i} \<longleftrightarrow> i \<in> (+) (64 * k) ` {j. j < 64 \<and> bit w j}"
      using assms [of "i - 64 * k"] assms by (cases "64 * k \<le> i") (auto simp: image_iff intro!: exI [of _ "i - 64 * k"])
  qed
  then show ?thesis by (simp add: hweight_card card_image)
qed

lemma bit_at_index: "j < 64 \<Longrightarrow> bit_at m (64 * k + j) \<longleftrightarrow> bit (m ! k) j"
  by (simp add: bit_at_def)

lemma weight_words: "sum_list (map (\<lambda>k. hweight_long (m ! k)) [0..<lim]) = card {i. i < 64 * lim \<and> bit_at m i}"
proof (induction lim)
  case (Suc lim)
  have "hweight_long (m ! lim) = card {i. 64 * lim \<le> i \<and> i < 64 * lim + 64 \<and> i < 64 * lim + 64 \<and> bit_at m i}"
    by (rule card_word_bits) (simp add: bit_at_index)
  moreover have "{i. i < 64 * Suc lim \<and> bit_at m i} = {i. i < 64 * lim \<and> bit_at m i} \<union>
    {i. 64 * lim \<le> i \<and> i < 64 * lim + 64 \<and> i < 64 * lim + 64 \<and> bit_at m i}" by auto
  ultimately show ?case using Suc by (simp add: card_Un_disjoint disjoint_iff)
qed simp

lemma bitmap_weight_split:
  assumes "r < 64"
  shows "bitmap_weight m (64 * l + r) = card {i. i < 64 * l + r \<and> bit_at m i}"
proof (cases "r = 0")
  case True
  then show ?thesis by (simp add: bitmap_weight_def weight_words)
next
  case False
  let ?n = "64 * l + r"
  have d: "?n div 64 = l" "?n mod 64 = r" using assms by simp_all
  have "hweight_long (m ! l AND BITMAP_LAST_WORD_MASK ?n)
      = card {i. 64 * l \<le> i \<and> i < 64 * l + 64 \<and> i < ?n \<and> bit_at m i}"
    using False assms by (intro card_word_bits) (auto simp: bit_and_iff bit_last_mask bit_at_index d)
  moreover have "{i. i < ?n \<and> bit_at m i} = {i. i < 64 * l \<and> bit_at m i} \<union>
    {i. 64 * l \<le> i \<and> i < 64 * l + 64 \<and> i < ?n \<and> bit_at m i}" using assms by auto
  ultimately show ?thesis using False
    unfolding bitmap_weight_def Let_def d weight_words by (simp add: card_Un_disjoint disjoint_iff)
qed

lemma bitmap_weight_card: "bitmap_weight m bits = card {i. i < bits \<and> bit_at m i}"
  using bitmap_weight_split [of "bits mod 64" m "bits div 64"] by simp

lemma bitmap_weight_full: "bitmap_weight m n = n \<longleftrightarrow> (\<forall>i < n. bit_at m i)"
proof
  let ?A = "{i. i < n \<and> bit_at m i}"
  assume "bitmap_weight m n = n"
  then have "card ?A = card {..<n}" by (simp add: bitmap_weight_card)
  moreover have "?A \<subseteq> {..<n}" by blast
  ultimately have "?A = {..<n}" by (intro card_subset_eq) simp_all
  then show "\<forall>i < n. bit_at m i" by blast
next
  assume "\<forall>i < n. bit_at m i"
  then have "{i. i < n \<and> bit_at m i} = {..<n}" by blast
  then show "bitmap_weight m n = n" by (simp only: bitmap_weight_card card_lessThan)
qed

section \<open>Correctness of the shift\<close>

lemma longs_cover: "nbits \<le> 64 * BITS_TO_LONGS nbits" "64 * BITS_TO_LONGS nbits < nbits + 64"
  unfolding BITS_TO_LONGS_def by linarith+

lemma last_word_index:
  assumes "j < BITS_TO_LONGS nbits"
  shows "j = BITS_TO_LONGS nbits - 1 \<Longrightarrow> b < 64 \<Longrightarrow>
      b < (if nbits mod 64 = 0 then 64 else nbits mod 64) \<longleftrightarrow> 64 * j + b < nbits"
    and "j \<noteq> BITS_TO_LONGS nbits - 1 \<Longrightarrow> b < 64 \<Longrightarrow> 64 * j + b < nbits"
proof -
  let ?L = "BITS_TO_LONGS nbits"
  have e: "nbits = 64 * (nbits div 64) + nbits mod 64" "nbits mod 64 < 64" by simp_all
  assume b: "b < 64"
  {
    assume j: "j = ?L - 1"
    have "64 * j + (if nbits mod 64 = 0 then 64 else nbits mod 64) = nbits"
    proof (cases "nbits mod 64 = 0")
      case True
      then have "?L = nbits div 64" using e longs_cover [of nbits] by linarith
      then have "j + 1 = nbits div 64" using j assms by linarith
      then have "64 * j + 64 = nbits" using True e(1) by linarith
      then show ?thesis using True by simp
    next
      case False
      then have "?L = nbits div 64 + 1" using e longs_cover [of nbits] by linarith
      then have "j = nbits div 64" using j by simp
      then have "64 * j + nbits mod 64 = nbits" using e(1) by linarith
      then show ?thesis using False by simp
    qed
    then show "b < (if nbits mod 64 = 0 then 64 else nbits mod 64) \<longleftrightarrow> 64 * j + b < nbits" by linarith
  next
    assume "j \<noteq> ?L - 1"
    then have "j + 2 \<le> ?L" using assms by linarith
    then show "64 * j + b < nbits" using longs_cover(2) [of nbits] b by linarith
  }
qed

lemma bit_shift_word:
  assumes k: "off + k < BITS_TO_LONGS nbits" and rem: "rem < 64" and b: "b < 64"
  shows "bit (shift_word off rem nbits m k) b \<longleftrightarrow>
    64 * (off + k) + rem + b < nbits \<and> bit_at m (64 * (off + k) + rem + b)"
proof -
  let ?lim = "BITS_TO_LONGS nbits"
  define masked where "masked = (\<lambda>j. if j = ?lim - 1 then m ! j AND BITMAP_LAST_WORD_MASK nbits else m ! j)"
  have msk: "bit (masked j) c \<longleftrightarrow> 64 * j + c < nbits \<and> bit_at m (64 * j + c)" if "j < ?lim" "c < 64" for j c
    using last_word_index [OF that(1), of c] that(2)
    by (auto simp: masked_def bit_and_iff bit_last_mask bit_at_index)
  have sw: "shift_word off rem nbits m k = drop_bit rem (masked (off + k)) OR
      (if rem = 0 \<or> off + k + 1 \<ge> ?lim then 0 else push_bit (64 - rem) (masked (off + k + 1)))"
    by (simp add: shift_word_def masked_def Let_def)
  show ?thesis
  proof (cases "rem + b < 64")
    case True
    then have "bit (shift_word off rem nbits m k) b \<longleftrightarrow> bit (masked (off + k)) (rem + b)"
      using rem b unfolding sw by (auto simp: bit_simps)
    then show ?thesis using msk [OF k True] by (simp add: add.assoc)
  next
    case False
    have idx: "64 * (off + k) + rem + b = 64 * (off + k + 1) + (rem + b - 64)" using False by simp
    have low: "\<not> bit (masked (off + k)) (rem + b)" using False bit_lt_64 by blast
    show ?thesis
    proof (cases "off + k + 1 \<ge> ?lim")
      case True
      then show ?thesis using low idx longs_cover(1) [of nbits] unfolding sw by (auto simp: bit_simps)
    next
      case f: False
      have "bit (shift_word off rem nbits m k) b \<longleftrightarrow> bit (masked (off + k + 1)) (rem + b - 64)"
        using False f low rem b unfolding sw by (auto simp: bit_simps add.commute)
      then show ?thesis using msk [of "off + k + 1" "rem + b - 64"] f rem b unfolding idx by simp
    qed
  qed
qed

lemma shift_word_cong: "(\<And>j. k \<le> j \<Longrightarrow> m' ! j = m ! j) \<Longrightarrow> shift_word off rem nbits m' k = shift_word off rem nbits m k"
  by (simp add: shift_word_def Let_def)

lemma shift_right_loop_spec:
  assumes "\<And>j. k \<le> j \<Longrightarrow> m' ! j = m ! j" and "BITS_TO_LONGS nbits \<le> length m'"
  shows "length (shift_right_loop off rem nbits k m') = length m' \<and>
    shift_right_loop off rem nbits k m' ! j =
      (if k \<le> j \<and> off + j < BITS_TO_LONGS nbits then shift_word off rem nbits m j else m' ! j)"
  using assms
proof (induction off rem nbits k m' rule: shift_right_loop.induct)
  case (1 off rem nbits k m')
  show ?case
  proof (cases "off + k < BITS_TO_LONGS nbits")
    case True
    let ?m = "m'[k := shift_word off rem nbits m' k]"
    have kl: "k < length m'" using True "1.prems"(2) by simp
    have IH: "length (shift_right_loop off rem nbits (k + 1) ?m) = length ?m \<and>
      shift_right_loop off rem nbits (k + 1) ?m ! j =
        (if k + 1 \<le> j \<and> off + j < BITS_TO_LONGS nbits then shift_word off rem nbits m j else ?m ! j)"
      using True "1.prems" by (intro "1.IH") auto
    have "?m ! k = shift_word off rem nbits m k" using kl shift_word_cong [of k m' m] "1.prems"(1) by simp
    then show ?thesis using IH True kl
      by (subst (1 2) shift_right_loop.simps) (auto simp: Suc_le_eq order.strict_iff_order nth_list_update)
  next
    case False
    then show ?thesis by (subst (1 2) shift_right_loop.simps) auto
  qed
qed

lemma nth_zero_words:
  "from + n \<le> length m \<Longrightarrow> k < length m \<Longrightarrow> zero_words from n m ! k = (if from \<le> k \<and> k < from + n then 0 else m ! k)"
  by (auto simp: zero_words_def nth_append)

lemma bitmap_shift_right_word:
  assumes "sh div 64 \<le> BITS_TO_LONGS nbits" and "BITS_TO_LONGS nbits \<le> length m" and "k < length m"
  shows "bitmap_shift_right m sh nbits ! k =
    (if sh div 64 + k < BITS_TO_LONGS nbits then shift_word (sh div 64) (sh mod 64) nbits m k
     else if k < BITS_TO_LONGS nbits then 0 else m ! k)"
proof -
  let ?off = "sh div 64" and ?lim = "BITS_TO_LONGS nbits"
  note L = shift_right_loop_spec [of 0 m m nbits ?off "sh mod 64" k, OF refl assms(2)]
  show ?thesis
  proof (cases "?off = 0")
    case True
    then show ?thesis using L by (simp add: bitmap_shift_right_def)
  next
    case False
    then have "bitmap_shift_right m sh nbits = zero_words (?lim - ?off) ?off (shift_right_loop ?off (sh mod 64) nbits 0 m)"
      by (simp add: bitmap_shift_right_def Let_def)
    then show ?thesis using L assms by (auto simp: nth_zero_words)
  qed
qed

lemma shift_right_bits:
  assumes "sh \<le> nbits" and "BITS_TO_LONGS nbits \<le> length m" and "i < 64 * length m"
  shows "bit_at (bitmap_shift_right m sh nbits) i \<longleftrightarrow>
    (if i < 64 * BITS_TO_LONGS nbits then i + sh < nbits \<and> bit_at m (i + sh) else bit_at m i)"
proof -
  let ?lim = "BITS_TO_LONGS nbits"
  define off rem k b where d: "off = sh div 64" "rem = sh mod 64" "k = i div 64" "b = i mod 64"
  have e: "i = 64 * k + b" "b < 64" "sh = 64 * off + rem" "rem < 64" by (simp_all add: d)
  have "off \<le> ?lim" using assms(1) longs_cover(1) [of nbits] e(3) by linarith
  moreover have "k < length m" using assms(3) e(1) by linarith
  ultimately have w: "bit_at (bitmap_shift_right m sh nbits) i \<longleftrightarrow>
    bit (if off + k < ?lim then shift_word off rem nbits m k else if k < ?lim then 0 else m ! k) b"
    using bitmap_shift_right_word [OF _ assms(2)] by (simp add: bit_at_def d)
  have sum: "64 * (off + k) + rem + b = i + sh" by (simp add: e(1,3))
  have lt: "i < 64 * ?lim \<longleftrightarrow> k < ?lim" using e(1,2) by linarith
  show ?thesis
  proof (cases "off + k < ?lim")
    case True
    then show ?thesis unfolding w lt using bit_shift_word [OF True e(4,2), of m, unfolded sum] by simp
  next
    case False
    then have "64 * ?lim \<le> i + sh" using e(1,3) by linarith
    then have "\<not> i + sh < nbits" using longs_cover(1) [of nbits] by linarith
    then show ?thesis unfolding w lt using False by (simp add: bit_at_def d)
  qed
qed

lemma length_bitmap_shift_right:
  assumes "sh \<le> nbits" and "BITS_TO_LONGS nbits \<le> length m"
  shows "length (bitmap_shift_right m sh nbits) = length m"
proof -
  have "sh div 64 \<le> BITS_TO_LONGS nbits" using assms(1) longs_cover(1) [of nbits] by linarith
  moreover have "length (shift_right_loop off rem nbits 0 m) = length m" for off rem
    using shift_right_loop_spec [of 0 m m nbits off rem 0, OF refl assms(2)] by blast
  ultimately show ?thesis using assms(2) by (simp add: bitmap_shift_right_def Let_def zero_words_def)
qed

text \<open>C31. Shifting a bitmap in place. Within the words that hold the \<open>nbits\<close> bits, bit \<open>i\<close> of the result
  is bit \<open>i + shift\<close> of the argument if that one is below \<open>nbits\<close>, and zero otherwise; the
  words after them keep their old, unshifted contents.\<close>

theorem bitmap_shift_right_bits:
  assumes "sh \<le> nbits" and "BITS_TO_LONGS nbits \<le> length m" and "i < 64 * length m"
  shows "bit_at (bitmap_shift_right m sh nbits) i \<longleftrightarrow>
    (if i < 64 * BITS_TO_LONGS nbits then i + sh < nbits \<and> bit_at m (i + sh) else bit_at m i)"
  by (rule shift_right_bits [OF assms])

theorem bitmap_shift_right_bits_witness:
  "bit_at (bitmap_shift_right [0b110, 1] 1 9) 1 \<and> bit_at (bitmap_shift_right [0b110, 1] 1 9) 64"
proof -
  have "BITS_TO_LONGS 9 = 1" by (simp add: BITS_TO_LONGS_def)
  with bitmap_shift_right_bits [of 1 9 "[0b110, 1]" 1] bitmap_shift_right_bits [of 1 9 "[0b110, 1]" 64]
  show ?thesis by (simp add: bit_at_def)
qed

end
