(* ===== verification/Oplog.thy ===== *)
theory Oplog
  imports Peer Bitmap
begin

text \<open>
  The operation log of a LibFS process: reserving log blocks, writing the blocks of a
  transaction and its header, and reclaiming blocks when the SmartNIC reports them as
  published.

  Models \<open>struct fs_log\<close> (\<open>libfs/src/log/log.h\<close>), \<open>struct log_superblock\<close>
  (\<open>libfs/src/filesystem/shared.h\<close>), and of \<open>libfs/src/log/log.c\<close>, in the \<open>NIC_OFFLOAD\<close>
  build, \<open>init_log\<close>, \<open>log_alloc\<close>, \<open>persist_log_inode\<close>, \<open>persist_log_file\<close>,
  \<open>persist_log_blocks\<close>, \<open>persist_log_header\<close>, \<open>write_log_superblock\<close>,
  \<open>reset_publish_meta\<close> and \<open>handle_digest_response\<close>; \<open>sync_all_inode_ext_trees\<close> and
  \<open>sync_inode_ext_tree\<close> of \<open>libfs/src/filesystem/fs.c\<close>.

  Device writes are a trace in program order. Messages that other nodes send while the
  process runs are a list of events; a busy-wait loop handles them in order until its
  condition holds, and is \<open>Waiting\<close> when they run out.
\<close>

section \<open>State\<close>

record fs_log =
  fl_dev :: nat
  fl_size :: nat
  fl_log_sb_blk :: nat
  fl_start_blk :: nat
  fl_next_avail_header :: nat
  fl_start_version :: nat
  fl_avail_version :: nat
  fl_outstanding :: nat

record log_superblock =
  lsb_start_digest :: nat
  lsb_n_digest :: nat
  lsb_n_digest_blks :: nat
  lsb_start_persist :: nat
  lsb_end :: nat

datatype payload =
    PHdr logheader
  | PExt "byte list"
  | PInode nat dinode
  | PData "byte list"
  | PLogSb log_superblock

record dev_write =
  dw_blk :: nat
  dw_off :: nat
  dw_size :: nat
  dw_payload :: payload

record digest_response =
  dr_fetch_seqn :: nat
  dr_digest_start_blknr :: nat
  dr_n_digested :: nat
  dr_n_digested_blks :: nat
  dr_reset_meta :: bool
  dr_sge_cnt :: nat

datatype event =
    Ev_Digest digest_response
  | Ev_FsyncAck1
  | Ev_FsyncAck2
  | Ev_RateLimit bool

record prefetch_arg =
  pf_start :: nat
  pf_n_blk :: nat
  pf_n :: nat
  pf_reset_meta :: bool
  pf_is_fsync :: bool

record mlfs_conf =
  conf_log_prefetching :: bool
  conf_log_prefetch_threshold :: nat
  conf_persist_nvm_with_clflush :: bool
  conf_persist_nvm_with_rdma_read :: bool

record libfs =
  fslog :: fs_log
  log_sb :: log_superblock
  lhm :: logheader_meta
  icache :: icache
  s_inode_bitmap :: bitmap
  ondisk_inodes :: "nat \<Rightarrow> dinode"
  dev_trace :: "dev_write list"
  rctx_begin :: nat
  next_peer :: "peer_meta option"
  fetch_seqn :: nat
  pf_queue :: "prefetch_arg list"
  sent :: "(nat \<times> prefetch_arg) list"
  rate_limit_flag :: bool
  acks_replica1 :: bool
  acks_replica2 :: bool
  inbox :: "event list"
  now :: nat
  conf :: mlfs_conf

text \<open>\<open>sizeof(struct logheader)\<close>, \<open>sizeof(struct dinode)\<close>, \<open>sizeof(struct log_superblock)\<close>.\<close>

definition LOGHEADER_SIZE :: nat where "LOGHEADER_SIZE = 136"
definition DINODE_SIZE :: nat where "DINODE_SIZE = 256"
definition LOG_SB_SIZE :: nat where "LOG_SB_SIZE = 40"

definition mlfs_write :: "nat \<Rightarrow> nat \<Rightarrow> nat \<Rightarrow> payload \<Rightarrow> libfs \<Rightarrow> libfs" where
  "mlfs_write blk off sz pl s =
     s\<lparr>dev_trace := dev_trace s @ [\<lparr>dw_blk = blk, dw_off = off, dw_size = sz, dw_payload = pl\<rparr>]\<rparr>"

definition write_log_superblock :: "libfs \<Rightarrow> libfs" where
  "write_log_superblock s = mlfs_write (fl_log_sb_blk (fslog s)) 0 LOG_SB_SIZE (PLogSb (log_sb s)) s"

section \<open>Digest responses\<close>

definition sync_inode_ext_tree :: "(nat \<Rightarrow> dinode) \<Rightarrow> inode \<Rightarrow> inode" where
  "sync_inode_ext_tree ondisk ip =
     ip\<lparr>i_dinode := (i_dinode ip)\<lparr>di_l1_addrs := di_l1_addrs (ondisk (i_inum ip))\<rparr>,
        i_flags := flag_clear (flag_clear (i_flags ip) I_RESYNC) I_DIRTY\<rparr>"

definition sync_all_inode_ext_trees :: "libfs \<Rightarrow> libfs" where
  "sync_all_inode_ext_trees s =
     s\<lparr>icache := (\<lambda>inum. map_option
        (\<lambda>ip. if flag_set (i_flags ip) I_DELETING then ip
              else sync_inode_ext_tree (ondisk_inodes s) ip) (icache s inum))\<rparr>"

definition reset_publish_meta :: "libfs \<Rightarrow> libfs" where
  "reset_publish_meta s =
     (let sv = add32 (fl_start_version (fslog s)) 1
      in s\<lparr>fslog := (fslog s)\<lparr>fl_start_version := sv\<rparr>,
           log_sb := (if sv = fl_avail_version (fslog s) then (log_sb s)\<lparr>lsb_end := 0\<rparr>
                      else log_sb s)\<rparr>)"

definition handle_digest_response :: "digest_response \<Rightarrow> libfs \<Rightarrow> libfs run" where
  "handle_digest_response r s =
     (let s1 = (if dr_reset_meta r then reset_publish_meta s else s);
          nxt = add64 (dr_digest_start_blknr r) (dr_n_digested_blks r);
          s2 = s1\<lparr>fslog := (fslog s1)\<lparr>fl_start_blk := nxt\<rparr>,
                  log_sb := (log_sb s1)\<lparr>lsb_start_digest := nxt,
                    lsb_n_digest := sub32 (lsb_n_digest (log_sb s1)) (dr_n_digested r),
                    lsb_n_digest_blks :=
                      sub32 (lsb_n_digest_blks (log_sb s1)) (cast_w 32 (dr_n_digested_blks r))\<rparr>\<rparr>;
          s3 = write_log_superblock (sync_all_inode_ext_trees s2);
          last_seqn = sub64 (add64 (dr_fetch_seqn r) (dr_sge_cnt r)) 1
      in case next_peer s3 of
           None \<Rightarrow> Failed (NullDeref ''get_next_peer()'')
         | Some p \<Rightarrow> Done (if last_seqn > pm_recently_acked_seqn p
                           then s3\<lparr>next_peer := Some (p\<lparr>pm_recently_acked_seqn := last_seqn\<rparr>)\<rparr>
                           else s3))"

fun handle_event :: "event \<Rightarrow> libfs \<Rightarrow> libfs run" where
  "handle_event (Ev_Digest r) s = handle_digest_response r s"
| "handle_event Ev_FsyncAck1 s = Done (s\<lparr>acks_replica1 := True\<rparr>)"
| "handle_event Ev_FsyncAck2 s = Done (s\<lparr>acks_replica2 := True\<rparr>)"
| "handle_event (Ev_RateLimit b) s = Done (s\<lparr>rate_limit_flag := b\<rparr>)"

text \<open>A busy-wait loop that exits when \<open>P\<close> holds.\<close>

fun await :: "(libfs \<Rightarrow> bool) \<Rightarrow> event list \<Rightarrow> libfs \<Rightarrow> libfs run" where
  "await P es s =
     (if P s then Done (s\<lparr>inbox := es\<rparr>)
      else case es of [] \<Rightarrow> Waiting
           | e # es' \<Rightarrow> run_bind (handle_event e s) (await P es'))"

declare await.simps [simp del]

definition wait_until :: "(libfs \<Rightarrow> bool) \<Rightarrow> libfs \<Rightarrow> libfs run" where
  "wait_until P s = await P (inbox s) s"

section \<open>Reserving log blocks\<close>

text \<open>The loop tests the unsigned versions first and their \<open>int\<close> copies in the body.\<close>

definition log_full :: "libfs \<Rightarrow> bool" where
  "log_full s \<longleftrightarrow>
     (let l = fslog s in
      fl_avail_version l > fl_start_version l \<and> fl_next_avail_header l > fl_start_blk l \<and>
      signed_w 32 (fl_avail_version l) > signed_w 32 (fl_start_version l))"

definition log_wrap :: "libfs \<Rightarrow> libfs" where
  "log_wrap s =
     s\<lparr>next_peer := map_option (\<lambda>p. p\<lparr>pm_n_unsync_upto_end := pm_n_unsync p\<rparr>) (next_peer s),
       log_sb := (log_sb s)\<lparr>lsb_end := sub64 (fl_next_avail_header (fslog s)) 1\<rparr>,
       fslog := (fslog s)\<lparr>fl_next_avail_header := add64 (fl_log_sb_blk (fslog s)) 1,
                          fl_avail_version := add32 (fl_avail_version (fslog s)) 1\<rparr>\<rparr>"

definition log_reserve :: "nat \<Rightarrow> libfs \<Rightarrow> nat \<times> libfs" where
  "log_reserve nr_blocks s =
     (let s1 = (if add64 (fl_next_avail_header (fslog s)) nr_blocks > fl_size (fslog s)
                then log_wrap s else s);
          blk = fl_next_avail_header (fslog s1)
      in (blk, s1\<lparr>fslog := (fslog s1)\<lparr>fl_next_avail_header := add64 blk nr_blocks\<rparr>\<rparr>))"

definition log_alloc :: "nat \<Rightarrow> libfs \<Rightarrow> (nat \<times> libfs) run" where
  "log_alloc nr_blocks s =
     (let (next_log_blk, s1) = log_reserve nr_blocks s
      in run_map (\<lambda>s2. (next_log_blk, s2)) (wait_until (\<lambda>s. \<not> log_full s) s1))"

section \<open>Writing the blocks of a transaction\<close>

definition upd_hdr :: "(logheader \<Rightarrow> logheader) \<Rightarrow> libfs \<Rightarrow> libfs" where
  "upd_hdr f s = s\<lparr>lhm := (lhm s)\<lparr>lm_loghdr := map_option f (lm_loghdr (lhm s))\<rparr>\<rparr>"

text \<open>\<open>loghdr->blocks[idx] = pos; pos += n\<close>.\<close>

definition take_pos :: "nat \<Rightarrow> nat \<Rightarrow> libfs \<Rightarrow> libfs" where
  "take_pos idx n s =
     (let pos = lm_pos (lhm s);
          s1 = upd_hdr (\<lambda>h. h\<lparr>lh_blocks := (lh_blocks h)[idx := pos]\<rparr>) s
      in s1\<lparr>lhm := (lhm s1)\<lparr>lm_pos := add32 pos n\<rparr>\<rparr>)"

definition persist_log_inode :: "nat \<Rightarrow> logheader \<Rightarrow> libfs \<Rightarrow> libfs run" where
  "persist_log_inode idx h s =
     (let logblk_no = add64 (lm_hdr_blkno (lhm s)) (lm_pos (lhm s));
          s1 = take_pos idx 1 s;
          inum = lh_inode_no h ! idx
      in mlfs_assert (lm_pos (lhm s1) \<le> lh_nr_log_blocks h) ''pos <= nr_log_blocks''
        (case icache_find inum (icache s1) of
           None \<Rightarrow> Failed (Assertion ''ip'')
         | Some ip \<Rightarrow>
             let s2 = (if flag_set (i_flags ip) I_DELETING
                       then s1\<lparr>icache := (icache s1)(inum \<mapsto> ip\<lparr>i_flags := flag_clear (i_flags ip) I_VALID\<rparr>),
                               s_inode_bitmap := bitmap_clear (s_inode_bitmap s1) (i_inum ip) 1\<rparr>
                       else s1)
             in mlfs_assert (logblk_no < fl_next_avail_header (fslog s2)) ''b_blocknr < next_avail_header''
                  (Done (mlfs_write logblk_no 0 DINODE_SIZE (PInode inum (i_dinode ip)) s2))))"

text \<open>Recording the log block of a partial write in the file cache.\<close>

definition fcache_patch :: "nat \<Rightarrow> nat \<Rightarrow> nat \<Rightarrow> nat \<Rightarrow> nat \<Rightarrow> nat \<Rightarrow> inode \<Rightarrow> inode run" where
  "fcache_patch av na key logblk_no off sz ip =
     (let (fb, ip1) = fcache_find key ip in
      run_bind
        (case fb of
           Some b \<Rightarrow> run_map (\<lambda>(ret, b'). (b', ip1)) (check_log_invalidation av na b)
         | None \<Rightarrow> Done (fcache_alloc_add key ip1))
        (\<lambda>(b, ip2).
           let b1 = b\<lparr>fcb_log_version := av\<rparr>;
               b2 = (if di_itype (i_dinode ip2) = T_DIR
                     then fcache_log_replace logblk_no off sz av b1
                     else fcache_log_add logblk_no off sz av b1)
           in Done (fcache_set key b2 ip2)))"

text \<open>Recording one whole block of a large write: older patches are dropped.\<close>

definition fcache_overwrite :: "nat \<Rightarrow> nat \<Rightarrow> nat \<Rightarrow> inode \<Rightarrow> inode" where
  "fcache_overwrite av key logblk_no ip =
     (let (fb, ip1) = fcache_find key ip;
          (b, ip2) = (case fb of Some b \<Rightarrow> (b, ip1) | None \<Rightarrow> fcache_alloc_add key ip1);
          b1 = (fcache_log_del_all b)\<lparr>fcb_log_version := av\<rparr>
      in fcache_set key (fcache_log_add logblk_no 0 g_block_size_bytes av b1) ip2)"

definition fcache_overwrite_range :: "nat \<Rightarrow> nat \<Rightarrow> nat \<Rightarrow> nat \<Rightarrow> inode \<Rightarrow> inode" where
  "fcache_overwrite_range av cur_offset logblk_no nr ip =
     fold (\<lambda>k. fcache_overwrite av (add64 cur_offset (k * g_block_size_bytes) div 2 ^ g_block_size_shift)
             (add64 logblk_no k)) [0..<nr] ip"

definition persist_log_file :: "nat \<Rightarrow> nat \<Rightarrow> logheader \<Rightarrow> libfs \<Rightarrow> libfs run" where
  "persist_log_file idx n_iovec h s =
     (let inum = lh_inode_no h ! idx; dat = lh_data h ! idx in
      case icache_find inum (icache s) of
        None \<Rightarrow> Failed (Assertion ''inode'')
      | Some ip \<Rightarrow>
         let v = lm_io_vec (lhm s) ! n_iovec;
             sz = iov_size v;
             logblk_no = add64 (lm_hdr_blkno (lhm s)) (lm_pos (lhm s));
             av = fl_avail_version (fslog s);
             na = fl_next_avail_header (fslog s)
         in if sz < g_block_size_bytes
            then let key = dat div 2 ^ g_block_size_shift;
                     off = dat mod g_block_size_bytes;
                     s1 = take_pos idx 1 s
                 in run_bind (fcache_patch av na key logblk_no off sz ip)
                      (\<lambda>ip'. if off + sz \<le> g_block_size_bytes
                         then Done (mlfs_write logblk_no off sz (PData (iov_base v))
                                (s1\<lparr>icache := (icache s1)(inum \<mapsto> ip')\<rparr>))
                         else Failed (Panic ''do not support this case yet''))
            else mlfs_assert (dat mod g_block_size_bytes = 0) ''data aligned''
                  (mlfs_assert (sz mod g_block_size_bytes = 0) ''size aligned''
                    (let nr = sz div 2 ^ g_block_size_shift;
                         s1 = take_pos idx nr s
                     in mlfs_assert (nr > 0) ''nr_logblocks > 0''
                       (mlfs_assert (lm_pos (lhm s1) \<le> lh_nr_log_blocks h) ''pos <= nr_log_blocks''
                         (mlfs_assert (logblk_no \<noteq> 0) ''logblk_no''
                           (Done (mlfs_write logblk_no 0 sz (PData (iov_base v))
                             (s1\<lparr>icache := (icache s1)
                                 (inum \<mapsto> fcache_overwrite_range av dat logblk_no nr ip)\<rparr>))))))))"

fun persist_loop :: "l_type list \<Rightarrow> nat \<Rightarrow> nat \<Rightarrow> logheader \<Rightarrow> libfs \<Rightarrow> libfs run" where
  "persist_loop [] i n_iovec h s = Done s"
| "persist_loop (t # ts) i n_iovec h s =
     (case t of
        L_TYPE_UNLINK \<Rightarrow> run_bind (persist_log_inode i h s) (persist_loop ts (Suc i) n_iovec h)
      | L_TYPE_INODE_CREATE \<Rightarrow> run_bind (persist_log_inode i h s) (persist_loop ts (Suc i) n_iovec h)
      | L_TYPE_INODE_UPDATE \<Rightarrow> run_bind (persist_log_inode i h s) (persist_loop ts (Suc i) n_iovec h)
      | L_TYPE_ALLOC \<Rightarrow> Failed (Panic ''unsupported log type'')
      | L_TYPE_INVALID \<Rightarrow> Failed (Panic ''unsupported log type'')
      | _ \<Rightarrow> run_bind (persist_log_file i n_iovec h s) (persist_loop ts (Suc i) (add8 n_iovec 1) h))"

definition persist_log_blocks :: "libfs \<Rightarrow> libfs run" where
  "persist_log_blocks s =
     (case lm_loghdr (lhm s) of
        None \<Rightarrow> Failed (NullDeref ''loghdr'')
      | Some h \<Rightarrow> persist_loop (take (lh_n h) (lh_type h)) 0 0 h s)"

definition persist_log_header :: "nat \<Rightarrow> libfs \<Rightarrow> libfs run" where
  "persist_log_header hdr_blkno s =
     (case lm_loghdr (lhm s) of
        None \<Rightarrow> Failed (NullDeref ''loghdr'')
      | Some h \<Rightarrow>
          let h' = h\<lparr>lh_mtime := now s\<rparr>;
              s1 = mlfs_write hdr_blkno 0 LOGHEADER_SIZE (PHdr h') (upd_hdr (\<lambda>_. h') s);
              u = lm_ext_used (lhm s1)
          in Done (if u \<noteq> 0
                   then mlfs_write hdr_blkno LOGHEADER_SIZE u (PExt (take u (lm_loghdr_ext (lhm s1)))) s1
                   else s1))"

section \<open>Initialisation\<close>

definition init_log :: "nat \<Rightarrow> nat \<Rightarrow> nat \<Rightarrow> libfs \<Rightarrow> libfs" where
  "init_log log_start log_dev log_id s =
     (let sbb = add64 log_start (log_id * g_log_size);
          s1 = s\<lparr>fslog := \<lparr>fl_dev = log_dev, fl_size = add64 sbb g_log_size, fl_log_sb_blk = sbb,
                   fl_start_blk = add64 sbb 1, fl_next_avail_header = add64 sbb 1,
                   fl_start_version = 0, fl_avail_version = 0, fl_outstanding = 0\<rparr>,
                 log_sb := (log_sb s)\<lparr>lsb_start_digest := add64 sbb 1, lsb_start_persist := add64 sbb 1\<rparr>\<rparr>;
          s2 = write_log_superblock s1
      in s2\<lparr>log_sb := (log_sb s2)\<lparr>lsb_n_digest := 0, lsb_end := 0\<rparr>\<rparr>)"

end
