(* ===== verification/Commit.thy ===== *)
theory Commit
  imports Oplog
begin

text \<open>
  Committing a transaction and handing the log to the SmartNIC.

  Models, in the \<open>NIC_OFFLOAD\<close> build, the prefetch requests of
  \<open>libfs/src/distributed/replication.c\<close> (\<open>generate_fetch_seqn\<close>, \<open>send_log_prefetch_msg\<close>,
  \<open>await_fsync_acks\<close>, \<open>reset_prefetch_meta\<close>, \<open>calculate_prefetch_meta\<close>,
  \<open>limit_prefetch_rate\<close>, \<open>send_log_prefetch_request\<close>) and, of \<open>libfs/src/log/log.c\<close>,
  \<open>request_log_fetch\<close>, \<open>commit_log\<close>, \<open>start_log_tx\<close>, \<open>abort_log_tx\<close>, \<open>commit_log_tx\<close>,
  \<open>replicate_log_by_fsync\<close> and \<open>shutdown_log\<close>.

  Requests that are not part of an fsync go through a thread pool, a queue whose worker
  sends them later (\<open>pf_worker\<close>); an fsync sends from its own thread.
\<close>

section \<open>Prefetch requests\<close>

definition EAGAIN :: int where "EAGAIN = 11"
definition LIMIT_PREFETCH_THRESHOLD :: nat where "LIMIT_PREFETCH_THRESHOLD = 60"

definition upd_peer :: "(peer_meta \<Rightarrow> peer_meta) \<Rightarrow> libfs \<Rightarrow> libfs" where
  "upd_peer f s = s\<lparr>next_peer := map_option f (next_peer s)\<rparr>"

definition with_peer :: "libfs \<Rightarrow> (peer_meta \<Rightarrow> 'a run) \<Rightarrow> 'a run" where
  "with_peer s f = (case next_peer s of None \<Rightarrow> Failed (NullDeref ''get_next_peer()'') | Some p \<Rightarrow> f p)"

definition generate_fetch_seqn :: "libfs \<Rightarrow> nat \<times> libfs" where
  "generate_fetch_seqn s = (let n = add64 (fetch_seqn s) 1 in (n, s\<lparr>fetch_seqn := n\<rparr>))"

definition send_log_prefetch_msg :: "prefetch_arg \<Rightarrow> libfs \<Rightarrow> libfs run" where
  "send_log_prefetch_msg a s =
     (let (seqn, s1) = generate_fetch_seqn s in
      with_peer s1 (\<lambda>p.
        mlfs_assert (seqn > pm_recently_issued_seqn p) ''seqn > recently_issued_seqn''
          (let s2 = upd_peer (\<lambda>p. p\<lparr>pm_recently_issued_seqn := seqn\<rparr>) s1
           in Done (s2\<lparr>sent := sent s2 @ [(seqn, a)]\<rparr>))))"

definition limit_prefetch_rate :: "libfs \<Rightarrow> libfs run" where
  "limit_prefetch_rate s =
     with_peer s (\<lambda>p.
       let issued = pm_recently_issued_seqn p; acked = pm_recently_acked_seqn p in
       run_bind (wait_until (\<lambda>s. \<not> rate_limit_flag s) s)
         (\<lambda>s1. if sub64 issued acked \<ge> LIMIT_PREFETCH_THRESHOLD
               then wait_until (\<lambda>s. case next_peer s of None \<Rightarrow> False
                      | Some p \<Rightarrow> sub64 issued (pm_recently_acked_seqn p) < LIMIT_PREFETCH_THRESHOLD) s1
               else Done s1))"

definition send_log_prefetch_request :: "prefetch_arg \<Rightarrow> libfs \<Rightarrow> libfs run" where
  "send_log_prefetch_request a s =
     run_bind (limit_prefetch_rate s)
       (\<lambda>s1. if pf_is_fsync a then send_log_prefetch_msg a s1
             else Done (s1\<lparr>pf_queue := pf_queue s1 @ [a]\<rparr>))"

text \<open>A worker of the thread pool takes the oldest queued request.\<close>

definition pf_worker :: "libfs \<Rightarrow> libfs run" where
  "pf_worker s =
     (case pf_queue s of [] \<Rightarrow> Waiting
      | a # q \<Rightarrow> send_log_prefetch_msg a (s\<lparr>pf_queue := q\<rparr>))"

definition fsync_acked :: "libfs \<Rightarrow> bool" where
  "fsync_acked s \<longleftrightarrow>
     conf_persist_nvm_with_clflush (conf s) \<and> acks_replica1 s \<and> acks_replica2 s \<or>
     conf_persist_nvm_with_rdma_read (conf s) \<and> acks_replica1 s"

definition await_fsync_acks :: "libfs \<Rightarrow> libfs run" where
  "await_fsync_acks s = wait_until fsync_acked s"

definition rpc_alloc_ack_bit :: "libfs \<Rightarrow> libfs" where
  "rpc_alloc_ack_bit s = s\<lparr>acks_replica1 := False, acks_replica2 := False\<rparr>"

definition reset_prefetch_meta :: "libfs \<Rightarrow> libfs" where
  "reset_prefetch_meta s =
     upd_peer (\<lambda>p. p\<lparr>pm_n_unsync_upto_end := 0, pm_local_start := rctx_begin s\<rparr>) s"

text \<open>The request and the metadata update of \<open>calculate_prefetch_meta\<close>.\<close>

definition prefetch_meta ::
  "nat \<Rightarrow> nat \<Rightarrow> nat \<Rightarrow> nat \<Rightarrow> nat \<Rightarrow> bool \<Rightarrow> libfs \<Rightarrow> (prefetch_arg \<times> libfs) run" where
  "prefetch_meta fetch_start n_unsync_blks n_unsync n_unsync_upto_end end_blknr is_fsync s =
     (let reset_meta = (end_blknr \<noteq> 0 \<and> fetch_start > end_blknr);
          s1 = (if reset_meta then reset_prefetch_meta s else s);
          start = (if reset_meta then rctx_begin s else fetch_start);
          upto = (if reset_meta then 0 else n_unsync_upto_end)
      in mlfs_assert (upto = 0 \<or> end_blknr \<noteq> 0) ''end_blknr''
        (mlfs_assert (upto = 0 \<or> start < end_blknr) ''prefetch_start_blknr < end_blknr''
          (let n_blk = (if upto \<noteq> 0 then add64 (sub64 end_blknr start) 1 else n_unsync_blks);
               n = (if upto \<noteq> 0 then upto else n_unsync);
               s2 = upd_peer (\<lambda>p. p\<lparr>pm_local_start := add64 (pm_local_start p) n_blk,
                                    pm_n_unsync_blk := sub64 (pm_n_unsync_blk p) n_blk,
                                    pm_n_unsync := sub32 (pm_n_unsync p) n\<rparr>) s1
           in Done (\<lparr>pf_start = start, pf_n_blk = n_blk, pf_n = n, pf_reset_meta = reset_meta,
                     pf_is_fsync = is_fsync\<rparr>, s2))))"

definition calculate_prefetch_meta ::
  "nat \<Rightarrow> nat \<Rightarrow> nat \<Rightarrow> nat \<Rightarrow> nat \<Rightarrow> bool \<Rightarrow> libfs \<Rightarrow> (int \<times> libfs) run" where
  "calculate_prefetch_meta fetch_start n_unsync_blks n_unsync n_unsync_upto_end end_blknr is_fsync s =
     run_bind (prefetch_meta fetch_start n_unsync_blks n_unsync n_unsync_upto_end end_blknr is_fsync s)
       (\<lambda>(a, s1).
          let s2 = (if is_fsync \<and> n_unsync = pf_n a then rpc_alloc_ack_bit s1 else s1)
          in run_bind (send_log_prefetch_request a s2)
               (\<lambda>s3. if is_fsync
                     then if pf_n a < n_unsync then Done (- EAGAIN, s3)
                          else if n_unsync = pf_n a then run_map (\<lambda>s. (0, s)) (await_fsync_acks s3)
                          else Failed (NullDeref ''fsync_ack_flag'')
                     else Done (0, s3)))"

section \<open>Lemmas on waiting\<close>

text \<open>What no event changes.\<close>

definition same_meta :: "libfs \<Rightarrow> libfs \<Rightarrow> bool" where
  "same_meta s s' \<longleftrightarrow>
     rctx_begin s' = rctx_begin s \<and> conf s' = conf s \<and> lhm s' = lhm s \<and> now s' = now s \<and>
     sent s' = sent s \<and> pf_queue s' = pf_queue s \<and> fetch_seqn s' = fetch_seqn s \<and>
     fl_size (fslog s') = fl_size (fslog s) \<and> fl_log_sb_blk (fslog s') = fl_log_sb_blk (fslog s) \<and>
     fl_next_avail_header (fslog s') = fl_next_avail_header (fslog s) \<and>
     fl_avail_version (fslog s') = fl_avail_version (fslog s) \<and>
     map_option (\<lambda>p. p\<lparr>pm_recently_acked_seqn := 0\<rparr>) (next_peer s') =
     map_option (\<lambda>p. p\<lparr>pm_recently_acked_seqn := 0\<rparr>) (next_peer s)"

lemma same_meta_refl [simp]: "same_meta s s"
  by (simp add: same_meta_def)

lemma same_meta_trans: "same_meta s t \<Longrightarrow> same_meta t u \<Longrightarrow> same_meta s u"
  by (simp add: same_meta_def)

lemma same_meta_peer:
  assumes "same_meta s s'" "next_peer s = Some p"
  obtains p' where "next_peer s' = Some p'" "pm_n_unsync p' = pm_n_unsync p"
    "pm_n_unsync_blk p' = pm_n_unsync_blk p" "pm_local_start p' = pm_local_start p"
    "pm_n_unsync_upto_end p' = pm_n_unsync_upto_end p"
    "pm_recently_issued_seqn p' = pm_recently_issued_seqn p"
proof -
  from assms obtain p' where p': "next_peer s' = Some p'"
    "p'\<lparr>pm_recently_acked_seqn := 0\<rparr> = p\<lparr>pm_recently_acked_seqn := 0\<rparr>"
    by (auto simp: same_meta_def)
  have "f (p'\<lparr>pm_recently_acked_seqn := 0\<rparr>) = f (p\<lparr>pm_recently_acked_seqn := 0\<rparr>)" for f :: "peer_meta \<Rightarrow> nat"
    using p'(2) by simp
  from this [of pm_n_unsync] this [of pm_n_unsync_blk] this [of pm_local_start]
    this [of pm_n_unsync_upto_end] this [of pm_recently_issued_seqn] p'(1) that
  show ?thesis by simp
qed

lemma handle_digest_response_same_meta:
  "handle_digest_response r s = Done s' \<Longrightarrow> same_meta s s'"
  by (auto simp: handle_digest_response_def Let_def same_meta_def sync_all_inode_ext_trees_def
      write_log_superblock_def mlfs_write_def reset_publish_meta_def
      split: option.splits if_splits)

lemma handle_event_same_meta: "handle_event e s = Done s' \<Longrightarrow> same_meta s s'"
  by (cases e) (auto intro: handle_digest_response_same_meta, auto simp: same_meta_def)

lemma await_induct:
  assumes dn: "await P es s = Done s'"
    and refl: "\<And>s es. R s (s\<lparr>inbox := es\<rparr>)"
    and step: "\<And>e s t u. handle_event e s = Done t \<Longrightarrow> R t u \<Longrightarrow> R s u"
  shows "R s s'"
  using dn
proof (induction es arbitrary: s)
  case Nil
  then show ?case using refl by (subst (asm) await.simps) (auto split: if_splits)
next
  case (Cons e es)
  then show ?case using refl step
    by (subst (asm) await.simps) (auto split: if_splits simp: run_bind_Done_iff)
qed

lemma wait_until_same_meta: "wait_until P s = Done s' \<Longrightarrow> same_meta s s'"
  unfolding wait_until_def
  by (erule await_induct) (auto simp: same_meta_def dest!: handle_event_same_meta)

lemma await_exit: "await P es s = Done s' \<Longrightarrow> (\<And>s es. P (s\<lparr>inbox := es\<rparr>) = P s) \<Longrightarrow> P s'"
  by (induction es arbitrary: s; subst (asm) await.simps)
     (auto split: if_splits simp: run_bind_Done_iff)

lemma wait_until_exit: "wait_until P s = Done s' \<Longrightarrow> (\<And>s es. P (s\<lparr>inbox := es\<rparr>) = P s) \<Longrightarrow> P s'"
  unfolding wait_until_def by (rule await_exit)

lemma limit_prefetch_rate_same_meta: "limit_prefetch_rate s = Done s' \<Longrightarrow> same_meta s s'"
  by (auto simp: limit_prefetch_rate_def with_peer_def Let_def run_bind_Done_iff
      split: option.splits if_splits intro: wait_until_same_meta same_meta_trans)

text \<open>Sending a request leaves the unsynced counters alone.\<close>

definition same_unsync :: "libfs \<Rightarrow> libfs \<Rightarrow> bool" where
  "same_unsync s s' \<longleftrightarrow>
     map_option (\<lambda>p. (pm_n_unsync p, pm_n_unsync_blk p, pm_local_start p, pm_n_unsync_upto_end p)) (next_peer s') =
     map_option (\<lambda>p. (pm_n_unsync p, pm_n_unsync_blk p, pm_local_start p, pm_n_unsync_upto_end p)) (next_peer s)"

lemma same_meta_unsync: "same_meta s s' \<Longrightarrow> same_unsync s s'"
  by (cases "next_peer s") (simp add: same_meta_def same_unsync_def, erule same_meta_peer, simp_all add: same_unsync_def)

lemma send_log_prefetch_msg_unsync:
  "send_log_prefetch_msg a s = Done s' \<Longrightarrow> same_unsync s s'"
  by (auto simp: send_log_prefetch_msg_def generate_fetch_seqn_def with_peer_def upd_peer_def Let_def
      same_unsync_def mlfs_assert_Done_iff split: option.splits)

lemma send_log_prefetch_request_unsync:
  "send_log_prefetch_request a s = Done s' \<Longrightarrow> same_unsync s s'"
  by (auto simp: send_log_prefetch_request_def run_bind_Done_iff split: if_splits
      dest!: limit_prefetch_rate_same_meta same_meta_unsync send_log_prefetch_msg_unsync)
    (auto simp: same_unsync_def)

section \<open>Requesting a fetch\<close>

lemma run_bind_cong [fundef_cong]:
  "m = m' \<Longrightarrow> (\<And>x. m' = Done x \<Longrightarrow> f x = g x) \<Longrightarrow> run_bind m f = run_bind m' g"
  by (cases m') auto

text \<open>
  A retry is only asked for when fewer headers were requested than are unsynced, so the
  number of unsynced headers bounds the loop.
\<close>

lemma sub_w_less: "0 < b \<Longrightarrow> b < a \<Longrightarrow> sub_w w a b < a"
  by (cases "a < 2 ^ w") (auto simp: sub_w_id intro: less_le_trans [OF sub_w_bound])

lemma prefetch_meta_again:
  assumes "next_peer s = Some p"
    and "prefetch_meta ls nb (pm_n_unsync p) ue eb fs s = Done (a, s1)" and "pf_n a < pm_n_unsync p"
  obtains p' where "next_peer s1 = Some p'" and "pm_n_unsync p' < pm_n_unsync p"
  using assms that
  by (auto simp: prefetch_meta_def Let_def mlfs_assert_Done_iff upd_peer_def reset_prefetch_meta_def
      sub_w_less split: if_splits)

lemma calculate_prefetch_meta_again:
  assumes p: "next_peer s = Some p"
    and c: "calculate_prefetch_meta ls nb (pm_n_unsync p) ue eb fs s = Done (- EAGAIN, s')"
  obtains p' where "next_peer s' = Some p'" and "pm_n_unsync p' < pm_n_unsync p"
proof -
  from c obtain a s1 where m: "prefetch_meta ls nb (pm_n_unsync p) ue eb fs s = Done (a, s1)"
    and lt: "pf_n a < pm_n_unsync p" and snd: "send_log_prefetch_request a s1 = Done s'"
    by (auto simp: calculate_prefetch_meta_def Let_def run_bind_Done_iff run_map_Done_iff EAGAIN_def
        split: if_splits)
  from prefetch_meta_again [OF p m lt] obtain p1 where "next_peer s1 = Some p1"
    and "pm_n_unsync p1 < pm_n_unsync p" .
  with send_log_prefetch_request_unsync [OF snd] that show ?thesis
    by (auto simp: same_unsync_def)
qed

definition n_unsync_of :: "libfs \<Rightarrow> nat" where
  "n_unsync_of s = (case next_peer s of None \<Rightarrow> 0 | Some p \<Rightarrow> pm_n_unsync p)"

function request_log_fetch :: "bool \<Rightarrow> libfs \<Rightarrow> libfs run" where
  "request_log_fetch is_fsync s =
     (case next_peer s of
        None \<Rightarrow> Failed (NullDeref ''get_next_peer()'')
      | Some p \<Rightarrow>
          if is_fsync \<or> pm_n_unsync_blk p > conf_log_prefetch_threshold (conf s)
          then run_bind (calculate_prefetch_meta (pm_local_start p) (pm_n_unsync_blk p) (pm_n_unsync p)
                   (pm_n_unsync_upto_end p) (lsb_end (log_sb s)) is_fsync s)
                 (\<lambda>(ret, s1). if ret = - EAGAIN then request_log_fetch is_fsync s1 else Done s1)
          else Done s)"
  by pat_completeness auto

termination
proof (relation "measure (\<lambda>(f, s). n_unsync_of s)", goal_cases)
  case 1
  then show ?case by simp
next
  case (2 is_fsync s p r ret s1)
  then have "calculate_prefetch_meta (pm_local_start p) (pm_n_unsync_blk p) (pm_n_unsync p)
      (pm_n_unsync_upto_end p) (lsb_end (log_sb s)) is_fsync s = Done (- EAGAIN, s1)" by simp
  with 2 show ?case
    by (auto simp: n_unsync_of_def elim: calculate_prefetch_meta_again)
qed

declare request_log_fetch.simps [simp del]

section \<open>Transactions\<close>

definition start_log_tx :: "libfs \<Rightarrow> libfs run" where
  "start_log_tx s =
     (let n = add8 (fl_outstanding (fslog s)) 1;
          s1 = s\<lparr>fslog := (fslog s)\<lparr>fl_outstanding := n\<rparr>\<rparr>
      in mlfs_assert (n = 1) ''outstanding == 1'' (Done (s1\<lparr>lhm := zero_loghdr_meta\<rparr>)))"

definition abort_log_tx :: "libfs \<Rightarrow> libfs" where
  "abort_log_tx s = s\<lparr>fslog := (fslog s)\<lparr>fl_outstanding := sub8 (fl_outstanding (fslog s)) 1\<rparr>\<rparr>"

text \<open>Between the allocation and the writes: header position, size and magic.\<close>

definition place_header :: "nat \<Rightarrow> nat \<Rightarrow> libfs \<Rightarrow> libfs" where
  "place_header blk nr s =
     upd_hdr (\<lambda>h. h\<lparr>lh_nr_log_blocks := cast16 nr, lh_inuse := LH_COMMIT_MAGIC\<rparr>)
       (s\<lparr>lhm := (lhm s)\<lparr>lm_hdr_blkno := blk, lm_pos := 1\<rparr>\<rparr>)"

definition count_digest :: "nat \<Rightarrow> libfs \<Rightarrow> libfs" where
  "count_digest nr s =
     s\<lparr>log_sb := (log_sb s)\<lparr>lsb_n_digest := add32 (lsb_n_digest (log_sb s)) 1,
                           lsb_n_digest_blks := add32 (lsb_n_digest_blks (log_sb s)) nr\<rparr>\<rparr>"

text \<open>Everything up to and including the write of the header.\<close>

definition write_tx :: "libfs \<Rightarrow> libfs run" where
  "write_tx s =
     run_bind (compute_log_blocks (lhm s)) (\<lambda>n.
       let nr_log_blocks = add32 n 1 in
       run_bind (log_alloc nr_log_blocks s) (\<lambda>(blk, s1).
         run_bind (persist_log_blocks (place_header blk nr_log_blocks s1))
           (persist_log_header blk)))"

definition commit_log :: "libfs \<Rightarrow> libfs run" where
  "commit_log s =
     (if \<not> lm_is_hdr_allocated (lhm s) then Done s
      else case lm_loghdr (lhm s) of
        None \<Rightarrow> Failed (Assertion ''loghdr'')
      | Some h \<Rightarrow>
          if lh_n h = 0 then Failed (Panic ''empty log header'')
          else run_bind (write_tx s) (\<lambda>s1.
            case lm_loghdr (lhm s1) of
              None \<Rightarrow> Failed (NullDeref ''loghdr'')
            | Some h1 \<Rightarrow>
                let nr = lh_nr_log_blocks h1;
                    s2 = s1\<lparr>next_peer := update_peer_sync_state nr 1 (next_peer s1)\<rparr>
                in run_bind (if conf_log_prefetching (conf s2) \<and> next_peer s2 \<noteq> None
                             then request_log_fetch False s2 else Done s2)
                     (\<lambda>s3. Done (count_digest nr s3))))"

definition commit_log_tx :: "libfs \<Rightarrow> libfs run" where
  "commit_log_tx s =
     run_map (\<lambda>s1. s1\<lparr>fslog := (fslog s1)\<lparr>fl_outstanding := sub8 (fl_outstanding (fslog s1)) 1\<rparr>\<rparr>)
       (commit_log s)"

definition replicate_log_by_fsync :: "libfs \<Rightarrow> libfs run" where
  "replicate_log_by_fsync s = (if next_peer s = None then Done s else request_log_fetch True s)"

text \<open>
  The \<open>request_publish_remains\<close> RPC of \<open>shutdown_log\<close> asks the SmartNIC to flush a partial
  batch; it changes no LibFS state.
\<close>

definition shutdown_log :: "libfs \<Rightarrow> libfs run" where
  "shutdown_log s =
     run_bind (if lsb_n_digest (log_sb s) \<noteq> 0 then replicate_log_by_fsync s else Done s)
       (\<lambda>s1. with_peer s1 (\<lambda>p. wait_until
          (\<lambda>s. case next_peer s of None \<Rightarrow> False
               | Some q \<Rightarrow> pm_recently_issued_seqn p = pm_recently_acked_seqn q) s1))"

end
