(* ===== verification/Txn.thy ===== *)
theory Txn
  imports Commit
begin

text \<open>
  What a committed transaction leaves on the log device.

  The abstract view of a transaction is its list of operations (\<open>meta_ops\<close>). \<open>op_writes\<close>
  lays these operations out one after another behind the header block. The lemmas show
  that \<open>persist_log_blocks\<close> writes exactly this layout and records it in the header,
  that the header itself is written last, and that all of it stays inside the blocks
  reserved by \<open>log_alloc\<close>.
\<close>

section \<open>Abstract layout of a transaction\<close>

fun op_writes :: "(nat \<Rightarrow> dinode) \<Rightarrow> nat \<Rightarrow> nat \<Rightarrow> log_op list \<Rightarrow> dev_write list" where
  "op_writes din base pos [] = []"
| "op_writes din base pos (Op_Inode t inum # ops) =
     \<lparr>dw_blk = base + pos, dw_off = 0, dw_size = DINODE_SIZE, dw_payload = PInode inum (din inum)\<rparr>
     # op_writes din base (pos + 1) ops"
| "op_writes din base pos (Op_Data t inum off v # ops) =
     \<lparr>dw_blk = base + pos,
      dw_off = (if iov_size v < g_block_size_bytes then off mod g_block_size_bytes else 0),
      dw_size = iov_size v, dw_payload = PData (iov_base v)\<rparr>
     # op_writes din base (pos + op_blocks (Op_Data t inum off v)) ops"

fun op_positions :: "nat \<Rightarrow> log_op list \<Rightarrow> nat list" where
  "op_positions pos [] = []"
| "op_positions pos (x # ops) = pos # op_positions (pos + op_blocks x) ops"

text \<open>What \<open>persist_log_file\<close> insists on: a partial write stays in one block, a large one is aligned.\<close>

fun op_fits :: "log_op \<Rightarrow> bool" where
  "op_fits (Op_Inode t inum) = True"
| "op_fits (Op_Data t inum off v) =
     (if iov_size v < g_block_size_bytes
      then off mod g_block_size_bytes + iov_size v \<le> g_block_size_bytes
      else off mod g_block_size_bytes = 0 \<and> iov_size v mod g_block_size_bytes = 0)"

text \<open>The blocks a device write touches.\<close>

definition dw_blocks :: "dev_write \<Rightarrow> nat set" where
  "dw_blocks w = {dw_blk w..<dw_blk w + (dw_off w + dw_size w + g_block_size_bytes - 1) div g_block_size_bytes}"

definition dinodes :: "libfs \<Rightarrow> nat \<Rightarrow> dinode" where
  "dinodes s inum = (case icache s inum of None \<Rightarrow> zero_dinode | Some ip \<Rightarrow> i_dinode ip)"

text \<open>Everything but the trace, the header metadata and the inode cache.\<close>

definition frame :: "libfs \<Rightarrow> libfs" where
  "frame s = s\<lparr>dev_trace := [], lhm := zero_loghdr_meta, icache := Map.empty,
     s_inode_bitmap := []\<rparr>"

lemma frame_eqD:
  assumes "frame s = frame s'"
  shows "fslog s = fslog s'" "log_sb s = log_sb s'" "next_peer s = next_peer s'" "conf s = conf s'"
    "sent s = sent s'" "pf_queue s = pf_queue s'" "rctx_begin s = rctx_begin s'"
    "inbox s = inbox s'" "now s = now s'" "fetch_seqn s = fetch_seqn s'"
  using arg_cong [OF assms, of fslog] arg_cong [OF assms, of log_sb] arg_cong [OF assms, of next_peer]
    arg_cong [OF assms, of conf] arg_cong [OF assms, of sent] arg_cong [OF assms, of pf_queue]
    arg_cong [OF assms, of rctx_begin] arg_cong [OF assms, of inbox] arg_cong [OF assms, of now]
    arg_cong [OF assms, of fetch_seqn]
  by (simp_all add: frame_def)

definition body_step :: "nat \<Rightarrow> nat \<Rightarrow> dev_write \<Rightarrow> libfs \<Rightarrow> libfs \<Rightarrow> bool" where
  "body_step idx n w s s' \<longleftrightarrow> lhm s' = lhm (take_pos idx n s) \<and> dev_trace s' = dev_trace s @ [w] \<and>
     dinodes s' = dinodes s \<and> dom (icache s') = dom (icache s) \<and> frame s' = frame s"

lemma take_pos_simps [simp]:
  "dev_trace (take_pos i n s) = dev_trace s" "icache (take_pos i n s) = icache s"
  "s_inode_bitmap (take_pos i n s) = s_inode_bitmap s" "frame (take_pos i n s) = frame s"
  "fslog (take_pos i n s) = fslog s"
  "lm_pos (lhm (take_pos i n s)) = add32 (lm_pos (lhm s)) n"
  "lm_hdr_blkno (lhm (take_pos i n s)) = lm_hdr_blkno (lhm s)"
  "lm_io_vec (lhm (take_pos i n s)) = lm_io_vec (lhm s)"
  "lm_ext_used (lhm (take_pos i n s)) = lm_ext_used (lhm s)"
  "lm_loghdr_ext (lhm (take_pos i n s)) = lm_loghdr_ext (lhm s)"
  "lm_loghdr (lhm (take_pos i n s)) =
     map_option (\<lambda>h. h\<lparr>lh_blocks := (lh_blocks h)[i := lm_pos (lhm s)]\<rparr>) (lm_loghdr (lhm s))"
  by (simp_all add: take_pos_def upd_hdr_def Let_def frame_def)

lemma frame_simps [simp]:
  "frame (s\<lparr>icache := c\<rparr>) = frame s" "frame (s\<lparr>s_inode_bitmap := b\<rparr>) = frame s"
  "frame (s\<lparr>lhm := m\<rparr>) = frame s" "frame (s\<lparr>dev_trace := t\<rparr>) = frame s"
  by (simp_all add: frame_def)

lemma mlfs_write_simps [simp]:
  "dev_trace (mlfs_write b off sz pl s) =
     dev_trace s @ [\<lparr>dw_blk = b, dw_off = off, dw_size = sz, dw_payload = pl\<rparr>]"
  "lhm (mlfs_write b off sz pl s) = lhm s" "icache (mlfs_write b off sz pl s) = icache s"
  "frame (mlfs_write b off sz pl s) = frame s" "fslog (mlfs_write b off sz pl s) = fslog s"
  by (simp_all add: mlfs_write_def frame_def)

section \<open>One entry\<close>

lemma fcache_ops_dinode [simp]:
  "i_dinode (fcache_set key b ip) = i_dinode ip" "i_dinode (fcache_init ip) = i_dinode ip"
  "i_dinode (snd (fcache_find key ip)) = i_dinode ip"
  "i_dinode (snd (fcache_alloc_add key ip)) = i_dinode ip"
  by (auto simp: fcache_set_def fcache_init_def fcache_find_def fcache_alloc_add_def Let_def
      split: option.splits)

lemma fcache_patch_dinode: "fcache_patch av na key blk off sz ip = Done ip' \<Longrightarrow> i_dinode ip' = i_dinode ip"
  by (cases "fst (fcache_find key ip)")
     (auto simp: fcache_patch_def fcache_find_def fcache_alloc_add_def Let_def run_bind_Done_iff
       run_map_Done_iff)

lemma fcache_overwrite_dinode [simp]: "i_dinode (fcache_overwrite av key blk ip) = i_dinode ip"
  by (cases "fst (fcache_find key ip)")
     (auto simp: fcache_overwrite_def fcache_find_def fcache_alloc_add_def Let_def)

lemma fcache_overwrite_range_dinode [simp]:
  "i_dinode (fcache_overwrite_range av off blk nr ip) = i_dinode ip"
proof -
  have "i_dinode (fold (\<lambda>k. fcache_overwrite av (f k) (g k)) ks ip) = i_dinode ip" for f g ks
    by (induction ks arbitrary: ip) auto
  then show ?thesis by (simp add: fcache_overwrite_range_def)
qed

lemma dinodes_upd: "icache s inum = Some ip \<Longrightarrow> i_dinode ip' = i_dinode ip \<Longrightarrow> icache s' = icache s \<Longrightarrow>
  dinodes (s'\<lparr>icache := (icache s')(inum \<mapsto> ip')\<rparr>) = dinodes s"
  by (auto simp: dinodes_def fun_eq_iff)

lemma dinodes_cong: "icache s' = icache s \<Longrightarrow> dinodes s' = dinodes s"
  by (simp add: dinodes_def fun_eq_iff)

lemma persist_log_inode_step:
  assumes "persist_log_inode idx h s = Done s'"
    and "lm_hdr_blkno (lhm s) + lm_pos (lhm s) < 2 ^ 64"
  shows "body_step idx 1
    \<lparr>dw_blk = lm_hdr_blkno (lhm s) + lm_pos (lhm s), dw_off = 0, dw_size = DINODE_SIZE,
     dw_payload = PInode (lh_inode_no h ! idx) (dinodes s (lh_inode_no h ! idx))\<rparr> s s'"
  using assms
  by (auto simp: persist_log_inode_def Let_def mlfs_assert_Done_iff icache_find_def body_step_def
      add_w_id dinodes_def fun_eq_iff insert_absorb domI split: option.splits if_splits)

lemma persist_log_file_step:
  assumes p: "persist_log_file idx k h s = Done s'"
    and "lm_hdr_blkno (lhm s) + lm_pos (lhm s) < 2 ^ 64"
  defines "v \<equiv> lm_io_vec (lhm s) ! k"
  shows "body_step idx (op_blocks (Op_Data t inum (lh_data h ! idx) v))
    \<lparr>dw_blk = lm_hdr_blkno (lhm s) + lm_pos (lhm s),
     dw_off = (if iov_size v < g_block_size_bytes then (lh_data h ! idx) mod g_block_size_bytes else 0),
     dw_size = iov_size v, dw_payload = PData (iov_base v)\<rparr> s s'"
proof -
  let ?inum = "lh_inode_no h ! idx"
  have shift: "x div 2 ^ g_block_size_shift = x div g_block_size_bytes" for x
    by (simp add: g_params)
  from p obtain ip where ip: "icache s ?inum = Some ip"
    by (auto simp: persist_log_file_def icache_find_def Let_def split: option.splits)
  have upd: "i_dinode ip' = i_dinode ip \<Longrightarrow>
      dinodes (mlfs_write b off sz pl ((take_pos idx n s)\<lparr>icache := (icache s)(?inum \<mapsto> ip')\<rparr>)) = dinodes s"
    for ip' b off sz pl n
    using ip by (auto simp: dinodes_def fun_eq_iff)
  have dom: "insert ?inum (dom (icache s)) = dom (icache s)" using ip by (auto simp: dom_def)
  show ?thesis
  proof (cases "iov_size v < g_block_size_bytes")
    case True
    with p ip assms(2) upd dom show ?thesis
      by (auto simp: persist_log_file_def icache_find_def Let_def v_def [symmetric] run_bind_Done_iff
          body_step_def add_w_id split: if_splits dest: fcache_patch_dinode)
  next
    case False
    with p ip assms(2) upd dom show ?thesis
      by (auto simp: persist_log_file_def icache_find_def Let_def v_def [symmetric]
          mlfs_assert_Done_iff body_step_def add_w_id shift)
  qed
qed

lemma persist_log_file_fits:
  "persist_log_file idx k h s = Done s' \<Longrightarrow> op_fits (Op_Data t inum (lh_data h ! idx) (lm_io_vec (lhm s) ! k))"
  by (auto simp: persist_log_file_def Let_def run_bind_Done_iff mlfs_assert_Done_iff
      split: option.splits if_splits)

section \<open>All entries\<close>

fun put_at :: "nat \<Rightarrow> nat list \<Rightarrow> nat list \<Rightarrow> nat list" where
  "put_at i [] bl = bl"
| "put_at i (x # xs) bl = put_at (Suc i) xs (bl[i := x])"

lemma length_put_at [simp]: "length (put_at i xs bl) = length bl"
  by (induction i xs bl rule: put_at.induct) auto

lemma put_at_other: "j < i \<Longrightarrow> put_at i xs bl ! j = bl ! j"
  by (induction i xs bl rule: put_at.induct) auto

lemma put_at_nth: "j < length xs \<Longrightarrow> i + length xs \<le> length bl \<Longrightarrow> put_at i xs bl ! (i + j) = xs ! j"
proof (induction i xs bl arbitrary: j rule: put_at.induct)
  case (2 i x xs bl)
  show ?case
  proof (cases j)
    case 0
    with 2 show ?thesis by (simp add: put_at_other)
  next
    case (Suc j')
    with 2 show ?thesis using "2.IH" [of j'] by simp
  qed
qed simp

lemma length_op_positions [simp]: "length (op_positions pos ops) = length ops"
  by (induction pos ops rule: op_positions.induct) auto

text \<open>The outcome of writing \<open>ops\<close> from entry \<open>i\<close> on.\<close>

definition body_run :: "nat \<Rightarrow> log_op list \<Rightarrow> libfs \<Rightarrow> libfs \<Rightarrow> bool" where
  "body_run i ops s s' \<longleftrightarrow> (\<forall>x \<in> set ops. op_fits x) \<and>
     dev_trace s' = dev_trace s @ op_writes (dinodes s) (lm_hdr_blkno (lhm s)) (lm_pos (lhm s)) ops \<and>
     dinodes s' = dinodes s \<and> frame s' = frame s \<and>
     lhm s' = (lhm s)\<lparr>lm_pos := lm_pos (lhm s) + ops_blocks ops,
       lm_loghdr := map_option (\<lambda>h. h\<lparr>lh_blocks := put_at i (op_positions (lm_pos (lhm s)) ops)
                                        (lh_blocks h)\<rparr>) (lm_loghdr (lhm s))\<rparr>"

lemma take_pos_lhm:
  "lhm (take_pos i n s) = (lhm s)\<lparr>lm_pos := add32 (lm_pos (lhm s)) n,
     lm_loghdr := map_option (\<lambda>h. h\<lparr>lh_blocks := (lh_blocks h)[i := lm_pos (lhm s)]\<rparr>)
                    (lm_loghdr (lhm s))\<rparr>"
  by (simp add: take_pos_def upd_hdr_def Let_def)

lemma body_run_Nil: "body_run i [] s s"
  by (cases "lm_loghdr (lhm s)") (auto simp: body_run_def option.map_ident)

lemma body_run_Cons:
  assumes st: "body_step i (op_blocks x) w s t" and rn: "body_run (Suc i) ops t u"
    and w: "op_writes (dinodes s) (lm_hdr_blkno (lhm s)) (lm_pos (lhm s)) [x] = [w]"
    and p: "lm_pos (lhm s) + op_blocks x < 2 ^ 32" and f: "op_fits x"
  shows "body_run i (x # ops) s u"
proof -
  have wapp: "op_writes d b pos (x # ops) = op_writes d b pos [x] @ op_writes d b (pos + op_blocks x) ops"
    for d b pos by (cases x) auto
  from st have fr: "dev_trace t = dev_trace s @ [w]" "dinodes t = dinodes s" "frame t = frame s"
    by (simp_all add: body_step_def)
  from st p have lt: "lhm t = (lhm s)\<lparr>lm_pos := lm_pos (lhm s) + op_blocks x,
     lm_loghdr := map_option (\<lambda>h. h\<lparr>lh_blocks := (lh_blocks h)[i := lm_pos (lhm s)]\<rparr>)
                    (lm_loghdr (lhm s))\<rparr>"
    by (simp add: body_step_def take_pos_lhm add_w_id)
  from rn show ?thesis
    using f unfolding body_run_def lt fr wapp w by (simp add: add.assoc option.map_comp comp_def)
qed

lemma persist_loop_body:
  assumes "persist_loop (map fst es) i k h s = Done s'"
    and "es = drop i (lh_entries h)"
    and "\<forall>e \<in> set es. committable (fst e)"
    and "length (filter (\<lambda>e. data_in_loghdr (fst e)) es) + k \<le> length (lm_io_vec (lhm s))"
    and "length (lm_io_vec (lhm s)) < 2 ^ 8"
    and "ops = entry_ops es (drop k (lm_io_vec (lhm s)))"
    and "lm_pos (lhm s) + ops_blocks ops < 2 ^ 32"
    and "lm_hdr_blkno (lhm s) + lm_pos (lhm s) + ops_blocks ops < 2 ^ 64"
  shows "body_run i ops s s'"
  using assms
proof (induction es arbitrary: i k s ops)
  case Nil
  then show ?case by (simp add: body_run_Nil)
next
  case (Cons e es)
  obtain t inum dat where e: "e = (t, inum, dat)" by (cases e)
  have i: "i < lh_n h" using Cons.prems(2) by (metis drop_all length_lh_entries list.distinct(1) not_less)
  have "e = lh_entries h ! i" using Cons.prems(2)
    by (metis hd_drop_conv_nth i length_lh_entries list.sel(1))
  then have hi: "lh_inode_no h ! i = inum" "lh_data h ! i = dat"
    using e i by (simp_all add: lh_entries_def)
  have tl: "es = drop (Suc i) (lh_entries h)" using Cons.prems(2)
    by (metis drop_Suc list.sel(3) tl_drop)
  have com: "\<forall>e \<in> set es. committable (fst e)" "committable t" using Cons.prems(3) e by auto
  show ?case
  proof (cases "data_in_loghdr t")
    case True
    let ?v = "lm_io_vec (lhm s) ! k" and ?rest = "entry_ops es (drop (Suc k) (lm_io_vec (lhm s)))"
    let ?x = "Op_Data t inum dat ?v"
    have k: "k < length (lm_io_vec (lhm s))" using Cons.prems(4) e True by simp
    have k8: "add8 k 1 = Suc k" using k Cons.prems(5) by (simp add: add_w_id)
    have ops: "ops = ?x # ?rest"
      using Cons.prems(6) e True Cons_nth_drop_Suc [OF k, symmetric] by simp
    obtain u where u: "persist_log_file i k h s = Done u" "persist_loop (map fst es) (Suc i) (Suc k) h u = Done s'"
      using Cons.prems(1) e True k8
      by (cases t) (auto simp: data_in_loghdr_def run_bind_Done_iff)
    have st: "body_step i (op_blocks ?x) \<lparr>dw_blk = lm_hdr_blkno (lhm s) + lm_pos (lhm s),
        dw_off = (if iov_size ?v < g_block_size_bytes then dat mod g_block_size_bytes else 0),
        dw_size = iov_size ?v, dw_payload = PData (iov_base ?v)\<rparr> s u"
      using persist_log_file_step [OF u(1), of t inum] Cons.prems(8) unfolding hi
      by (simp del: op_blocks.simps)
    have pos: "lm_pos (lhm s) + op_blocks ?x < 2 ^ 32" using Cons.prems(7) ops by simp
    have "lhm u = lhm (take_pos i (op_blocks ?x) s)" using st by (simp add: body_step_def)
    then have lu: "lm_io_vec (lhm u) = lm_io_vec (lhm s)" "lm_pos (lhm u) = lm_pos (lhm s) + op_blocks ?x"
      "lm_hdr_blkno (lhm u) = lm_hdr_blkno (lhm s)"
      using pos by (simp_all add: add_w_id del: op_blocks.simps)
    have "length (filter (\<lambda>e. data_in_loghdr (fst e)) es) + Suc k \<le> length (lm_io_vec (lhm u))"
      "length (lm_io_vec (lhm u)) < 2 ^ 8"
      using Cons.prems(4,5) e True by (simp_all add: lu)
    moreover have "lm_pos (lhm u) + ops_blocks ?rest < 2 ^ 32"
      "lm_hdr_blkno (lhm u) + lm_pos (lhm u) + ops_blocks ?rest < 2 ^ 64"
      using Cons.prems(7,8) unfolding ops lu ops_blocks_simps by (simp_all only: add.assoc)
    ultimately have "body_run (Suc i) ?rest u s'"
      by (intro Cons.IH [OF u(2) tl com(1)]) (simp_all add: lu)
    from body_run_Cons [OF st this _ pos] persist_log_file_fits [OF u(1), of t inum] show ?thesis
      unfolding hi by (simp add: ops)
  next
    case False
    let ?x = "Op_Inode t inum" and ?rest = "entry_ops es (drop k (lm_io_vec (lhm s)))"
    have ops: "ops = ?x # ?rest" using Cons.prems(6) e False by simp
    obtain u where u: "persist_log_inode i h s = Done u" "persist_loop (map fst es) (Suc i) k h u = Done s'"
      using Cons.prems(1) e False com(2)
      by (cases t) (auto simp: data_in_loghdr_def committable_def run_bind_Done_iff)
    have st: "body_step i (op_blocks ?x) \<lparr>dw_blk = lm_hdr_blkno (lhm s) + lm_pos (lhm s),
        dw_off = 0, dw_size = DINODE_SIZE, dw_payload = PInode inum (dinodes s inum)\<rparr> s u"
      using persist_log_inode_step [OF u(1)] Cons.prems(8) by (simp add: hi)
    have pos: "lm_pos (lhm s) + op_blocks ?x < 2 ^ 32" using Cons.prems(7) ops by simp
    have "lhm u = lhm (take_pos i (op_blocks ?x) s)" using st by (simp add: body_step_def)
    then have lu: "lm_io_vec (lhm u) = lm_io_vec (lhm s)" "lm_pos (lhm u) = lm_pos (lhm s) + op_blocks ?x"
      "lm_hdr_blkno (lhm u) = lm_hdr_blkno (lhm s)"
      using pos by (simp_all add: add_w_id del: op_blocks.simps)
    have "length (filter (\<lambda>e. data_in_loghdr (fst e)) es) + k \<le> length (lm_io_vec (lhm u))"
      "length (lm_io_vec (lhm u)) < 2 ^ 8"
      using Cons.prems(4,5) e False by (simp_all add: lu)
    moreover have "lm_pos (lhm u) + ops_blocks ?rest < 2 ^ 32"
      "lm_hdr_blkno (lhm u) + lm_pos (lhm u) + ops_blocks ?rest < 2 ^ 64"
      using Cons.prems(7,8) unfolding ops lu ops_blocks_simps by (simp_all only: add.assoc)
    ultimately have "body_run (Suc i) ?rest u s'"
      by (intro Cons.IH [OF u(2) tl com(1)]) (simp_all add: lu)
    from body_run_Cons [OF st this _ pos] show ?thesis by (simp add: ops)
  qed
qed

lemma persist_log_blocks_body:
  assumes "persist_log_blocks s = Done s'" and wf: "wf_meta (lhm s)" and h: "lm_loghdr (lhm s) = Some h"
    and com: "\<forall>e \<in> set (lh_entries h). committable (fst e)"
    and b: "lm_pos (lhm s) + ops_blocks (meta_ops (lhm s)) < 2 ^ 32"
      "lm_hdr_blkno (lhm s) + lm_pos (lhm s) + ops_blocks (meta_ops (lhm s)) < 2 ^ 64"
  shows "body_run 0 (meta_ops (lhm s)) s s'"
proof -
  have wfh: "wf_loghdr h" and l10: "length (lm_io_vec (lhm s)) = 10"
    using wf h by (simp_all add: wf_meta_def)
  have ty: "take (lh_n h) (lh_type h) = map fst (lh_entries h)"
    using wfh by (intro nth_equalityI) (auto simp: lh_entries_def wf_loghdr_def)
  have nd: "length (filter (\<lambda>e. data_in_loghdr (fst e)) (lh_entries h)) + 0 \<le> length (lm_io_vec (lhm s))"
    using n_data_le [of h] wfh l10
    by (simp add: n_data_def wf_loghdr_def g_max_blocks_per_operation_def)
  have "meta_ops (lhm s) = entry_ops (lh_entries h) (drop 0 (lm_io_vec (lhm s)))"
    using meta_ops_cur [OF wf] by (simp add: cur_loghdr_def h)
  then show ?thesis
    using assms(1) l10 b by (intro persist_loop_body [OF _ _ com nd]) (simp_all add: persist_log_blocks_def h ty)
qed

section \<open>Block ranges\<close>

lemma op_fits_blocks:
  assumes "op_fits x" and "op_writes d base pos [x] = [w]"
  shows "dw_blocks w \<subseteq> {base + pos..<base + pos + op_blocks x}"
proof (cases x)
  case (Op_Inode t inum)
  with assms show ?thesis by (auto simp: dw_blocks_def DINODE_SIZE_def g_block_size_bytes_def)
next
  case (Op_Data t inum off v)
  show ?thesis
  proof (cases "iov_size v < g_block_size_bytes")
    case True
    let ?e = "off mod g_block_size_bytes + iov_size v + g_block_size_bytes - 1"
    have "?e < 2 * g_block_size_bytes" using assms True Op_Data by (auto simp: g_block_size_bytes_def)
    then have "?e div g_block_size_bytes < 2" by (simp add: less_mult_imp_div_less)
    with assms True Op_Data show ?thesis by (auto simp: dw_blocks_def)
  next
    case False
    then have "g_block_size_bytes dvd iov_size v" using assms Op_Data by auto
    then have "(iov_size v + g_block_size_bytes - 1) div g_block_size_bytes = iov_size v div g_block_size_bytes"
      by (auto simp: g_block_size_bytes_def elim!: dvdE)
    with assms False Op_Data show ?thesis by (auto simp: dw_blocks_def)
  qed
qed

lemma op_writes_Cons:
  obtains w where "op_writes d b pos [x] = [w]"
    "op_writes d b pos (x # ops) = w # op_writes d b (pos + op_blocks x) ops"
  by (cases x) auto

lemma op_writes_blocks:
  "\<forall>x \<in> set ops. op_fits x \<Longrightarrow> w \<in> set (op_writes d base pos ops) \<Longrightarrow>
   dw_blocks w \<subseteq> {base + pos..<base + pos + ops_blocks ops}"
proof (induction ops arbitrary: pos)
  case (Cons x ops)
  obtain v where v: "op_writes d base pos [x] = [v]"
    "op_writes d base pos (x # ops) = v # op_writes d base (pos + op_blocks x) ops"
    by (rule op_writes_Cons)
  show ?case
  proof (cases "w = v")
    case True
    with op_fits_blocks [OF _ v(1)] Cons.prems(1) show ?thesis by fastforce
  next
    case False
    with Cons.IH [of "pos + op_blocks x"] Cons.prems v(2) show ?thesis by fastforce
  qed
qed simp

lemma op_writes_disjoint:
  "\<forall>x \<in> set ops. op_fits x \<Longrightarrow>
   sorted_wrt (\<lambda>w w'. dw_blocks w \<inter> dw_blocks w' = {}) (op_writes d base pos ops)"
proof (induction ops arbitrary: pos)
  case (Cons x ops)
  obtain v where v: "op_writes d base pos [x] = [v]"
    "op_writes d base pos (x # ops) = v # op_writes d base (pos + op_blocks x) ops"
    by (rule op_writes_Cons)
  have "dw_blocks v \<inter> dw_blocks w = {}" if "w \<in> set (op_writes d base (pos + op_blocks x) ops)" for w
    using op_fits_blocks [OF _ v(1)] op_writes_blocks [OF _ that] Cons.prems
    by (fastforce simp: disjoint_iff)
  with Cons v(2) show ?case by simp
qed simp

section \<open>Reservations\<close>

text \<open>
  The log occupies the blocks behind its superblock up to \<open>size\<close>. The first lap of the
  undigested blocks starts at \<open>start_blk\<close>; \<open>avail_version\<close> counts the laps of the tail.
\<close>

definition log_begin :: "libfs \<Rightarrow> nat" where
  "log_begin s = fl_log_sb_blk (fslog s) + 1"

definition wf_log :: "libfs \<Rightarrow> bool" where
  "wf_log s \<longleftrightarrow>
     log_begin s \<le> fl_next_avail_header (fslog s) \<and>
     fl_next_avail_header (fslog s) \<le> fl_size (fslog s) \<and> fl_size (fslog s) < 2 ^ 63 \<and>
     fl_avail_version (fslog s) < 2 ^ 31 - 1 \<and> fl_start_version (fslog s) < 2 ^ 31"

definition log_cap :: "libfs \<Rightarrow> nat" where
  "log_cap s = fl_size (fslog s) - log_begin s"

text \<open>Blocks written before the tail was at \<open>tail\<close> and not yet digested, at most two laps.\<close>

definition undigested :: "nat \<Rightarrow> libfs \<Rightarrow> nat set" where
  "undigested tail s =
     (if fl_avail_version (fslog s) = fl_start_version (fslog s)
      then {fl_start_blk (fslog s)..<tail}
      else {fl_start_blk (fslog s)..lsb_end (log_sb s)} \<union> {log_begin s..<tail})"

lemma log_begin_cong:
  "fl_log_sb_blk (fslog s') = fl_log_sb_blk (fslog s) \<Longrightarrow> log_begin s' = log_begin s"
  by (simp add: log_begin_def)

lemma log_reserve_eq:
  assumes wf: "wf_log s" and nr: "nr \<le> log_cap s"
  defines "wrap \<equiv> fl_next_avail_header (fslog s) + nr > fl_size (fslog s)"
  shows "log_reserve nr s =
    (let b = (if wrap then log_begin s else fl_next_avail_header (fslog s));
         s1 = (if wrap then log_wrap s else s)
     in (b, s1\<lparr>fslog := (fslog s1)\<lparr>fl_next_avail_header := b + nr\<rparr>\<rparr>))"
proof -
  have s: "fl_size (fslog s) < 2 ^ 63" "log_begin s \<le> fl_size (fslog s)"
    using wf by (auto simp: wf_log_def)
  have na: "add64 (fl_next_avail_header (fslog s)) nr = fl_next_avail_header (fslog s) + nr"
    using wf nr by (intro add_w_id) (auto simp: wf_log_def log_cap_def)
  have lb: "add64 (fl_log_sb_blk (fslog s)) 1 = log_begin s"
    unfolding log_begin_def using s by (intro add_w_id) (simp add: log_begin_def)
  have "add64 (log_begin s) nr = log_begin s + nr"
    using s nr by (intro add_w_id) (auto simp: log_cap_def)
  with na lb show ?thesis by (simp add: log_reserve_def Let_def wrap_def log_wrap_def)
qed

lemma log_full_iff:
  "wf_log s \<Longrightarrow> log_full s \<longleftrightarrow> fl_avail_version (fslog s) > fl_start_version (fslog s) \<and>
     fl_next_avail_header (fslog s) > fl_start_blk (fslog s)"
  by (auto simp: log_full_def Let_def wf_log_def signed_w_small)

lemma log_alloc_Done:
  assumes wf: "wf_log s" and nr: "nr \<le> log_cap s" and a: "log_alloc nr s = Done (blk, s')"
  shows "blk = (if fl_next_avail_header (fslog s) + nr > fl_size (fslog s) then log_begin s
                else fl_next_avail_header (fslog s))"
    and "same_meta (snd (log_reserve nr s)) s'" and "\<not> log_full s'"
proof -
  from a have b: "fst (log_reserve nr s) = blk"
    and w: "wait_until (\<lambda>s. \<not> log_full s) (snd (log_reserve nr s)) = Done s'"
    by (auto simp: log_alloc_def run_map_Done_iff split: prod.splits)
  from b show "blk = (if fl_next_avail_header (fslog s) + nr > fl_size (fslog s) then log_begin s
                else fl_next_avail_header (fslog s))"
    by (simp add: log_reserve_eq [OF wf nr] Let_def)
  from w show "same_meta (snd (log_reserve nr s)) s'" by (rule wait_until_same_meta)
  from wait_until_exit [OF w] show "\<not> log_full s'" by (simp add: log_full_def)
qed

lemma log_alloc_fields:
  assumes wf: "wf_log s" and nr: "nr \<le> log_cap s" and a: "log_alloc nr s = Done (blk, s')"
  defines "wrap \<equiv> fl_next_avail_header (fslog s) + nr > fl_size (fslog s)"
  shows "fl_next_avail_header (fslog s') = blk + nr" and "fl_size (fslog s') = fl_size (fslog s)"
    and "fl_log_sb_blk (fslog s') = fl_log_sb_blk (fslog s)"
    and "fl_avail_version (fslog s') = fl_avail_version (fslog s) + (if wrap then 1 else 0)"
    and "lhm s' = lhm s" and "log_begin s \<le> blk" and "blk + nr \<le> fl_size (fslog s)"
    and "now s' = now s"
proof -
  note eq = log_reserve_eq [OF wf nr, folded wrap_def]
  note A = log_alloc_Done [OF wf nr a, folded wrap_def]
  have av: "add32 (fl_avail_version (fslog s)) 1 = fl_avail_version (fslog s) + 1"
    using wf by (intro add_w_id) (auto simp: wf_log_def)
  show "fl_next_avail_header (fslog s') = blk + nr" "fl_size (fslog s') = fl_size (fslog s)"
    "fl_log_sb_blk (fslog s') = fl_log_sb_blk (fslog s)" "lhm s' = lhm s" "now s' = now s"
    using A(1,2) by (auto simp: eq Let_def same_meta_def log_wrap_def)
  show "fl_avail_version (fslog s') = fl_avail_version (fslog s) + (if wrap then 1 else 0)"
    using A(1,2) av by (auto simp: eq Let_def same_meta_def log_wrap_def simp del: One_nat_def)
  show "log_begin s \<le> blk" "blk + nr \<le> fl_size (fslog s)"
    using A(1) wf nr by (auto simp: wrap_def wf_log_def log_cap_def)
qed

lemma log_alloc_no_overlap:
  assumes wf: "wf_log s" and nr: "nr \<le> log_cap s" and a: "log_alloc nr s = Done (blk, s')"
    and lap: "fl_start_version (fslog s') \<le> fl_avail_version (fslog s')"
    and sv: "fl_start_version (fslog s') < 2 ^ 31"
  shows "fl_avail_version (fslog s') = fl_start_version (fslog s') \<or> blk + nr \<le> fl_start_blk (fslog s')"
proof -
  note F = log_alloc_fields [OF wf nr a] and A = log_alloc_Done [OF wf nr a]
  have "fl_avail_version (fslog s') < 2 ^ 31" using wf F(4) by (auto simp: wf_log_def split: if_splits)
  with A(3) sv lap F(1) show ?thesis
    by (auto simp: log_full_def Let_def signed_w_small)
qed

section \<open>A process after initialisation\<close>

text \<open>
  The state after \<open>init_log\<close> and \<open>init_replication\<close> for the log of process \<open>log_id\<close>, with an
  inode cache \<open>ic\<close>; \<open>sb0\<close> is the superblock that was read from the device.
\<close>

definition init_libfs ::
  "nat \<Rightarrow> nat \<Rightarrow> log_superblock \<Rightarrow> mlfs_conf \<Rightarrow> icache \<Rightarrow> event list \<Rightarrow> libfs" where
  "init_libfs log_start log_id sb0 cfg ic es =
     (let s = init_log log_start 4 log_id
           \<lparr>fslog = \<lparr>fl_dev = 0, fl_size = 0, fl_log_sb_blk = 0, fl_start_blk = 0,
              fl_next_avail_header = 0, fl_start_version = 0, fl_avail_version = 0, fl_outstanding = 0\<rparr>,
            log_sb = sb0, lhm = zero_loghdr_meta, icache = ic, s_inode_bitmap = [],
            ondisk_inodes = (\<lambda>_. zero_dinode), dev_trace = [], rctx_begin = 0, next_peer = None,
            fetch_seqn = 0, pf_queue = [], sent = [], rate_limit_flag = False,
            acks_replica1 = False, acks_replica2 = False, inbox = es, now = 0, conf = cfg\<rparr>;
          b = fl_next_avail_header (fslog s)
      in s\<lparr>rctx_begin := b, next_peer := Some (init_peer 0 b)\<rparr>)"

section \<open>The writes of a commit\<close>

lemma handle_event_trace:
  assumes "handle_event e s = Done s'"
  shows "\<exists>sbw. dev_trace s' = dev_trace s @ sbw \<and> (\<forall>w \<in> set sbw. dw_blk w = fl_log_sb_blk (fslog s))"
proof (cases e)
  case (Ev_Digest r)
  with assms show ?thesis
    by (auto simp: handle_digest_response_def Let_def sync_all_inode_ext_trees_def
        write_log_superblock_def mlfs_write_def reset_publish_meta_def
        split: option.splits if_splits)
qed (use assms in auto)

lemma wait_until_trace:
  assumes "wait_until P s = Done s'"
  shows "\<exists>sbw. dev_trace s' = dev_trace s @ sbw \<and> (\<forall>w \<in> set sbw. dw_blk w = fl_log_sb_blk (fslog s))"
  using assms unfolding wait_until_def
proof (rule await_induct)
  fix e and s t u :: libfs
  assume e: "handle_event e s = Done t"
    and "\<exists>sbw. dev_trace u = dev_trace t @ sbw \<and> (\<forall>w \<in> set sbw. dw_blk w = fl_log_sb_blk (fslog t))"
  then obtain w2 where w2: "dev_trace u = dev_trace t @ w2" "\<forall>w \<in> set w2. dw_blk w = fl_log_sb_blk (fslog t)"
    by auto
  from handle_event_trace [OF e] obtain w1 where "dev_trace t = dev_trace s @ w1"
    "\<forall>w \<in> set w1. dw_blk w = fl_log_sb_blk (fslog s)" by auto
  with w2 handle_event_same_meta [OF e]
  show "\<exists>sbw. dev_trace u = dev_trace s @ sbw \<and> (\<forall>w \<in> set sbw. dw_blk w = fl_log_sb_blk (fslog s))"
    by (intro exI [of _ "w1 @ w2"]) (auto simp: same_meta_def)
qed simp

lemma log_alloc_trace:
  assumes "log_alloc nr s = Done (blk, s')"
  shows "\<exists>sbw. dev_trace s' = dev_trace s @ sbw \<and> (\<forall>w \<in> set sbw. dw_blk w = fl_log_sb_blk (fslog s))"
proof -
  have "dev_trace (snd (log_reserve nr s)) = dev_trace s"
    "fl_log_sb_blk (fslog (snd (log_reserve nr s))) = fl_log_sb_blk (fslog s)"
    by (simp_all add: log_reserve_def log_wrap_def Let_def)
  with assms wait_until_trace [of _ "snd (log_reserve nr s)" s'] show ?thesis
    by (auto simp: log_alloc_def run_map_Done_iff split: prod.splits)
qed

lemma place_header_simps [simp]:
  "dev_trace (place_header blk nr s) = dev_trace s" "icache (place_header blk nr s) = icache s"
  "fslog (place_header blk nr s) = fslog s"
  "frame (place_header blk nr s) = frame s"
  "lm_pos (lhm (place_header blk nr s)) = 1" "lm_hdr_blkno (lhm (place_header blk nr s)) = blk"
  "lm_loghdr (lhm (place_header blk nr s)) =
     map_option (\<lambda>h. h\<lparr>lh_nr_log_blocks := cast16 nr, lh_inuse := LH_COMMIT_MAGIC\<rparr>) (lm_loghdr (lhm s))"
  by (simp_all add: place_header_def upd_hdr_def)

lemma lh_entries_upd [simp]:
  "lh_entries (h\<lparr>lh_nr_log_blocks := a, lh_inuse := b\<rparr>) = lh_entries h"
  "lh_entries (h\<lparr>lh_blocks := bl\<rparr>) = lh_entries h" "lh_entries (h\<lparr>lh_mtime := m\<rparr>) = lh_entries h"
  by (simp_all add: lh_entries_def)

lemma place_header_meta:
  "wf_meta (lhm (place_header blk nr s)) = wf_meta (lhm s)"
  "meta_ops (lhm (place_header blk nr s)) = meta_ops (lhm s)"
  by (auto simp: place_header_def upd_hdr_def wf_meta_def wf_loghdr_def n_data_def meta_ops_def
      split: option.splits)

definition hdr_written :: "nat \<Rightarrow> logheader \<Rightarrow> dev_write list \<Rightarrow> bool" where
  "hdr_written blk h hw \<longleftrightarrow>
     (\<exists>ext. hw = \<lparr>dw_blk = blk, dw_off = 0, dw_size = LOGHEADER_SIZE, dw_payload = PHdr h\<rparr> # ext \<and>
       (\<forall>w \<in> set ext. dw_blk w = blk \<and> (\<exists>bs. dw_payload w = PExt bs)))"

lemma persist_log_header_Done:
  assumes "persist_log_header blk s = Done s'" and "lm_loghdr (lhm s) = Some h"
  obtains hw where "dev_trace s' = dev_trace s @ hw" and "hdr_written blk (h\<lparr>lh_mtime := now s\<rparr>) hw"
    and "dinodes s' = dinodes s" and "frame s' = frame s"
    and "lm_loghdr (lhm s') = Some (h\<lparr>lh_mtime := now s\<rparr>)"
    and "lm_hdr_blkno (lhm s') = lm_hdr_blkno (lhm s)"
  using assms
  by (auto simp: persist_log_header_def Let_def hdr_written_def upd_hdr_def dinodes_def fun_eq_iff
      split: if_splits)

lemma length_entry_ops:
  "length (filter (\<lambda>e. data_in_loghdr (fst e)) es) \<le> length iovs \<Longrightarrow> length (entry_ops es iovs) = length es"
  by (induction es iovs rule: entry_ops.induct) (auto split: list.splits)

lemma length_meta_ops:
  assumes "wf_meta lm" and "lm_loghdr lm = Some h"
  shows "length (meta_ops lm) = lh_n h" and "lh_n h \<le> length (lh_blocks h)"
proof -
  have "n_data h \<le> 10"
    using assms n_data_le [of h] by (auto simp: wf_meta_def wf_loghdr_def g_max_blocks_per_operation_def)
  then show "length (meta_ops lm) = lh_n h"
    using meta_ops_cur [OF assms(1)] assms length_entry_ops [of "lh_entries h" "lm_io_vec lm"]
    by (simp add: cur_loghdr_def n_data_def wf_meta_def)
  show "lh_n h \<le> length (lh_blocks h)" using assms by (simp add: wf_meta_def wf_loghdr_def)
qed

text \<open>The layout that a successful \<open>write_tx\<close> leaves behind.\<close>

definition tx_layout :: "libfs \<Rightarrow> libfs \<Rightarrow> nat \<Rightarrow> logheader \<Rightarrow> dev_write list \<Rightarrow> dev_write list \<Rightarrow> dev_write list \<Rightarrow> bool" where
  "tx_layout s s' blk h' sbw body hw \<longleftrightarrow>
     dev_trace s' = dev_trace s @ sbw @ body @ hw \<and>
     body = op_writes (dinodes s') blk 1 (meta_ops (lhm s)) \<and>
     hdr_written blk h' hw \<and>
     (\<forall>w \<in> set sbw. dw_blk w = fl_log_sb_blk (fslog s)) \<and>
     (\<forall>w \<in> set body. dw_blocks w \<subseteq> {blk + 1..<blk + 1 + ops_blocks (meta_ops (lhm s))}) \<and>
     sorted_wrt (\<lambda>w w'. dw_blocks w \<inter> dw_blocks w' = {}) body \<and>
     log_begin s \<le> blk \<and> blk + 1 + ops_blocks (meta_ops (lhm s)) \<le> fl_size (fslog s) \<and>
     lh_entries h' = lh_entries (cur_loghdr (lhm s)) \<and> lh_length h' = lh_length (cur_loghdr (lhm s)) \<and>
     lh_nr_log_blocks h' = 1 + ops_blocks (meta_ops (lhm s)) \<and> lh_inuse h' = LH_COMMIT_MAGIC \<and>
     (\<forall>i < lh_n h'. lh_blocks h' ! i = op_positions 1 (meta_ops (lhm s)) ! i)"

lemma write_tx_Done:
  assumes wl: "wf_log s" and wm: "wf_meta (lhm s)" and h: "lm_loghdr (lhm s) = Some h"
    and com: "\<forall>e \<in> set (lh_entries h). committable (fst e)"
    and cap: "1 + ops_blocks (meta_ops (lhm s)) \<le> log_cap s"
    and small: "1 + ops_blocks (meta_ops (lhm s)) < 2 ^ 16"
    and tx: "write_tx s = Done s'"
  obtains blk h' sbw body hw s1 where "tx_layout s s' blk h' sbw body hw"
    and "log_alloc (1 + ops_blocks (meta_ops (lhm s))) s = Done (blk, s1)" and "frame s' = frame s1"
    and "lm_loghdr (lhm s') = Some h'" and "lm_hdr_blkno (lhm s') = blk"
proof -
  let ?ops = "meta_ops (lhm s)" and ?nr = "1 + ops_blocks (meta_ops (lhm s))"
  have nr: "add32 (ops_blocks ?ops) 1 = ?nr" using small by (simp add: add_w_id)
  have clb: "compute_log_blocks (lhm s) = Done (ops_blocks ?ops)"
    using compute_log_blocks_eq [OF wm h com] small by simp
  from tx obtain blk s1 s2 where al: "log_alloc ?nr s = Done (blk, s1)"
    and pb: "persist_log_blocks (place_header blk ?nr s1) = Done s2"
    and ph: "persist_log_header blk s2 = Done s'"
    by (auto simp: write_tx_def run_bind_Done_iff clb nr Let_def simp del: One_nat_def)
  note F = log_alloc_fields [OF wl cap al]
  define t where "t = place_header blk ?nr s1"
  define h1 where "h1 = h\<lparr>lh_nr_log_blocks := ?nr, lh_inuse := LH_COMMIT_MAGIC\<rparr>"
  have t: "wf_meta (lhm t)" "meta_ops (lhm t) = ?ops" "lm_loghdr (lhm t) = Some h1"
    "lm_pos (lhm t) = 1" "lm_hdr_blkno (lhm t) = blk" "dev_trace t = dev_trace s1" "frame t = frame s1"
    using wm h small F(5) by (simp_all add: t_def place_header_meta h1_def cast_w_id del: One_nat_def)
  have bsz: "blk + ?nr < 2 ^ 63" using F(7) wl by (simp add: wf_log_def)
  have "body_run 0 (meta_ops (lhm t)) t s2"
    using com small bsz by (intro persist_log_blocks_body [OF pb [folded t_def] t(1,3)])
      (simp_all add: t, simp add: h1_def)
  then have br: "\<forall>x \<in> set ?ops. op_fits x"
    "dev_trace s2 = dev_trace s1 @ op_writes (dinodes s2) blk 1 ?ops" "frame s2 = frame s1"
    "lm_loghdr (lhm s2) = Some (h1\<lparr>lh_blocks := put_at 0 (op_positions 1 ?ops) (lh_blocks h1)\<rparr>)"
    "lm_hdr_blkno (lhm s2) = blk"
    by (simp_all add: body_run_def t)
  obtain hw where hw: "dev_trace s' = dev_trace s2 @ hw"
    "hdr_written blk (h1\<lparr>lh_blocks := put_at 0 (op_positions 1 ?ops) (lh_blocks h1), lh_mtime := now s2\<rparr>) hw"
    "dinodes s' = dinodes s2" "frame s' = frame s2"
    "lm_loghdr (lhm s') = Some (h1\<lparr>lh_blocks := put_at 0 (op_positions 1 ?ops) (lh_blocks h1), lh_mtime := now s2\<rparr>)"
    "lm_hdr_blkno (lhm s') = blk"
    using persist_log_header_Done [OF ph br(4)] br(5) by auto
  obtain sbw where sbw: "dev_trace s1 = dev_trace s @ sbw" "\<forall>w \<in> set sbw. dw_blk w = fl_log_sb_blk (fslog s)"
    using log_alloc_trace [OF al] by auto
  let ?h' = "h1\<lparr>lh_blocks := put_at 0 (op_positions 1 ?ops) (lh_blocks h1), lh_mtime := now s2\<rparr>"
  have pos: "lh_blocks ?h' ! i = op_positions 1 ?ops ! i" if "i < lh_n ?h'" for i
    using put_at_nth [of i "op_positions 1 ?ops" 0 "lh_blocks h1"] length_meta_ops [OF wm h] that
    by (simp add: h1_def)
  have rng: "\<forall>w \<in> set (op_writes (dinodes s2) blk 1 ?ops). dw_blocks w \<subseteq> {blk + 1..<blk + 1 + ops_blocks ?ops}"
    using op_writes_blocks [OF br(1), of _ "dinodes s2" blk 1] by (rule ballI)
  have "blk + 1 + ops_blocks ?ops \<le> fl_size (fslog s)" using F(7) by simp
  moreover have "lh_entries ?h' = lh_entries (cur_loghdr (lhm s))" "lh_length ?h' = lh_length (cur_loghdr (lhm s))" "lh_nr_log_blocks ?h' = ?nr"
    "lh_inuse ?h' = LH_COMMIT_MAGIC"
    by (simp_all add: h1_def cur_loghdr_def h)
  ultimately have "tx_layout s s' blk ?h' sbw (op_writes (dinodes s') blk 1 ?ops) hw"
    unfolding tx_layout_def hw(3)
    using hw(1,2) br(2) sbw rng op_writes_disjoint [OF br(1), of "dinodes s2" blk 1] F(6) pos
    by (intro conjI) (simp_all only: append_assoc, blast)
  from that [OF this al] hw(4-6) br(3) show ?thesis by simp
qed

section \<open>A concrete process\<close>

definition demo_conf :: mlfs_conf where
  "demo_conf = \<lparr>conf_log_prefetching = True, conf_log_prefetch_threshold = 100,
     conf_persist_nvm_with_clflush = True, conf_persist_nvm_with_rdma_read = False\<rparr>"

definition demo_inode :: "nat \<Rightarrow> inode" where
  "demo_inode inum = \<lparr>i_dinode = setup_ondisk_inode T_FILE, i_dinode_flags = 1, i_inum = inum,
     i_ref = 1, i_flags = I_VALID, i_fcache_hash = None, i_n_fcache_entries = 0\<rparr>"

definition demo_sb :: log_superblock where
  "demo_sb = \<lparr>lsb_start_digest = 0, lsb_n_digest = 0, lsb_n_digest_blks = 0, lsb_start_persist = 0,
     lsb_end = 0\<rparr>"

definition demo_init :: libfs where
  "demo_init = init_libfs 1000 0 demo_sb demo_conf [7 \<mapsto> demo_inode 7] []"

text \<open>The metadata of a transaction that writes 3 bytes at offset 10 of file 7.\<close>

definition demo_lhm :: logheader_meta where
  "demo_lhm = zero_loghdr_meta\<lparr>lm_is_hdr_allocated := True, lm_nr_iovec := 1,
     lm_loghdr := Some \<lparr>lh_n = 1,
       lh_type = [L_TYPE_FILE, L_TYPE_INVALID, L_TYPE_INVALID, L_TYPE_INVALID],
       lh_inode_no = [7, 0, 0, 0], lh_data = [10, 0, 0, 0], lh_length = [3, 0, 0, 0],
       lh_blocks = [0, 0, 0, 0], lh_nr_log_blocks = 0, lh_mtime = 0, lh_inuse = 0\<rparr>,
     lm_io_vec := \<lparr>iov_base = [1, 2, 3], iov_size = 3\<rparr> # replicate 9 \<lparr>iov_base = [], iov_size = 0\<rparr>\<rparr>"

definition demo_tx :: libfs where "demo_tx = demo_init\<lparr>lhm := demo_lhm\<rparr>"

lemma replicate_small: "replicate 10 x = x # replicate 9 x" "replicate 4 y = [y, y, y, y]"
  by (simp_all add: numeral_eq_Suc)

lemma demo_lhm_built: "add_to_log g_log_size L_TYPE_FILE 7 [1, 2, 3] 10 3 zero_loghdr_meta = Done demo_lhm"
  by (simp add: add_to_log_def Let_def add_w_def add_to_loghdr_def zero_loghdr_meta_def demo_lhm_def
      zero_loghdr_def data_in_loghdr_def replicate_small g_params)

lemma demo_lhm_fields [simp]:
  "lm_loghdr demo_lhm = Some \<lparr>lh_n = 1,
     lh_type = [L_TYPE_FILE, L_TYPE_INVALID, L_TYPE_INVALID, L_TYPE_INVALID],
     lh_inode_no = [7, 0, 0, 0], lh_data = [10, 0, 0, 0], lh_length = [3, 0, 0, 0],
     lh_blocks = [0, 0, 0, 0], lh_nr_log_blocks = 0, lh_mtime = 0, lh_inuse = 0\<rparr>"
  "lm_io_vec demo_lhm = \<lparr>iov_base = [1, 2, 3], iov_size = 3\<rparr> # replicate 9 \<lparr>iov_base = [], iov_size = 0\<rparr>"
  "lm_nr_iovec demo_lhm = 1" "lm_is_hdr_allocated demo_lhm" "lm_ext_used demo_lhm = 0"
  by (simp_all add: demo_lhm_def zero_loghdr_meta_def)

lemmas demo_simps = demo_tx_def demo_init_def init_libfs_def init_log_def Let_def add_w_def sub_w_def
  cast_w_def write_log_superblock_def mlfs_write_def g_params init_peer_def demo_sb_def demo_conf_def

lemmas libfs_eval = write_tx_def compute_log_blocks_def log_alloc_def log_reserve_def log_wrap_def
  wait_until_def await.simps log_full_def persist_log_blocks_def place_header_def upd_hdr_def
  persist_log_file_def icache_find_def take_pos_def fcache_patch_def fcache_find_def fcache_init_def
  fcache_table_def demo_inode_def fcache_alloc_add_def fcache_set_def persist_log_header_def
  setup_ondisk_inode_def zero_dinode_def T_FILE_def T_DIR_def LOGHEADER_SIZE_def

lemma demo_tx_facts:
  "wf_log demo_tx" "wf_meta (lhm demo_tx)" "log_cap demo_tx = 131071"
  "meta_ops (lhm demo_tx) = [Op_Data L_TYPE_FILE 7 10 \<lparr>iov_base = [1, 2, 3], iov_size = 3\<rparr>]"
  "\<exists>s'. write_tx demo_tx = Done s'"
proof -
  show "wf_log demo_tx" by (simp add: demo_simps wf_log_def log_begin_def)
  show "wf_meta (lhm demo_tx)"
    by (simp add: demo_simps wf_meta_def wf_loghdr_def n_data_def lh_entries_def data_in_loghdr_def)
  show "log_cap demo_tx = 131071" by (simp add: demo_simps log_cap_def log_begin_def)
  show "meta_ops (lhm demo_tx) = [Op_Data L_TYPE_FILE 7 10 \<lparr>iov_base = [1, 2, 3], iov_size = 3\<rparr>]"
    by (simp add: demo_simps meta_ops_def lh_entries_def data_in_loghdr_def)
  show "\<exists>s'. write_tx demo_tx = Done s'" by (simp add: demo_simps libfs_eval)
qed

section \<open>Properties\<close>

text \<open>C1. Crash-consistent commit. When the write part of \<open>commit_log\<close> returns, the device
  trace has grown by superblock updates of digest responses handled meanwhile, then by
  the blocks of the operations of the transaction, laid out one after another behind
  the header block and pairwise disjoint, and only then by the header, which carries
  the commit magic, the number of blocks and the position of each operation; all of it
  lies inside the log.\<close>

theorem write_tx_crash_consistent:
  assumes "wf_log s" and "wf_meta (lhm s)" and "lm_loghdr (lhm s) = Some h"
    and "\<forall>e \<in> set (lh_entries h). committable (fst e)"
    and "1 + ops_blocks (meta_ops (lhm s)) \<le> log_cap s"
    and "1 + ops_blocks (meta_ops (lhm s)) < 2 ^ 16"
    and "write_tx s = Done s'"
  shows "\<exists>blk h' sbw body hw. tx_layout s s' blk h' sbw body hw"
  using write_tx_Done [OF assms] by metis

theorem write_tx_crash_consistent_witness:
  "wf_log demo_tx \<and> ops_blocks (meta_ops (lhm demo_tx)) = 1 \<and>
   (\<exists>s' blk h' sbw body hw. write_tx demo_tx = Done s' \<and> tx_layout demo_tx s' blk h' sbw body hw)"
proof -
  obtain s' where s': "write_tx demo_tx = Done s'" using demo_tx_facts(5) by auto
  have n: "ops_blocks (meta_ops (lhm demo_tx)) = 1"
    by (simp add: demo_tx_facts(4) g_block_size_bytes_def)
  have h: "lm_loghdr (lhm demo_tx) = Some (cur_loghdr demo_lhm)"
    and c: "\<forall>e \<in> set (lh_entries (cur_loghdr demo_lhm)). committable (fst e)"
    by (simp_all add: demo_tx_def cur_loghdr_def lh_entries_def committable_def)
  have "\<exists>blk h' sbw body hw. tx_layout demo_tx s' blk h' sbw body hw"
    by (rule write_tx_crash_consistent [OF demo_tx_facts(1,2) h c _ _ s'])
       (simp_all add: n demo_tx_facts(3))
  with s' n demo_tx_facts(1) show ?thesis by auto
qed

text \<open>C2. A reservation never hands out a block that still awaits digestion, as long as the
  tail is at most one lap ahead of the head: the blocks that \<open>log_alloc\<close> returns lie
  inside the log and are disjoint from the undigested blocks of both laps.\<close>

theorem log_alloc_disjoint_undigested:
  assumes "wf_log s" and "nr \<le> log_cap s" and "log_alloc nr s = Done (blk, s')"
    and "fl_start_version (fslog s') \<le> fl_avail_version (fslog s')"
    and "fl_avail_version (fslog s') \<le> fl_start_version (fslog s') + 1"
  shows "{blk..<blk + nr} \<subseteq> {log_begin s..<fl_size (fslog s)} \<and>
    {blk..<blk + nr} \<inter> undigested blk s' = {}"
proof -
  note F = log_alloc_fields [OF assms(1-3)]
  have "fl_avail_version (fslog s') < 2 ^ 31" using assms(1) F(4) by (auto simp: wf_log_def split: if_splits)
  with assms log_alloc_no_overlap [OF assms(1-3)] F(6,7) show ?thesis
    by (auto simp: undigested_def)
qed

theorem log_alloc_disjoint_undigested_witness:
  "\<exists>s'. log_alloc 5 demo_init = Done (1001, s') \<and>
    {1001..<1001 + 5} \<inter> undigested 1001 s' = {}"
proof -
  obtain s' where s': "log_alloc 5 demo_init = Done (1001, s')"
    "fl_start_version (fslog s') = 0" "fl_avail_version (fslog s') = 0"
    by (simp add: demo_simps libfs_eval)
  have "wf_log demo_init" "5 \<le> log_cap demo_init"
    by (simp_all add: demo_simps wf_log_def log_cap_def log_begin_def)
  from log_alloc_disjoint_undigested [OF this s'(1)] s' show ?thesis by auto
qed




end
