(* ===== verification/Prefetch.thy ===== *)
theory Prefetch
  imports Txn
begin

text \<open>
  Which log blocks a LibFS asks the SmartNIC to fetch.

  A committed transaction is a group of consecutive log blocks. The counters of the peer
  (\<open>local_start\<close>, \<open>n_unsync\<close>, \<open>n_unsync_blk\<close>, \<open>n_unsync_upto_end\<close>) and the recorded end of
  the previous lap describe the groups that have not been requested yet, also when these
  straddle the end of the circular log. \<open>reach\<close> runs \<open>commit_log\<close>, fsync, the worker of the
  thread pool and digest responses in any order. The main result is that the requests,
  in the order in which they are made, list exactly the blocks of the committed groups
  in order, none twice and none left out.
\<close>

section \<open>Groups of log blocks\<close>

type_synonym group = "nat \<times> nat"


definition glen :: "group list \<Rightarrow> nat" where
  "glen gs = sum_list (map snd gs)"

fun chain :: "nat \<Rightarrow> group list \<Rightarrow> bool" where
  "chain b [] \<longleftrightarrow> True"
| "chain b ((h, n) # gs) \<longleftrightarrow> h = b \<and> 2 \<le> n \<and> chain (b + n) gs"


definition nres :: "prefetch_arg list \<Rightarrow> nat" where
  "nres R = length (filter pf_reset_meta R)"

lemma glen_simps [simp]:
  "glen [] = 0" "glen (g # gs) = snd g + glen gs" "glen (gs @ hs) = glen gs + glen hs"
  by (simp_all add: glen_def)

lemma nres_simps [simp]:
  "nres [] = 0" "nres (R @ R') = nres R + nres R'"
  "nres [a] = (if pf_reset_meta a then 1 else 0)"
  by (simp_all add: nres_def)

lemma chain_append [simp]: "chain b (gs @ hs) \<longleftrightarrow> chain b gs \<and> chain (b + glen gs) hs"
  by (induction b gs rule: chain.induct) (auto simp: add.assoc)


lemma chain_length: "chain b gs \<Longrightarrow> 2 * length gs \<le> glen gs"
  by (induction b gs rule: chain.induct) auto

text \<open>The groups that a list of requests asks for: each request a chain of groups that starts at its first block.\<close>

definition request_for :: "prefetch_arg \<Rightarrow> group list \<Rightarrow> bool" where
  "request_for a T \<longleftrightarrow> chain (pf_start a) T \<and> pf_n_blk a = glen T \<and> pf_n a = length T"

definition asks :: "prefetch_arg list \<Rightarrow> group list \<Rightarrow> bool" where
  "asks rs T \<longleftrightarrow> (\<exists>Ts. concat Ts = T \<and> list_all2 request_for rs Ts)"

lemma asks_Nil [simp]: "asks [] T \<longleftrightarrow> T = []"
  by (auto simp: asks_def)

lemma asks_single: "request_for a T \<Longrightarrow> asks [a] T"
  unfolding asks_def by (intro exI [of _ "[T]"]) simp

lemma asks_append: "asks rs T \<Longrightarrow> asks rs' T' \<Longrightarrow> asks (rs @ rs') (T @ T')"
  unfolding asks_def by (metis concat_append list_all2_appendI)



section \<open>The invariant\<close>

text \<open>
  Unsynced groups \<open>U\<close> ending at \<open>tail\<close>, for a log that begins at \<open>b\<close> with recorded end \<open>e\<close>:
  all in the current lap; or all behind a wrap that the peer has not passed yet; or some
  before the wrap and the others behind it.
\<close>

definition layout :: "group list \<Rightarrow> nat \<Rightarrow> nat \<Rightarrow> nat \<Rightarrow> peer_meta \<Rightarrow> bool" where
  "layout U tail b e p \<longleftrightarrow>
     (pm_n_unsync_upto_end p = 0 \<and> \<not> (e \<noteq> 0 \<and> pm_local_start p > e) \<and>
      chain (pm_local_start p) U \<and> pm_local_start p + glen U = tail) \<or>
     (e \<noteq> 0 \<and> pm_local_start p > e \<and> chain b U \<and> b + glen U = tail) \<or>
     (e \<noteq> 0 \<and> (\<exists>U1 U2. U = U1 @ U2 \<and> U1 \<noteq> [] \<and> pm_n_unsync_upto_end p = length U1 \<and>
        chain (pm_local_start p) U1 \<and> pm_local_start p + glen U1 = e + 1 \<and>
        chain b U2 \<and> b + glen U2 = tail))"

definition cur_lap :: "nat \<Rightarrow> peer_meta \<Rightarrow> bool" where
  "cur_lap e p \<longleftrightarrow> pm_n_unsync_upto_end p = 0 \<and> \<not> (e \<noteq> 0 \<and> pm_local_start p > e)"

definition unsynced :: "prefetch_arg list \<Rightarrow> group list \<Rightarrow> nat \<Rightarrow> libfs \<Rightarrow> bool" where
  "unsynced R U tail s \<longleftrightarrow>
     (\<exists>p. next_peer s = Some p \<and> pm_n_unsync p = length U \<and> pm_n_unsync_blk p = glen U \<and>
        layout U tail (log_begin s) (lsb_end (log_sb s)) p \<and>
        fl_avail_version (fslog s) = nres R + (if cur_lap (lsb_end (log_sb s)) p then 0 else 1)) \<and>
     fl_start_version (fslog s) \<le> nres R \<and>
     (fl_start_version (fslog s) < fl_avail_version (fslog s) \<longrightarrow> lsb_end (log_sb s) \<noteq> 0) \<and>
     (lsb_end (log_sb s) \<noteq> 0 \<longrightarrow> tail \<le> lsb_end (log_sb s)) \<and>
     lsb_end (log_sb s) < fl_size (fslog s) \<and>
     log_begin s \<le> tail \<and> tail \<le> fl_size (fslog s) \<and> fl_size (fslog s) < 2 ^ 31 \<and>
     fl_avail_version (fslog s) < 2 ^ 31 - 1 \<and> rctx_begin s = log_begin s"

lemma layoutE [consumes 1, case_names cur reset split]:
  assumes "layout U tail b e p"
  obtains "cur_lap e p" "chain (pm_local_start p) U" "pm_local_start p + glen U = tail"
    | "e \<noteq> 0" "pm_local_start p > e" "chain b U" "b + glen U = tail"
    | U1 U2 where "e \<noteq> 0" "U = U1 @ U2" "U1 \<noteq> []" "pm_n_unsync_upto_end p = length U1"
        "chain (pm_local_start p) U1" "pm_local_start p + glen U1 = e + 1" "chain b U2" "b + glen U2 = tail"
  using assms unfolding layout_def cur_lap_def by (elim disjE) auto

lemma layout_glen: "layout U tail b e p \<Longrightarrow> e < sz \<Longrightarrow> tail \<le> sz \<Longrightarrow> glen U \<le> 2 * sz"
  by (auto simp: layout_def)

lemma layout_length: "layout U tail b e p \<Longrightarrow> 2 * length U \<le> glen U"
  by (auto simp: layout_def dest!: chain_length)

lemma unsynced_bounds:
  assumes "unsynced R U tail s"
  shows "glen U < 2 ^ 32" and "length U < 2 ^ 31"
proof -
  from assms obtain p where p: "layout U tail (log_begin s) (lsb_end (log_sb s)) p"
    and b: "lsb_end (log_sb s) < fl_size (fslog s)" "tail \<le> fl_size (fslog s)" "fl_size (fslog s) < 2 ^ 31"
    by (auto simp: unsynced_def)
  from layout_glen [OF p b(1,2)] b(3) show "glen U < 2 ^ 32" by simp
  with layout_length [OF p] show "length U < 2 ^ 31" by simp
qed

lemma unsynced_peer_upd:
  assumes "unsynced R U tail s" and "pm_n_unsync p' = length V" and "pm_n_unsync_blk p' = glen V"
    and "layout V tail (log_begin s) (lsb_end (log_sb s)) p'"
    and "fl_avail_version (fslog s) = nres R' + (if cur_lap (lsb_end (log_sb s)) p' then 0 else 1)"
    and "nres R \<le> nres R'"
  shows "unsynced R' V tail (s\<lparr>next_peer := Some p'\<rparr>)"
  using assms by (simp add: unsynced_def log_begin_def)

lemma unsynced_cong:
  assumes u: "unsynced R U tail s" and m: "same_unsync s s'"
    and f: "fslog s' = fslog s" "lsb_end (log_sb s') = lsb_end (log_sb s)" "rctx_begin s' = rctx_begin s"
  shows "unsynced R U tail s'"
proof -
  from u obtain p where p: "next_peer s = Some p" "pm_n_unsync p = length U" "pm_n_unsync_blk p = glen U"
    "layout U tail (log_begin s) (lsb_end (log_sb s)) p"
    "fl_avail_version (fslog s) = nres R + (if cur_lap (lsb_end (log_sb s)) p then 0 else 1)"
    by (auto simp: unsynced_def)
  from m p(1) obtain p' where p': "next_peer s' = Some p'" "pm_n_unsync p' = pm_n_unsync p"
    "pm_n_unsync_blk p' = pm_n_unsync_blk p" "pm_local_start p' = pm_local_start p"
    "pm_n_unsync_upto_end p' = pm_n_unsync_upto_end p"
    by (auto simp: same_unsync_def)
  have "layout U tail b e p' = layout U tail b e p" "cur_lap e p' = cur_lap e p" for b e
    using p' by (simp_all add: layout_def cur_lap_def)
  with u p p' f show ?thesis by (simp add: unsynced_def log_begin_def)
qed

section \<open>Events\<close>

text \<open>A reset response answers a reset request that was made before.\<close>

fun n_resets :: "event list \<Rightarrow> nat" where
  "n_resets [] = 0"
| "n_resets (Ev_Digest r # es) = (if dr_reset_meta r then 1 else 0) + n_resets es"
| "n_resets (_ # es) = n_resets es"

definition env_ok :: "prefetch_arg list \<Rightarrow> event list \<Rightarrow> libfs \<Rightarrow> bool" where
  "env_ok R es s \<longleftrightarrow> fl_start_version (fslog s) + n_resets es \<le> nres R"

lemma digest_response_versions:
  assumes "handle_digest_response r s = Done s'" and "fl_start_version (fslog s) < 2 ^ 31"
  shows "fl_start_version (fslog s') = fl_start_version (fslog s) + (if dr_reset_meta r then 1 else 0)"
    and "lsb_end (log_sb s') =
      (if dr_reset_meta r \<and> fl_start_version (fslog s) + 1 = fl_avail_version (fslog s) then 0
       else lsb_end (log_sb s))"
  using assms
  by (auto simp: handle_digest_response_def Let_def sync_all_inode_ext_trees_def write_log_superblock_def
      mlfs_write_def reset_publish_meta_def add_w_id split: option.splits if_splits)

lemma unsynced_same_meta:
  assumes u: "unsynced R U tail s" and m: "same_meta s s'"
    and sv: "fl_start_version (fslog s') \<le> nres R"
    and e: "lsb_end (log_sb s') = lsb_end (log_sb s) \<and> fl_start_version (fslog s') \<ge> fl_start_version (fslog s) \<or>
      lsb_end (log_sb s') = 0 \<and> fl_start_version (fslog s') = fl_avail_version (fslog s)"
  shows "unsynced R U tail s'"
proof -
  from u obtain p where p: "next_peer s = Some p" "pm_n_unsync p = length U" "pm_n_unsync_blk p = glen U"
    "layout U tail (log_begin s) (lsb_end (log_sb s)) p"
    "fl_avail_version (fslog s) = nres R + (if cur_lap (lsb_end (log_sb s)) p then 0 else 1)"
    by (auto simp: unsynced_def)
  from same_meta_peer [OF m p(1)] obtain p' where p': "next_peer s' = Some p'"
    "pm_n_unsync p' = pm_n_unsync p" "pm_n_unsync_blk p' = pm_n_unsync_blk p"
    "pm_local_start p' = pm_local_start p" "pm_n_unsync_upto_end p' = pm_n_unsync_upto_end p" .
  have m': "log_begin s' = log_begin s" "fl_size (fslog s') = fl_size (fslog s)"
    "fl_avail_version (fslog s') = fl_avail_version (fslog s)" "rctx_begin s' = rctx_begin s"
    using m by (auto simp: same_meta_def log_begin_def)
  from e show ?thesis
  proof
    assume "lsb_end (log_sb s') = lsb_end (log_sb s) \<and> fl_start_version (fslog s') \<ge> fl_start_version (fslog s)"
    with u p p' m' sv show ?thesis by (auto simp: unsynced_def layout_def cur_lap_def)
  next
    assume z: "lsb_end (log_sb s') = 0 \<and> fl_start_version (fslog s') = fl_avail_version (fslog s)"
    with sv p(5) have "cur_lap (lsb_end (log_sb s)) p" by (auto split: if_splits)
    with z u p p' m' sv show ?thesis by (auto simp: unsynced_def layout_def cur_lap_def)
  qed
qed

lemma handle_event_unsynced:
  assumes u: "unsynced R U tail s" and h: "handle_event e s = Done s'" and g: "env_ok R (e # es) s"
  shows "unsynced R U tail s'" and "env_ok R es s'"
proof -
  have sv: "fl_start_version (fslog s) < 2 ^ 31" using u by (auto simp: unsynced_def split: if_splits)
  have st: "(\<exists>r. e = Ev_Digest r) \<or> fl_start_version (fslog s') = fl_start_version (fslog s) \<and>
      lsb_end (log_sb s') = lsb_end (log_sb s)"
    using h by (cases e) auto
  show ok: "env_ok R es s'"
    using h g st digest_response_versions(1) [OF _ sv] by (cases e) (auto simp: env_ok_def)
  show "unsynced R U tail s'"
  proof (rule unsynced_same_meta [OF u handle_event_same_meta [OF h]])
    show "fl_start_version (fslog s') \<le> nres R" using ok by (simp add: env_ok_def)
    show "lsb_end (log_sb s') = lsb_end (log_sb s) \<and> fl_start_version (fslog s') \<ge> fl_start_version (fslog s) \<or>
      lsb_end (log_sb s') = 0 \<and> fl_start_version (fslog s') = fl_avail_version (fslog s)"
      using h st digest_response_versions [OF _ sv] by (cases e) auto
  qed
qed

lemma await_unsynced:
  assumes "await P es s = Done s'" and "unsynced R U tail s" and "env_ok R es s"
  shows "unsynced R U tail s' \<and> env_ok R (inbox s') s'"
  using assms
proof (induction es arbitrary: s)
  case Nil
  then show ?case
    by (subst (asm) await.simps) (auto split: if_splits simp: unsynced_def env_ok_def log_begin_def)
next
  case (Cons e es)
  show ?case
  proof (cases "P s")
    case True
    with Cons.prems show ?thesis
      by (subst (asm) await.simps) (auto simp: unsynced_def env_ok_def log_begin_def)
  next
    case False
    with Cons.prems(1) obtain t where t: "handle_event e s = Done t" "await P es t = Done s'"
      by (subst (asm) await.simps) (auto simp: run_bind_Done_iff)
    from Cons.IH [OF t(2) handle_event_unsynced [OF Cons.prems(2) t(1) Cons.prems(3)]]
    show ?thesis .
  qed
qed

lemma wait_until_unsynced:
  "wait_until P s = Done s' \<Longrightarrow> unsynced R U tail s \<Longrightarrow> env_ok R (inbox s) s \<Longrightarrow>
   unsynced R U tail s' \<and> env_ok R (inbox s') s'"
  unfolding wait_until_def by (rule await_unsynced)

section \<open>Fetch requests\<close>

text \<open>\<open>rs\<close> are the requests made between \<open>s\<close> and \<open>s'\<close>: an fsync sends them, otherwise they are queued.\<close>

definition issues :: "bool \<Rightarrow> prefetch_arg list \<Rightarrow> libfs \<Rightarrow> libfs \<Rightarrow> bool" where
  "issues f rs s s' \<longleftrightarrow>
     (if f then map snd (sent s') = map snd (sent s) @ rs \<and> pf_queue s' = pf_queue s
      else sent s' = sent s \<and> pf_queue s' = pf_queue s @ rs)"

lemma issues_Nil: "same_meta s s' \<Longrightarrow> issues f [] s s'"
  by (auto simp: issues_def same_meta_def)

lemma issues_trans: "issues f rs s t \<Longrightarrow> issues f rs' t u \<Longrightarrow> issues f (rs @ rs') s u"
  by (auto simp: issues_def split: if_splits)

lemma send_log_prefetch_msg_fields:
  assumes "send_log_prefetch_msg a s = Done s'"
  shows "issues True [a] s s'" and "fslog s' = fslog s" and "log_sb s' = log_sb s"
    and "rctx_begin s' = rctx_begin s" and "inbox s' = inbox s" and "conf s' = conf s"
  using assms
  by (auto simp: send_log_prefetch_msg_def generate_fetch_seqn_def with_peer_def upd_peer_def Let_def
      issues_def mlfs_assert_Done_iff split: option.splits)

lemma send_log_prefetch_msg_Done:
  assumes "send_log_prefetch_msg a s = Done s'"
  shows "unsynced R U tail s \<Longrightarrow> unsynced R U tail s'"
    and "env_ok R (inbox s) s \<Longrightarrow> env_ok R (inbox s') s'"
  using send_log_prefetch_msg_fields [OF assms] send_log_prefetch_msg_unsync [OF assms]
  by (auto intro: unsynced_cong simp: env_ok_def)

lemma limit_prefetch_rate_unsynced:
  assumes "limit_prefetch_rate s = Done s'" and "unsynced R U tail s" and "env_ok R (inbox s) s"
  shows "unsynced R U tail s' \<and> env_ok R (inbox s') s'"
  using assms
  by (auto simp: limit_prefetch_rate_def with_peer_def Let_def run_bind_Done_iff
      split: option.splits if_splits dest!: wait_until_unsynced)

lemma send_log_prefetch_request_Done:
  assumes sd: "send_log_prefetch_request a s = Done s'" and u: "unsynced R U tail s" "env_ok R (inbox s) s"
  shows "issues (pf_is_fsync a) [a] s s'" and "unsynced R U tail s' \<and> env_ok R (inbox s') s'"
    and "conf s' = conf s" and "fl_next_avail_header (fslog s') = fl_next_avail_header (fslog s)"
proof -
  from sd obtain t where t: "limit_prefetch_rate s = Done t"
    and t': "(if pf_is_fsync a then send_log_prefetch_msg a t
              else Done (t\<lparr>pf_queue := pf_queue t @ [a]\<rparr>)) = Done s'"
    by (auto simp: send_log_prefetch_request_def run_bind_Done_iff)
  note lm = limit_prefetch_rate_same_meta [OF t] and lu = limit_prefetch_rate_unsynced [OF t u]
  show "issues (pf_is_fsync a) [a] s s'"
    using t' lm send_log_prefetch_msg_fields(1) [of a t s']
    by (auto simp: issues_def same_meta_def split: if_splits)
  show "unsynced R U tail s' \<and> env_ok R (inbox s') s'"
    using t' lu send_log_prefetch_msg_Done [of a t s'] unsynced_cong [of R U tail t s']
    by (auto split: if_splits simp: env_ok_def same_unsync_def)
  show "conf s' = conf s" "fl_next_avail_header (fslog s') = fl_next_avail_header (fslog s)"
    using t' lm send_log_prefetch_msg_fields(2,6) [of a t s'] by (auto simp: same_meta_def split: if_splits)
qed

text \<open>The groups that one call of \<open>calculate_prefetch_meta\<close> requests.\<close>

definition fetch_split :: "group list \<Rightarrow> peer_meta \<Rightarrow> nat \<Rightarrow> group list \<times> group list" where
  "fetch_split U p e =
     (if pm_n_unsync_upto_end p \<noteq> 0 \<and> \<not> (e \<noteq> 0 \<and> pm_local_start p > e)
      then (take (pm_n_unsync_upto_end p) U, drop (pm_n_unsync_upto_end p) U) else (U, []))"

lemma prefetch_meta_Done:
  assumes u: "unsynced R U tail s" and p: "next_peer s = Some p"
    and fs: "fetch_split U p (lsb_end (log_sb s)) = (T, V)"
  obtains a s' where "prefetch_meta (pm_local_start p) (pm_n_unsync_blk p) (pm_n_unsync p)
      (pm_n_unsync_upto_end p) (lsb_end (log_sb s)) f s = Done (a, s')"
    and "unsynced (R @ [a]) V tail s'" and "request_for a T" and "pf_is_fsync a = f" and "same_meta (s\<lparr>next_peer := next_peer s'\<rparr>) s'"
    and "inbox s' = inbox s" and "fl_start_version (fslog s') = fl_start_version (fslog s)"
proof -
  let ?e = "lsb_end (log_sb s)" and ?ls = "pm_local_start p" and ?b = "log_begin s"
  from u p have n: "pm_n_unsync p = length U" "pm_n_unsync_blk p = glen U"
    and L: "layout U tail ?b ?e p" and rb: "rctx_begin s = ?b"
    and sz: "tail \<le> fl_size (fslog s)" "fl_size (fslog s) < 2 ^ 31" "?e < fl_size (fslog s)"
    and gap: "?e \<noteq> 0 \<longrightarrow> tail \<le> ?e"
    and av: "fl_avail_version (fslog s) = nres R + (if cur_lap ?e p then 0 else 1)"
    by (auto simp: unsynced_def)
  note B = unsynced_bounds [OF u]
  from L show thesis
  proof (cases rule: layoutE)
    case cur
    then have T: "T = U" "V = []" using fs by (auto simp: fetch_split_def cur_lap_def)
    have ok: "add64 ?ls (glen U) = tail" "sub64 (glen U) (glen U) = 0" "sub32 (length U) (length U) = 0"
      using cur sz B by (simp_all add: add_w_id sub_w_id)
    let ?p' = "p\<lparr>pm_local_start := tail, pm_n_unsync_blk := 0, pm_n_unsync := 0\<rparr>"
    let ?a = "\<lparr>pf_start = ?ls, pf_n_blk = glen U, pf_n = length U, pf_reset_meta = False, pf_is_fsync = f\<rparr>"
    show thesis
    proof (rule that [of ?a "s\<lparr>next_peer := Some ?p'\<rparr>"])
      show "prefetch_meta ?ls (pm_n_unsync_blk p) (pm_n_unsync p) (pm_n_unsync_upto_end p) ?e f s =
          Done (?a, s\<lparr>next_peer := Some ?p'\<rparr>)"
        using cur ok n p by (auto simp: prefetch_meta_def Let_def upd_peer_def cur_lap_def)
      show "unsynced (R @ [?a]) V tail (s\<lparr>next_peer := Some ?p'\<rparr>)"
        using gap cur(1) av by (intro unsynced_peer_upd [OF u]) (auto simp: T layout_def cur_lap_def)
    qed (use cur T in \<open>auto simp: request_for_def same_meta_def\<close>)
  next
    case reset
    then have T: "T = U" "V = []" using fs by (auto simp: fetch_split_def)
    have ok: "add64 ?b (glen U) = tail" "sub64 (glen U) (glen U) = 0" "sub32 (length U) (length U) = 0"
      using reset sz B by (simp_all add: add_w_id sub_w_id)
    let ?p' = "p\<lparr>pm_local_start := tail, pm_n_unsync_upto_end := 0, pm_n_unsync_blk := 0, pm_n_unsync := 0\<rparr>"
    let ?a = "\<lparr>pf_start = ?b, pf_n_blk = glen U, pf_n = length U, pf_reset_meta = True, pf_is_fsync = f\<rparr>"
    show thesis
    proof (rule that [of ?a "s\<lparr>next_peer := Some ?p'\<rparr>"])
      show "prefetch_meta ?ls (pm_n_unsync_blk p) (pm_n_unsync p) (pm_n_unsync_upto_end p) ?e f s =
          Done (?a, s\<lparr>next_peer := Some ?p'\<rparr>)"
        using reset ok n p rb by (auto simp: prefetch_meta_def Let_def upd_peer_def reset_prefetch_meta_def)
      show "unsynced (R @ [?a]) V tail (s\<lparr>next_peer := Some ?p'\<rparr>)"
        using gap reset(1,2) av by (intro unsynced_peer_upd [OF u]) (auto simp: T layout_def cur_lap_def)
    qed (use reset T in \<open>auto simp: request_for_def same_meta_def\<close>)
  next
    case (split U1 U2)
    have g2: "2 \<le> glen U1" using chain_length [OF split(5)] split(3) by (cases U1) auto
    then have le: "?ls < ?e" using split(6) by simp
    have T: "T = U1" "V = U2" using fs split le by (auto simp: fetch_split_def)
    have ok: "add64 (sub64 ?e ?ls) 1 = glen U1" "add64 ?ls (glen U1) = ?e + 1"
      "sub64 (glen U) (glen U1) = glen U2" "sub32 (length U) (length U1) = length U2"
      using split le sz B by (simp_all add: add_w_id sub_w_id)
    let ?p' = "p\<lparr>pm_local_start := ?e + 1, pm_n_unsync_blk := glen U2, pm_n_unsync := length U2\<rparr>"
    let ?a = "\<lparr>pf_start = ?ls, pf_n_blk = glen U1, pf_n = length U1, pf_reset_meta = False, pf_is_fsync = f\<rparr>"
    show thesis
    proof (rule that [of ?a "s\<lparr>next_peer := Some ?p'\<rparr>"])
      show "prefetch_meta ?ls (pm_n_unsync_blk p) (pm_n_unsync p) (pm_n_unsync_upto_end p) ?e f s =
          Done (?a, s\<lparr>next_peer := Some ?p'\<rparr>)"
        using split(1,3,4) ok n p le
        by (auto simp: prefetch_meta_def Let_def upd_peer_def mlfs_assert_def simp del: One_nat_def)
      show "unsynced (R @ [?a]) V tail (s\<lparr>next_peer := Some ?p'\<rparr>)"
        using split(1,3,4,7,8) av by (intro unsynced_peer_upd [OF u]) (auto simp: T layout_def cur_lap_def)
    qed (use split T in \<open>auto simp: request_for_def same_meta_def\<close>)
  qed
qed

text \<open>What a call requests: the prefix \<open>T\<close> of the unsynced groups; \<open>V\<close> remain.\<close>

definition covers :: "bool \<Rightarrow> prefetch_arg list \<Rightarrow> prefetch_arg list \<Rightarrow> group list \<Rightarrow> group list \<Rightarrow> nat \<Rightarrow> libfs \<Rightarrow> libfs \<Rightarrow> bool" where
  "covers f R rs U V tail s s' \<longleftrightarrow>
     issues f rs s s' \<and> unsynced (R @ rs) V tail s' \<and> env_ok (R @ rs) (inbox s') s' \<and> conf s' = conf s \<and>
     fl_next_avail_header (fslog s') = fl_next_avail_header (fslog s) \<and>
     (\<exists>T. U = T @ V \<and> asks rs T)"

lemma env_ok_mono: "env_ok R es s \<Longrightarrow> env_ok (R @ rs) es s"
  by (simp add: env_ok_def)

lemma covers_trans:
  assumes "covers f R rs U V tail s t" and "covers f (R @ rs) rs' V W tail t u"
  shows "covers f R (rs @ rs') U W tail s u"
proof -
  from assms obtain T T' where "U = T @ V" "V = T' @ W" "asks rs T" "asks rs' T'"
    by (auto simp: covers_def)
  then have "\<exists>X. U = X @ W \<and> asks (rs @ rs') X"
    by (intro exI [of _ "T @ T'"]) (simp add: asks_append)
  with assms issues_trans show ?thesis by (auto simp: covers_def)
qed

lemma calculate_prefetch_meta_covers:
  assumes u: "unsynced R U tail s" and ok: "env_ok R (inbox s) s" and p: "next_peer s = Some p"
    and c: "calculate_prefetch_meta (pm_local_start p) (pm_n_unsync_blk p) (pm_n_unsync p)
      (pm_n_unsync_upto_end p) (lsb_end (log_sb s)) f s = Done (ret, s')"
  obtains a V where "covers f R [a] U V tail s s'"
    and "f \<and> ret = - EAGAIN \<or> ret = 0 \<and> (f \<longrightarrow> V = [])"
proof -
  obtain T V where fs: "fetch_split U p (lsb_end (log_sb s)) = (T, V)" by (cases "fetch_split U p (lsb_end (log_sb s))")
  then have UTV: "U = T @ V" by (auto simp: fetch_split_def split: if_splits)
  from u p have nU: "pm_n_unsync p = length U" by (auto simp: unsynced_def)
  obtain a s1 where pm: "prefetch_meta (pm_local_start p) (pm_n_unsync_blk p) (pm_n_unsync p)
      (pm_n_unsync_upto_end p) (lsb_end (log_sb s)) f s = Done (a, s1)"
    and u1: "unsynced (R @ [a]) V tail s1" and rb: "request_for a T" and fa: "pf_is_fsync a = f"
    and m1: "same_meta (s\<lparr>next_peer := next_peer s1\<rparr>) s1" and ib: "inbox s1 = inbox s"
    and sv: "fl_start_version (fslog s1) = fl_start_version (fslog s)"
    by (rule prefetch_meta_Done [OF u p fs])
  have na: "pf_n a = length T" using rb by (simp add: request_for_def)
  define s2 where "s2 = (if f \<and> length U = length T then rpc_alloc_ack_bit s1 else s1)"
  have u2: "unsynced (R @ [a]) V tail s2"
    using unsynced_cong [OF u1, of s2] u1 by (auto simp: s2_def rpc_alloc_ack_bit_def same_unsync_def)
  have ok2: "env_ok (R @ [a]) (inbox s2) s2"
    using ok ib sv by (auto simp: env_ok_def s2_def rpc_alloc_ack_bit_def)
  have s2f: "sent s2 = sent s" "pf_queue s2 = pf_queue s" "conf s2 = conf s"
    "fl_next_avail_header (fslog s2) = fl_next_avail_header (fslog s)"
    using m1 by (simp_all add: s2_def rpc_alloc_ack_bit_def same_meta_def)
  have "run_bind (send_log_prefetch_request a s2)
      (\<lambda>s3. if f then if length T < length U then Done (- EAGAIN, s3)
                 else if length U = length T then run_map (\<lambda>s. (0, s)) (await_fsync_acks s3)
                 else Failed (NullDeref ''fsync_ack_flag'')
               else Done (0, s3)) = Done (ret, s')"
    using c unfolding calculate_prefetch_meta_def pm by (simp only: Let_def s2_def nU na run_bind_simps prod.case)
  then obtain s3 where s3: "send_log_prefetch_request a s2 = Done s3"
    and fin: "(if f then if length T < length U then Done (- EAGAIN, s3)
                 else if length U = length T then run_map (\<lambda>s. (0, s)) (await_fsync_acks s3)
                 else Failed (NullDeref ''fsync_ack_flag'')
               else Done (0, s3)) = Done (ret, s')"
    unfolding run_bind_Done_iff by blast
  note S = send_log_prefetch_request_Done [OF s3 u2 ok2]
  have i3: "issues f [a] s s3" using S(1) s2f fa by (simp add: issues_def)
  have c3: "covers f R [a] U V tail s s3"
    using i3 S(2-4) s2f(3,4) UTV asks_single [OF rb] by (auto simp: covers_def)
  show thesis
  proof (cases "f \<and> length T = length U")
    case True
    then have V: "V = []" using UTV by simp
    from fin True have r0: "ret = 0" and w: "wait_until fsync_acked s3 = Done s'"
      by (auto simp: run_map_Done_iff await_fsync_acks_def)
    note W = wait_until_same_meta [OF w] wait_until_unsynced [OF w conjunct1 [OF S(2)] conjunct2 [OF S(2)]]
    have "covers f R [a] U V tail s s'"
      using c3 W issues_trans [OF i3 issues_Nil [OF W(1)]] by (auto simp: covers_def same_meta_def)
    with that r0 V show thesis by blast
  next
    case False
    with fin UTV have "s' = s3" "f \<and> ret = - EAGAIN \<or> ret = 0 \<and> \<not> f" by (auto split: if_splits)
    with that c3 show thesis by blast
  qed
qed

lemma request_log_fetch_covers:
  assumes "request_log_fetch f s = Done s'" and "unsynced R U tail s" and "env_ok R (inbox s) s"
  shows "\<exists>rs V. covers f R rs U V tail s s' \<and> (f \<longrightarrow> V = [] \<and> rs \<noteq> [])"
  using assms
proof (induction f s arbitrary: R U rule: request_log_fetch.induct)
  case (1 f s)
  from "1.prems"(2) obtain p where p: "next_peer s = Some p" by (auto simp: unsynced_def)
  show ?case
  proof (cases "f \<or> pm_n_unsync_blk p > conf_log_prefetch_threshold (conf s)")
    case False
    with "1.prems" p have "s' = s" by (simp add: request_log_fetch.simps)
    with "1.prems" False show ?thesis
      by (intro exI [of _ "[]"] exI [of _ U]) (auto simp: covers_def issues_def)
  next
    case True
    with "1.prems"(1) p obtain ret t where
      c: "calculate_prefetch_meta (pm_local_start p) (pm_n_unsync_blk p) (pm_n_unsync p)
        (pm_n_unsync_upto_end p) (lsb_end (log_sb s)) f s = Done (ret, t)"
      and r: "(if ret = - EAGAIN then request_log_fetch f t else Done t) = Done s'"
      by (auto simp: request_log_fetch.simps [of f s] run_bind_Done_iff)
    obtain a V where cv: "covers f R [a] U V tail s t"
      and rt: "f \<and> ret = - EAGAIN \<or> ret = 0 \<and> (f \<longrightarrow> V = [])"
      by (rule calculate_prefetch_meta_covers [OF "1.prems"(2,3) p c])
    show ?thesis
    proof (cases "ret = - EAGAIN")
      case False
      with r rt cv show ?thesis by (intro exI [of _ "[a]"] exI [of _ V]) auto
    next
      case again: True
      from cv have u: "unsynced (R @ [a]) V tail t" "env_ok (R @ [a]) (inbox t) t"
        by (auto simp: covers_def)
      from again r have "request_log_fetch f t = Done s'" by simp
      from "1.IH" [OF p True c refl again this u] obtain rs W
        where "covers f (R @ [a]) rs V W tail t s'" "f \<longrightarrow> W = []" by auto
      with covers_trans [OF cv] show ?thesis by blast
    qed
  qed
qed

section \<open>Commits\<close>

lemma unsynced_wf_log:
  "unsynced R U (fl_next_avail_header (fslog s)) s \<Longrightarrow> wf_log s"
  by (auto simp: unsynced_def wf_log_def split: if_splits)

text \<open>A wrap moves the whole current lap before the recorded end.\<close>

lemma log_wrap_unsynced:
  assumes u: "unsynced R U (fl_next_avail_header (fslog s)) s" and p: "next_peer s = Some p"
    and cur: "cur_lap (lsb_end (log_sb s)) p" and ne: "log_begin s < fl_next_avail_header (fslog s)"
    and av: "fl_avail_version (fslog s) < 2 ^ 31 - 2"
  shows "unsynced R U (log_begin s) (log_wrap s)"
proof -
  let ?t = "fl_next_avail_header (fslog s)" and ?p' = "p\<lparr>pm_n_unsync_upto_end := pm_n_unsync p\<rparr>"
  from u p have n: "pm_n_unsync p = length U" "pm_n_unsync_blk p = glen U"
    and L: "layout U ?t (log_begin s) (lsb_end (log_sb s)) p"
    and rest: "fl_start_version (fslog s) \<le> nres R" "?t \<le> fl_size (fslog s)" "fl_size (fslog s) < 2 ^ 31"
      "rctx_begin s = log_begin s" "fl_avail_version (fslog s) = nres R"
    using cur by (auto simp: unsynced_def)
  from L cur have ch: "chain (pm_local_start p) U" "pm_local_start p + glen U = ?t"
    by (auto simp: layout_def cur_lap_def)
  have ws: "fslog (log_wrap s) = (fslog s)\<lparr>fl_next_avail_header := log_begin s,
        fl_avail_version := nres R + 1\<rparr>"
    "log_sb (log_wrap s) = (log_sb s)\<lparr>lsb_end := ?t - 1\<rparr>" "next_peer (log_wrap s) = Some ?p'"
    "rctx_begin (log_wrap s) = rctx_begin s" "log_begin (log_wrap s) = log_begin s"
    using rest ne p av by (simp_all add: log_wrap_def add_w_id sub_w_id log_begin_def)
  have e0: "?t - 1 \<noteq> 0" "?t - 1 + 1 = ?t" using ne by (auto simp: log_begin_def)
  have lay: "layout U (log_begin s) (log_begin s) (?t - 1) ?p'"
  proof (cases "U = []")
    case True
    then show ?thesis using ch e0 by (simp add: layout_def)
  next
    case False
    then show ?thesis unfolding layout_def using ch e0 n
      by (intro disjI2 conjI exI [of _ U] exI [of _ "[]"]) simp_all
  qed
  have nc: "\<not> cur_lap (?t - 1) ?p'" using ch e0 n by (cases U) (auto simp: cur_lap_def)
  show ?thesis
    unfolding unsynced_def ws using lay nc n rest ne e0 av by (auto simp: ws)
qed

lemma log_alloc_unsynced:
  assumes u: "unsynced R U (fl_next_avail_header (fslog s)) s" and ok: "env_ok R (inbox s) s"
    and p: "next_peer s = Some p" and nr: "nr \<le> log_cap s"
    and av: "fl_avail_version (fslog s) < 2 ^ 31 - 2"
    and cur: "fl_next_avail_header (fslog s) + nr > fl_size (fslog s) \<Longrightarrow> cur_lap (lsb_end (log_sb s)) p"
    and a: "log_alloc nr s = Done (blk, s')"
  shows "unsynced R U blk s'" and "env_ok R (inbox s') s'"
proof -
  note wf = unsynced_wf_log [OF u]
  let ?wrap = "fl_next_avail_header (fslog s) + nr > fl_size (fslog s)"
  let ?r = "snd (log_reserve nr s)"
  have blk: "blk = (if ?wrap then log_begin s else fl_next_avail_header (fslog s))"
    by (rule log_alloc_Done(1) [OF wf nr a])
  have "log_begin s < fl_next_avail_header (fslog s)" if ?wrap
    using that nr wf by (auto simp: log_cap_def wf_log_def)
  then have "unsynced R U blk (if ?wrap then log_wrap s else s)"
    using u log_wrap_unsynced [OF u p _ _ av] cur blk by auto
  then have "unsynced R U blk ?r" unfolding log_reserve_eq [OF wf nr] Let_def
    by (simp add: unsynced_def log_begin_def)
  moreover have "env_ok R (inbox ?r) ?r"
    using ok by (simp add: env_ok_def log_reserve_def Let_def log_wrap_def)
  moreover from a have "wait_until (\<lambda>s. \<not> log_full s) ?r = Done s'"
    by (auto simp: log_alloc_def run_map_Done_iff split: prod.splits)
  ultimately show "unsynced R U blk s'" "env_ok R (inbox s') s'" using wait_until_unsynced by blast+
qed

lemma add_group_unsynced:
  assumes u: "unsynced R U blk s" and p: "next_peer s = Some p"
    and n: "2 \<le> nr" "nr < 2 ^ 16" "blk + nr \<le> fl_size (fslog s)"
    and gap: "lsb_end (log_sb s) \<noteq> 0 \<longrightarrow> blk + nr \<le> lsb_end (log_sb s)"
  shows "unsynced R (U @ [(blk, nr)]) (blk + nr)
    (s\<lparr>next_peer := update_peer_sync_state nr 1 (next_peer s)\<rparr>)"
proof -
  let ?p' = "p\<lparr>pm_n_unsync_blk := glen U + nr, pm_n_unsync := length U + 1\<rparr>"
  from u p have nU: "pm_n_unsync p = length U" "pm_n_unsync_blk p = glen U" by (auto simp: unsynced_def)
  have up: "update_peer_sync_state nr 1 (next_peer s) = Some ?p'"
    using unsynced_bounds [OF u] n nU p by (simp add: update_peer_sync_state_def add_w_id)
  from u p have L: "layout U blk (log_begin s) (lsb_end (log_sb s)) p" by (auto simp: unsynced_def)
  have "layout (U @ [(blk, nr)]) (blk + nr) (log_begin s) (lsb_end (log_sb s)) ?p'"
    using L
  proof (cases rule: layoutE)
    case cur
    with n show ?thesis by (simp add: layout_def cur_lap_def)
  next
    case reset
    with n show ?thesis by (simp add: layout_def)
  next
    case (split U1 U2)
    with n show ?thesis unfolding layout_def
      by (intro disjI2 conjI exI [of _ U1] exI [of _ "U2 @ [(blk, nr)]"]) simp_all
  qed
  with u p n gap show ?thesis unfolding up by (auto simp: unsynced_def log_begin_def cur_lap_def)
qed

text \<open>When a transaction may be committed: well formed, small enough, and no second wrap while the
  peer has not passed the previous one.\<close>

definition tx_ok :: "libfs \<Rightarrow> bool" where
  "tx_ok s \<longleftrightarrow> wf_meta (lhm s) \<and> lm_is_hdr_allocated (lhm s) \<and> meta_ops (lhm s) \<noteq> [] \<and>
     (\<forall>e \<in> set (lh_entries (cur_loghdr (lhm s))). committable (fst e)) \<and>
     1 + ops_blocks (meta_ops (lhm s)) \<le> log_cap s \<and> 1 + ops_blocks (meta_ops (lhm s)) < 2 ^ 16 \<and>
     fl_avail_version (fslog s) < 2 ^ 31 - 2 \<and>
     (fl_next_avail_header (fslog s) + (1 + ops_blocks (meta_ops (lhm s))) > fl_size (fslog s) \<longrightarrow>
      (\<forall>p. next_peer s = Some p \<longrightarrow> cur_lap (lsb_end (log_sb s)) p))"

lemma unsynced_frame:
  assumes "frame s' = frame s"
  shows "unsynced R U tail s' = unsynced R U tail s"
  using frame_eqD [OF assms] by (simp add: unsynced_def log_begin_def)

lemma commit_log_covers:
  assumes u: "unsynced R U (fl_next_avail_header (fslog s)) s" and ok: "env_ok R (inbox s) s"
    and tx: "tx_ok s" and w: "write_tx s = Done s1"
    and gap: "lsb_end (log_sb s1) \<noteq> 0 \<longrightarrow> fl_next_avail_header (fslog s1) \<le> lsb_end (log_sb s1)"
    and c: "commit_log s = Done s'"
  obtains h1 rs T V where "lm_loghdr (lhm s1) = Some h1"
    and "issues False rs s s'" and "unsynced (R @ rs) V (fl_next_avail_header (fslog s')) s'"
    and "U @ [(lm_hdr_blkno (lhm s1), lh_nr_log_blocks h1)] = T @ V"
    and "asks rs T"
proof -
  let ?nr = "1 + ops_blocks (meta_ops (lhm s))"
  have ne: "meta_ops (lhm s) \<noteq> []" and alh: "lm_is_hdr_allocated (lhm s)"
    using tx unfolding tx_ok_def by blast+
  obtain h where h: "lm_loghdr (lhm s) = Some h"
    using ne by (cases "lm_loghdr (lhm s)") (simp_all add: meta_ops_def)
  have cur: "cur_loghdr (lhm s) = h" by (simp add: cur_loghdr_def h)
  note wf = unsynced_wf_log [OF u]
  from tx have T: "wf_meta (lhm s)" "\<forall>e \<in> set (lh_entries h). committable (fst e)"
    "?nr \<le> log_cap s" "?nr < 2 ^ 16" "fl_avail_version (fslog s) < 2 ^ 31 - 2"
    unfolding tx_ok_def cur by blast+
  obtain blk h1 sbw body hw a1 where lay: "tx_layout s s1 blk h1 sbw body hw"
    and alc: "log_alloc ?nr s = Done (blk, a1)" and fr: "frame s1 = frame a1"
    and h1: "lm_loghdr (lhm s1) = Some h1" and bk: "lm_hdr_blkno (lhm s1) = blk"
    by (rule write_tx_Done [OF wf T(1) h T(2-4) w])
  obtain p where p: "next_peer s = Some p" using u by (auto simp: unsynced_def)
  have gw: "fl_next_avail_header (fslog s) + ?nr > fl_size (fslog s) \<Longrightarrow> cur_lap (lsb_end (log_sb s)) p"
    using tx p by (simp add: tx_ok_def)
  note A = log_alloc_unsynced [OF u ok p T(3,5) gw alc] and F = log_alloc_fields [OF wf T(3) alc]
  have E: "fslog s1 = fslog a1" "log_sb s1 = log_sb a1" "next_peer s1 = next_peer a1" "inbox s1 = inbox a1"
    "sent s1 = sent a1" "pf_queue s1 = pf_queue a1" "conf s1 = conf a1" using frame_eqD [OF fr] by auto
  have u1: "unsynced R U blk s1" using A(1) unsynced_frame [OF fr] by simp
  obtain q where q: "next_peer s1 = Some q" using u1 by (auto simp: unsynced_def)
  have nr: "lh_nr_log_blocks h1 = ?nr" using lay unfolding tx_layout_def by blast
  have n2: "2 \<le> ?nr"
  proof -
    obtain x xs where x: "meta_ops (lhm s) = x # xs" using ne by (cases "meta_ops (lhm s)") auto
    show ?thesis unfolding x ops_blocks_simps using op_blocks_pos [of x] by linarith
  qed
  let ?s2 = "s1\<lparr>next_peer := update_peer_sync_state ?nr 1 (next_peer s1)\<rparr>"
  have na: "fl_next_avail_header (fslog s1) = blk + ?nr" using F(1) E by simp
  have u2: "unsynced R (U @ [(blk, ?nr)]) (blk + ?nr) ?s2"
    using gap F(2,7) E na n2 T(4) by (intro add_group_unsynced [OF u1 q]) simp_all
  have ok2: "env_ok R (inbox ?s2) ?s2" using A(2) E by (simp add: env_ok_def)
  have "lh_n h \<noteq> 0" using ne length_meta_ops(1) [OF T(1) h] by (metis length_0_conv)
  then have "run_bind (if conf_log_prefetching (conf ?s2) \<and> next_peer ?s2 \<noteq> None
      then request_log_fetch False ?s2 else Done ?s2) (\<lambda>s3. Done (count_digest ?nr s3)) = Done s'"
    using c unfolding commit_log_def
    by (simp only: h w h1 nr alh Let_def run_bind_simps option.case if_False simp_thms)
  then obtain s3 where s3: "(if conf_log_prefetching (conf ?s2) \<and> next_peer ?s2 \<noteq> None
      then request_log_fetch False ?s2 else Done ?s2) = Done s3" and s': "s' = count_digest ?nr s3"
    unfolding run_bind_Done_iff by blast
  have "\<exists>rs V. covers False R rs (U @ [(blk, ?nr)]) V (blk + ?nr) ?s2 s3"
  proof (cases "conf_log_prefetching (conf ?s2) \<and> next_peer ?s2 \<noteq> None")
    case True
    from request_log_fetch_covers [OF s3 [unfolded if_P [OF True]] u2 ok2] show ?thesis by blast
  next
    case False
    have "s3 = ?s2" using s3 [unfolded if_not_P [OF False]] by (simp only: run.inject)
    then show ?thesis using u2 ok2
      by (intro exI [of _ "[]"] exI [of _ "U @ [(blk, ?nr)]"]) (simp only: covers_def issues_def, simp)
  qed
  then obtain rs V where cv: "covers False R rs (U @ [(blk, ?nr)]) V (blk + ?nr) ?s2 s3" by blast
  have "same_meta (snd (log_reserve ?nr s)) a1" by (rule log_alloc_Done(2) [OF wf T(3) alc])
  then have q0: "sent a1 = sent s" "pf_queue a1 = pf_queue s"
    by (simp_all add: same_meta_def log_reserve_def Let_def log_wrap_def)
  from cv have C: "issues False rs ?s2 s3" "unsynced (R @ rs) V (blk + ?nr) s3"
    "fl_next_avail_header (fslog s3) = blk + ?nr"
    unfolding covers_def using na by simp_all
  from cv obtain X where X: "U @ [(blk, ?nr)] = X @ V" "asks rs X"
    unfolding covers_def by blast
  have "issues False rs s s'" using C(1) E(5,6) q0 by (simp add: issues_def s' count_digest_def)
  moreover have "unsynced (R @ rs) V (fl_next_avail_header (fslog s')) s'"
    by (rule unsynced_cong [of "R @ rs" V _ s3])
      (use C(2,3) in \<open>simp_all add: s' count_digest_def same_unsync_def\<close>)
  ultimately show thesis using that [OF h1] X unfolding bk nr by blast
qed

section \<open>Runs of a process\<close>

text \<open>The part of the state that the file system code between commits does not touch.\<close>

definition log_view :: "libfs \<Rightarrow> _" where
  "log_view s = (fl_size (fslog s), fl_log_sb_blk (fslog s), fl_next_avail_header (fslog s),
     fl_start_version (fslog s), fl_avail_version (fslog s), lsb_end (log_sb s), next_peer s,
     rctx_begin s, sent s, pf_queue s)"

text \<open>
  \<open>reach ord G R s\<close>: \<open>s\<close> is reached with the groups \<open>G\<close> committed and the requests \<open>R\<close> made, in
  this order. With \<open>ord\<close>, an fsync is only issued when no request waits in the thread
  pool. \<open>local\<close> stands for opening a transaction, adding to it, and the arrival of
  messages.
\<close>

inductive reach :: "bool \<Rightarrow> group list \<Rightarrow> prefetch_arg list \<Rightarrow> libfs \<Rightarrow> bool" for ord where
  init: "log_start + (log_id + 1) * g_log_size < 2 ^ 31 \<Longrightarrow> 0 < log_start \<Longrightarrow>
    reach ord [] [] (init_libfs log_start log_id sb0 cfg ic es)"
| local: "reach ord G R s \<Longrightarrow> log_view s' = log_view s \<Longrightarrow> reach ord G R s'"
| commit: "reach ord G R s \<Longrightarrow> env_ok R (inbox s) s \<Longrightarrow> tx_ok s \<Longrightarrow> write_tx s = Done s1 \<Longrightarrow>
    lm_loghdr (lhm s1) = Some h1 \<Longrightarrow>
    (lsb_end (log_sb s1) \<noteq> 0 \<longrightarrow> fl_next_avail_header (fslog s1) \<le> lsb_end (log_sb s1)) \<Longrightarrow>
    commit_log s = Done s' \<Longrightarrow> issues False rs s s' \<Longrightarrow>
    reach ord (G @ [(lm_hdr_blkno (lhm s1), lh_nr_log_blocks h1)]) (R @ rs) s'"
| fsync: "reach ord G R s \<Longrightarrow> env_ok R (inbox s) s \<Longrightarrow> (ord \<longrightarrow> pf_queue s = []) \<Longrightarrow>
    replicate_log_by_fsync s = Done s' \<Longrightarrow> issues True rs s s' \<Longrightarrow> reach ord G (R @ rs) s'"
| event: "reach ord G R s \<Longrightarrow> env_ok R [e] s \<Longrightarrow> handle_event e s = Done s' \<Longrightarrow> reach ord G R s'"
| worker: "reach ord G R s \<Longrightarrow> pf_worker s = Done s' \<Longrightarrow> reach ord G R s'"

definition request_inv :: "group list \<Rightarrow> prefetch_arg list \<Rightarrow> libfs \<Rightarrow> bool" where
  "request_inv G R s \<longleftrightarrow> (\<exists>T U. G = T @ U \<and> unsynced R U (fl_next_avail_header (fslog s)) s \<and> asks R T)"

lemma init_libfs_unsynced:
  assumes "log_start + (log_id + 1) * g_log_size < 2 ^ 31" and "0 < log_start"
    and s_def: "s = init_libfs log_start log_id sb0 cfg ic es"
  shows "unsynced [] [] (fl_next_avail_header (fslog s)) s"
proof -
  have ids: "add64 log_start (log_id * g_log_size) = log_start + log_id * g_log_size"
    "add64 (log_start + log_id * g_log_size) g_log_size = log_start + log_id * g_log_size + g_log_size"
    "add64 (log_start + log_id * g_log_size) 1 = log_start + log_id * g_log_size + 1"
    using assms(1) by (simp_all add: add_w_def algebra_simps g_log_size_def)
  show ?thesis
    unfolding s_def init_libfs_def init_log_def Let_def ids unsynced_def
    using assms(1,2) ids by (simp add: write_log_superblock_def mlfs_write_def init_peer_def layout_def
        cur_lap_def log_begin_def algebra_simps) (simp add: g_log_size_def)
qed

lemma request_inv_commit:
  assumes i: "request_inv G R s"
    and c: "env_ok R (inbox s) s" "tx_ok s" "write_tx s = Done s1"
      "lsb_end (log_sb s1) \<noteq> 0 \<longrightarrow> fl_next_avail_header (fslog s1) \<le> lsb_end (log_sb s1)"
      "commit_log s = Done s'"
    and h1: "lm_loghdr (lhm s1) = Some h1" and rs: "issues False rs s s'"
  shows "request_inv (G @ [(lm_hdr_blkno (lhm s1), lh_nr_log_blocks h1)]) (R @ rs) s'"
proof -
  from i obtain T U where I: "G = T @ U" "unsynced R U (fl_next_avail_header (fslog s)) s" "asks R T"
    by (auto simp: request_inv_def)
  obtain h' rs' X V where C: "lm_loghdr (lhm s1) = Some h'" "issues False rs' s s'"
    "unsynced (R @ rs') V (fl_next_avail_header (fslog s')) s'"
    "U @ [(lm_hdr_blkno (lhm s1), lh_nr_log_blocks h')] = X @ V"
    "asks rs' X"
    by (rule commit_log_covers [OF I(2) c])
  have "rs' = rs" using C(2) rs by (auto simp: issues_def)
  with C I h1 show ?thesis unfolding request_inv_def
    by (intro exI [of _ "T @ X"] exI [of _ V]) (simp add: asks_append)
qed

lemma request_inv_fsync:
  assumes i: "request_inv G R s" and ok: "env_ok R (inbox s) s"
    and f: "replicate_log_by_fsync s = Done s'" and rs: "issues True rs s s'"
  shows "request_inv G (R @ rs) s'"
proof -
  from i obtain T U where I: "G = T @ U" "unsynced R U (fl_next_avail_header (fslog s)) s" "asks R T"
    by (auto simp: request_inv_def)
  then obtain p where "next_peer s = Some p" by (auto simp: unsynced_def)
  with f have "request_log_fetch True s = Done s'" by (simp add: replicate_log_by_fsync_def)
  from request_log_fetch_covers [OF this I(2) ok] obtain rs' V X where C: "issues True rs' s s'"
    "unsynced (R @ rs') V (fl_next_avail_header (fslog s)) s'"
    "fl_next_avail_header (fslog s') = fl_next_avail_header (fslog s)" "U = X @ V" "asks rs' X"
    by (auto simp: covers_def)
  have "rs' = rs" using C(1) rs by (auto simp: issues_def)
  with C I show ?thesis unfolding request_inv_def
    by (intro exI [of _ "T @ X"] exI [of _ V]) (simp add: asks_append)
qed

lemma pf_worker_Done:
  assumes "pf_worker s = Done s'"
  obtains a q where "pf_queue s = a # q" "pf_queue s' = q" "map snd (sent s') = map snd (sent s) @ [a]"
    and "\<And>R U tail. unsynced R U tail s \<Longrightarrow> unsynced R U tail s'"
    and "fl_next_avail_header (fslog s') = fl_next_avail_header (fslog s)"
proof -
  from assms obtain a q where q: "pf_queue s = a # q" "send_log_prefetch_msg a (s\<lparr>pf_queue := q\<rparr>) = Done s'"
    by (auto simp: pf_worker_def split: list.splits)
  note F = send_log_prefetch_msg_fields [OF q(2)]
  have "unsynced R U tail s'" if "unsynced R U tail s" for R U tail
    by (rule send_log_prefetch_msg_Done(1) [OF q(2)], rule unsynced_cong [OF that])
       (simp_all add: same_unsync_def)
  with q F that show thesis by (auto simp: issues_def)
qed

lemma request_inv_step:
  assumes "request_inv G R s" and "\<And>U tail. unsynced R U tail s \<Longrightarrow> unsynced R U tail s'"
    and "fl_next_avail_header (fslog s') = fl_next_avail_header (fslog s)"
  shows "request_inv G R s'"
  using assms unfolding request_inv_def by metis

lemma reach_inv: "reach ord G R s \<Longrightarrow> request_inv G R s"
proof (induction rule: reach.induct)
  case (init log_start log_id sb0 cfg ic es)
  then show ?case using init_libfs_unsynced by (simp add: request_inv_def)
next
  case (local G R s s')
  then have "unsynced R U tail s \<Longrightarrow> unsynced R U tail s'" for U tail
    by (simp add: unsynced_def log_view_def log_begin_def)
  with local show ?case by (auto simp: log_view_def intro: request_inv_step)
next
  case (commit G R s s1 h1 s' rs)
  then show ?case by (intro request_inv_commit) auto
next
  case (fsync G R s s' rs)
  then show ?case by (intro request_inv_fsync)
next
  case (event G R s e s')
  then have "unsynced R U tail s \<Longrightarrow> unsynced R U tail s'" for U tail
    using handle_event_unsynced(1) by blast
  with event handle_event_same_meta [of e s s'] show ?case
    by (auto simp: same_meta_def intro: request_inv_step)
next
  case (worker G R s s')
  then show ?case by (auto elim!: pf_worker_Done intro: request_inv_step)
qed



section \<open>A concrete run\<close>

text \<open>A background fetch is never retried.\<close>

lemma request_log_fetch_background:
  "request_log_fetch False s =
     (case next_peer s of
        None \<Rightarrow> Failed (NullDeref ''get_next_peer()'')
      | Some p \<Rightarrow>
          if pm_n_unsync_blk p > conf_log_prefetch_threshold (conf s)
          then run_map snd (calculate_prefetch_meta (pm_local_start p) (pm_n_unsync_blk p) (pm_n_unsync p)
                   (pm_n_unsync_upto_end p) (lsb_end (log_sb s)) False s)
          else Done s)"
proof -
  have "ret = 0" if "calculate_prefetch_meta a b c d e False s = Done (ret, t)" for a b c d e ret t
    using that by (auto simp: calculate_prefetch_meta_def Let_def run_bind_Done_iff)
  then have "run_bind (calculate_prefetch_meta a b c d e False s)
      (\<lambda>(ret, s1). if ret = - EAGAIN then request_log_fetch False s1 else Done s1) =
      run_map snd (calculate_prefetch_meta a b c d e False s)" for a b c d e
    by (cases "calculate_prefetch_meta a b c d e False s") (fastforce simp: EAGAIN_def)+
  then show ?thesis by (simp add: request_log_fetch.simps [of False s] split: option.splits)
qed

definition eager_tx :: libfs where
  "eager_tx = demo_tx\<lparr>conf := demo_conf\<lparr>conf_log_prefetch_threshold := 1\<rparr>\<rparr>"

definition eager_request :: prefetch_arg where
  "eager_request = \<lparr>pf_start = 1001, pf_n_blk = 2, pf_n = 1, pf_reset_meta = False, pf_is_fsync = False\<rparr>"

lemma eager_tx_commit:
  "\<exists>s1 h1 s'. write_tx eager_tx = Done s1 \<and> lm_loghdr (lhm s1) = Some h1 \<and> lm_hdr_blkno (lhm s1) = 1001 \<and>
     lh_nr_log_blocks h1 = 2 \<and> lsb_end (log_sb s1) = 0 \<and> commit_log eager_tx = Done s' \<and>
     issues False [eager_request] eager_tx s' \<and> pf_queue s' = [eager_request] \<and>
     next_peer s' = Some ((init_peer 0 1001)\<lparr>pm_local_start := 1003\<rparr>) \<and> fetch_seqn s' = 0 \<and>
     \<not> rate_limit_flag s' \<and> lsb_end (log_sb s') = 0 \<and> conf_persist_nvm_with_clflush (conf s') \<and>
     fl_start_version (fslog s') = 0"
  by (simp add: eager_tx_def demo_simps libfs_eval commit_log_def request_log_fetch_background
      update_peer_sync_state_def calculate_prefetch_meta_def prefetch_meta_def upd_peer_def
      send_log_prefetch_request_def limit_prefetch_rate_def with_peer_def LIMIT_PREFETCH_THRESHOLD_def
      count_digest_def issues_def eager_request_def)

lemma eager_reach:
  "\<exists>s. reach True [(1001, 2)] [eager_request] s \<and> pf_queue s = [eager_request] \<and>
     next_peer s = Some ((init_peer 0 1001)\<lparr>pm_local_start := 1003\<rparr>) \<and> fetch_seqn s = 0 \<and>
     \<not> rate_limit_flag s \<and> lsb_end (log_sb s) = 0 \<and> conf_persist_nvm_with_clflush (conf s) \<and>
     fl_start_version (fslog s) = 0"
proof -
  have r: "reach True [] [] demo_init"
    unfolding demo_init_def by (rule reach.init) (simp_all add: g_log_size_def)
  have r1: "reach True [] [] eager_tx"
    by (rule reach.local [OF r]) (simp add: eager_tx_def demo_tx_def log_view_def)
  obtain s1 h1 s' where c: "write_tx eager_tx = Done s1" "lm_loghdr (lhm s1) = Some h1"
    "lm_hdr_blkno (lhm s1) = 1001" "lh_nr_log_blocks h1 = 2" "lsb_end (log_sb s1) = 0"
    "commit_log eager_tx = Done s'" "issues False [eager_request] eager_tx s'"
    and f: "pf_queue s' = [eager_request]" "next_peer s' = Some ((init_peer 0 1001)\<lparr>pm_local_start := 1003\<rparr>)"
      "fetch_seqn s' = 0" "\<not> rate_limit_flag s'" "lsb_end (log_sb s') = 0"
      "conf_persist_nvm_with_clflush (conf s')" "fl_start_version (fslog s') = 0"
    using eager_tx_commit by blast
  have e: "lhm eager_tx = demo_lhm" "log_cap eager_tx = 131071"
    "fl_next_avail_header (fslog eager_tx) = 1001" "fl_size (fslog eager_tx) = 132072"
    "fl_avail_version (fslog eager_tx) = 0" "fl_start_version (fslog eager_tx) = 0" "inbox eager_tx = []"
    by (simp_all add: eager_tx_def demo_simps log_cap_def log_begin_def)
  have l: "lhm demo_tx = demo_lhm" by (simp add: demo_tx_def)
  have b: "ops_blocks (meta_ops demo_lhm) = 1" "meta_ops demo_lhm \<noteq> []"
    using demo_tx_facts(4) by (simp_all add: l g_block_size_bytes_def)
  have "\<forall>e \<in> set (lh_entries (cur_loghdr demo_lhm)). committable (fst e)"
    by (simp add: cur_loghdr_def lh_entries_def committable_def)
  then have t: "tx_ok eager_tx" using demo_tx_facts(2) b(2) unfolding tx_ok_def e l b(1) by simp
  have ok: "env_ok [] (inbox eager_tx) eager_tx" by (simp add: env_ok_def e)
  have "reach True ([] @ [(lm_hdr_blkno (lhm s1), lh_nr_log_blocks h1)]) ([] @ [eager_request]) s'"
    by (rule reach.commit [OF r1 ok t c(1,2) _ c(6,7)]) (simp only: c(5) simp_thms)
  then show ?thesis unfolding c(3,4) append_Nil using f by blast
qed

text \<open>An fsync right after the commit, with both acknowledgements on their way.\<close>

lemma eager_fsync:
  "\<exists>s s'. reach True [(1001, 2)] [eager_request] s \<and> env_ok [eager_request] (inbox s) s \<and>
     pf_queue s = [eager_request] \<and> replicate_log_by_fsync s = Done s'"
proof -
  obtain t where t: "reach True [(1001, 2)] [eager_request] t" "pf_queue t = [eager_request]"
    "next_peer t = Some ((init_peer 0 1001)\<lparr>pm_local_start := 1003\<rparr>)" "fetch_seqn t = 0"
    "\<not> rate_limit_flag t" "lsb_end (log_sb t) = 0" "conf_persist_nvm_with_clflush (conf t)"
    "fl_start_version (fslog t) = 0"
    using eager_reach by blast
  let ?s = "t\<lparr>inbox := [Ev_FsyncAck1, Ev_FsyncAck2]\<rparr>"
  have "reach True [(1001, 2)] [eager_request] ?s"
    by (rule reach.local [OF t(1)]) (simp add: log_view_def)
  moreover have "env_ok [eager_request] (inbox ?s) ?s" using t(8) by (simp add: env_ok_def)
  moreover have "\<exists>s'. calculate_prefetch_meta 1003 0 0 0 0 True ?s = Done (0, s')"
    using t by (simp add: calculate_prefetch_meta_def prefetch_meta_def upd_peer_def Let_def init_peer_def
        add_w_def sub_w_def rpc_alloc_ack_bit_def send_log_prefetch_request_def limit_prefetch_rate_def
        with_peer_def wait_until_def await.simps LIMIT_PREFETCH_THRESHOLD_def send_log_prefetch_msg_def
        generate_fetch_seqn_def await_fsync_acks_def fsync_acked_def)
  then have "\<exists>s'. replicate_log_by_fsync ?s = Done s'"
    using t(3,6) by (auto simp: replicate_log_by_fsync_def request_log_fetch.simps [of True ?s] init_peer_def EAGAIN_def)
  ultimately show ?thesis using t(2) by auto
qed

section \<open>Properties\<close>





text \<open>C27. An fsync overtakes queued requests. When an fsync returns while earlier requests wait in
  the thread pool, its own requests, which are for later log blocks, have been sent, and
  so carry smaller sequence numbers, while the earlier ones still wait.\<close>

theorem fsync_overtakes_queue:
  assumes "reach ord G R s" and "env_ok R (inbox s) s" and "pf_queue s \<noteq> []"
    and "replicate_log_by_fsync s = Done s'"
  shows "\<exists>rs. rs \<noteq> [] \<and> map snd (sent s') = map snd (sent s) @ rs \<and> pf_queue s' = pf_queue s"
proof -
  from reach_inv [OF assms(1)] obtain U where u: "unsynced R U (fl_next_avail_header (fslog s)) s"
    by (auto simp: request_inv_def)
  then obtain p where "next_peer s = Some p" by (auto simp: unsynced_def)
  with assms(4) have "request_log_fetch True s = Done s'" by (simp add: replicate_log_by_fsync_def)
  from request_log_fetch_covers [OF this u assms(2)] show ?thesis
    by (auto simp: covers_def issues_def)
qed

theorem fsync_overtakes_queue_witness:
  "\<exists>s s' rs. pf_queue s = [eager_request] \<and> replicate_log_by_fsync s = Done s' \<and> rs \<noteq> [] \<and>
     map snd (sent s') = map snd (sent s) @ rs \<and> pf_queue s' = [eager_request]"
proof -
  obtain s s' where s: "reach True [(1001, 2)] [eager_request] s" "env_ok [eager_request] (inbox s) s"
    "pf_queue s = [eager_request]" "replicate_log_by_fsync s = Done s'"
    using eager_fsync by blast
  have "pf_queue s \<noteq> []" using s(3) by simp
  from fsync_overtakes_queue [OF s(1,2) this s(4)] s(3,4) show ?thesis by metis
qed

end
