(* ===== verification/File.thy ===== *)
theory File
  imports Prefetch
begin

text \<open>
  Open files: the table of open files, reading and writing.

  Models \<open>struct file\<close>, \<open>mlfs_file_alloc\<close>, \<open>mlfs_file_close\<close>, \<open>mlfs_file_read\<close>,
  \<open>mlfs_file_read_offset\<close> and \<open>mlfs_file_write\<close> of \<open>libfs/src/filesystem/file.c\<close>. The body of
  \<open>readi\<close> is an argument of the read functions. A write is split into an unaligned first
  part, aligned parts of at most 128 MB and an unaligned last part; the lemmas show that
  the parts follow each other without gap, that together they are the user's buffer, and
  that each of them has the shape that the log writer insists on.
\<close>

section \<open>Open files\<close>

datatype fd_type = FD_NONE | FD_PIPE | FD_INODE | FD_DIR

record mlfs_file =
  f_type :: fd_type
  f_fd :: nat
  f_ref :: int
  f_readable :: bool
  f_writable :: bool
  f_ip :: nat
  f_off :: nat

definition zero_file :: mlfs_file where
  "zero_file = \<lparr>f_type = FD_NONE, f_fd = 0, f_ref = 0, f_readable = False, f_writable = False,
     f_ip = 0, f_off = 0\<rparr>"

definition EPERM :: int where "EPERM = 1"

fun find_free_fd :: "nat \<Rightarrow> mlfs_file list \<Rightarrow> nat option" where
  "find_free_fd i [] = None"
| "find_free_fd i (f # fs) = (if f_ref f = 0 then Some i else find_free_fd (Suc i) fs)"

definition mlfs_file_alloc :: "mlfs_file list \<Rightarrow> (nat \<times> mlfs_file list) option" where
  "mlfs_file_alloc open_files =
     (case find_free_fd 0 open_files of
        None \<Rightarrow> None
      | Some i \<Rightarrow> Some (i, open_files[i := zero_file\<lparr>f_ref := 1, f_fd := i\<rparr>]))"

text \<open>The second result is the inode to release with \<open>iput\<close>, if this was the last reference.\<close>

definition mlfs_file_close :: "mlfs_file \<Rightarrow> (mlfs_file \<times> nat option) run" where
  "mlfs_file_close f =
     mlfs_assert (f_ref f > 0) ''f->ref > 0''
       (let r = f_ref f - 1
        in if r > 0 then Done (f\<lparr>f_ref := r\<rparr>, None)
           else Done (f\<lparr>f_ref := 0, f_type := FD_NONE\<rparr>, Some (f_ip f)))"

section \<open>Reading\<close>

definition mlfs_file_read ::
  "(nat \<Rightarrow> nat \<Rightarrow> nat \<Rightarrow> int) \<Rightarrow> icache \<Rightarrow> mlfs_file \<Rightarrow> nat \<Rightarrow> (int \<times> mlfs_file) run" where
  "mlfs_file_read readi ic f n =
     (if \<not> f_readable f then Done (- EPERM, f)
      else if f_type f = FD_INODE then
        (case ic (f_ip f) of
           None \<Rightarrow> Failed (NullDeref ''f->ip'')
         | Some ip \<Rightarrow>
             if f_off f \<ge> di_size (i_dinode ip) then Done (0, f)
             else let r = readi (f_ip f) (f_off f) n
                  in if r < 0 then Failed (Panic ''read error'')
                     else Done (r, f\<lparr>f_off := add64 (f_off f) (nat r)\<rparr>))
      else Failed (Panic ''mlfs_file_read''))"

definition mlfs_file_read_offset ::
  "(nat \<Rightarrow> nat \<Rightarrow> nat \<Rightarrow> int) \<Rightarrow> icache \<Rightarrow> mlfs_file \<Rightarrow> nat \<Rightarrow> nat \<Rightarrow> int run" where
  "mlfs_file_read_offset readi ic f n off =
     (if \<not> f_readable f then Done (- EPERM)
      else if f_type f = FD_INODE then
        (case ic (f_ip f) of
           None \<Rightarrow> Failed (NullDeref ''f->ip'')
         | Some ip \<Rightarrow>
             if f_off f \<ge> di_size (i_dinode ip) then Done 0
             else let r = readi (f_ip f) off n
                  in if r < 0 then Failed (Panic ''read error'') else Done r)
      else Failed (Panic ''mlfs_file_read_offset''))"

section \<open>Writing\<close>

definition max_io_size :: nat where "max_io_size = 128 * 2 ^ 20"

text \<open>\<open>size_prepended\<close>, \<open>size_appended\<close>.\<close>

definition write_split :: "nat \<Rightarrow> nat \<Rightarrow> (nat \<times> nat) run" where
  "write_split off n =
     (let offset_end = add64 off n;
          offset_aligned = ALIGN off g_block_size_bytes
      in if offset_end < offset_aligned then Done (n, 0)
         else let pre = (if off < offset_aligned then sub64 offset_aligned off else 0)
              in mlfs_assert (pre < g_block_size_bytes) ''size_prepended < g_block_size_bytes''
                   (let a = sub64 (ALIGN offset_end g_block_size_bytes) offset_end
                    in Done (pre, if a > 0 then g_block_size_bytes - a else 0)))"

text \<open>Adding the part of the buffer at position \<open>i\<close>, as both unaligned parts do.\<close>

definition add_part :: "nat \<Rightarrow> nat \<Rightarrow> byte list \<Rightarrow> nat \<Rightarrow> nat \<Rightarrow> nat \<Rightarrow> logheader_meta \<Rightarrow> logheader_meta run" where
  "add_part log_size inum buf i off sz lm =
     add_to_log log_size L_TYPE_FILE inum (take sz (drop i buf)) off sz lm"

text \<open>The loop over aligned parts: \<open>m\<close> is \<open>n - size_appended\<close>.\<close>

function write_loop ::
  "nat \<Rightarrow> nat \<Rightarrow> byte list \<Rightarrow> nat \<Rightarrow> nat \<Rightarrow> nat \<Rightarrow> logheader_meta \<Rightarrow> (nat \<times> nat \<times> logheader_meta) run" where
  "write_loop log_size inum buf m i off lm =
     (if i < m then
        mlfs_assert (off mod g_block_size_bytes = 0) ''off % g_block_size_bytes == 0''
          (let io = min (cast_w 32 (m - i)) max_io_size
           in if io = 0 then Failed (Assertion ''off + size > off'')
              else run_bind (add_part log_size inum buf i off io lm)
                     (write_loop log_size inum buf m (i + io) (add64 off io)))
      else Done (i, off, lm))"
  by pat_completeness auto
termination
  by (relation "measure (\<lambda>(ls, inum, buf, m, i, off, lm). m - i)")
     (auto simp: max_io_size_def)

declare write_loop.simps [simp del]

text \<open>Between \<open>start_log_tx\<close> and \<open>commit_log_tx\<close>: the final position, offset and metadata.\<close>

definition file_write_tx ::
  "nat \<Rightarrow> nat \<Rightarrow> byte list \<Rightarrow> nat \<Rightarrow> nat \<Rightarrow> logheader_meta \<Rightarrow> (nat \<times> nat \<times> logheader_meta) run" where
  "file_write_tx log_size inum buf off n lm =
     run_bind (write_split off n) (\<lambda>(pre, app).
     run_bind (if pre > 0 then run_map (\<lambda>lm. (pre, add64 off pre, lm)) (add_part log_size inum buf 0 off pre lm)
               else Done (0, off, lm)) (\<lambda>(i, off1, lm1).
     run_bind (write_loop log_size inum buf (sub64 n app) i off1 lm1) (\<lambda>(i, off2, lm2).
       if app > 0 then run_map (\<lambda>lm. (i + app, add64 off2 app, lm)) (add_part log_size inum buf i off2 app lm2)
       else Done (i, off2, lm2))))"

definition set_inode_size :: "nat \<Rightarrow> nat \<Rightarrow> nat \<Rightarrow> icache \<Rightarrow> icache" where
  "set_inode_size inum off sz ic =
     ic(inum := map_option (\<lambda>ip. ip\<lparr>i_dinode := (i_dinode ip)
          \<lparr>di_size := grow_size off sz (di_size (i_dinode ip))\<rparr>\<rparr>) (ic inum))"

definition mlfs_file_write :: "mlfs_file \<Rightarrow> byte list \<Rightarrow> nat \<Rightarrow> libfs \<Rightarrow> (int \<times> mlfs_file \<times> libfs) run" where
  "mlfs_file_write f buf n s =
     (if \<not> f_writable f then Done (- EPERM, f, s)
      else if f_type f = FD_INODE then
        run_bind (start_log_tx s) (\<lambda>s1.
        run_bind (file_write_tx (fl_size (fslog s1)) (f_ip f) buf (f_off f) n (lhm s1)) (\<lambda>(i, off, lm).
          let s2 = s1\<lparr>lhm := lm, icache := set_inode_size (f_ip f) (f_off f) i (icache s1)\<rparr>
          in run_map (\<lambda>s3. (if i = n then int n else -1, f\<lparr>f_off := off\<rparr>, s3)) (commit_log_tx s2)))
      else Failed (Panic ''filewrite''))"

section \<open>The parts of a write\<close>

text \<open>A part is its file offset and its bytes.\<close>

type_synonym part = "nat \<times> byte list"

definition part_op :: "nat \<Rightarrow> part \<Rightarrow> log_op" where
  "part_op inum p = Op_Data L_TYPE_FILE inum (fst p) \<lparr>iov_base = snd p, iov_size = length (snd p)\<rparr>"

fun contig :: "nat \<Rightarrow> part list \<Rightarrow> bool" where
  "contig off [] \<longleftrightarrow> True"
| "contig off ((o', bs) # ps) \<longleftrightarrow> o' = off \<and> bs \<noteq> [] \<and> contig (off + length bs) ps"

text \<open>Going from \<open>lm\<close> to \<open>lm'\<close> adds parts that hold the bytes \<open>bs\<close> from offset \<open>off\<close> on.\<close>

definition adds_parts :: "nat \<Rightarrow> nat \<Rightarrow> byte list \<Rightarrow> logheader_meta \<Rightarrow> logheader_meta \<Rightarrow> bool" where
  "adds_parts inum off bs lm lm' \<longleftrightarrow> wf_meta lm' \<and>
     (\<exists>ps. meta_ops lm' = meta_ops lm @ map (part_op inum) ps \<and> contig off ps \<and>
        concat (map snd ps) = bs \<and> (\<forall>p \<in> set ps. op_fits (part_op inum p)))"

lemma contig_append [simp]:
  "contig off (ps @ qs) \<longleftrightarrow> contig off ps \<and> contig (off + length (concat (map snd ps))) qs"
  by (induction off ps rule: contig.induct) (auto simp: add.assoc)

lemma adds_parts_Nil: "wf_meta lm \<Longrightarrow> adds_parts inum off [] lm lm"
  unfolding adds_parts_def by (auto intro!: exI [of _ "[]"])

lemma adds_parts_trans:
  assumes "adds_parts inum off bs lm lm1" and "adds_parts inum (off + length bs) bs' lm1 lm2"
  shows "adds_parts inum off (bs @ bs') lm lm2"
proof -
  from assms obtain ps qs where p: "meta_ops lm1 = meta_ops lm @ map (part_op inum) ps" "contig off ps"
    "concat (map snd ps) = bs" "\<forall>p \<in> set ps. op_fits (part_op inum p)"
    "meta_ops lm2 = meta_ops lm1 @ map (part_op inum) qs" "contig (off + length bs) qs"
    "concat (map snd qs) = bs'" "\<forall>p \<in> set qs. op_fits (part_op inum p)"
    unfolding adds_parts_def by blast
  then show ?thesis using assms(2) unfolding adds_parts_def
    by (intro conjI exI [of _ "ps @ qs"]) auto
qed

lemma add_part_adds:
  assumes "add_part log_size inum buf i off sz lm = Done lm'" and "wf_meta lm"
    and "i + sz \<le> length buf" and "0 < sz"
    and "op_fits (part_op inum (off, take sz (drop i buf)))"
  shows "adds_parts inum off (take sz (drop i buf)) lm lm'"
proof -
  have len: "length (take sz (drop i buf)) = sz" using assms(3) by simp
  have "data_in_loghdr L_TYPE_FILE" by (simp add: data_in_loghdr_def)
  note D = add_to_log_Done [OF assms(2) this assms(1) [unfolded add_part_def]]
  show ?thesis unfolding adds_parts_def
    using D assms(4,5) len by (intro conjI exI [of _ "[(off, take sz (drop i buf))]"])
      (auto simp: part_op_def)
qed

lemma mod_cast_block: "cast_w 32 x mod g_block_size_bytes = x mod g_block_size_bytes"
proof -
  have "(4096::nat) dvd 2 ^ 32" by simp
  then show ?thesis unfolding cast_w_def g_block_size_bytes_def by (rule mod_mod_cancel)
qed

lemma max_io_aligned: "max_io_size mod g_block_size_bytes = 0"
  by (simp add: max_io_size_def g_block_size_bytes_def)

lemma take_drop_split:
  "k \<le> n \<Longrightarrow> take n (drop i xs) = take k (drop i xs) @ take (n - k) (drop (i + k) xs)"
  by (metis add.commute drop_drop le_add_diff_inverse take_add)

lemma write_loop_adds:
  assumes "write_loop log_size inum buf m i off lm = Done (i', off', lm')"
    and "wf_meta lm" and "i \<le> m" and "m \<le> length buf" and "(m - i) mod g_block_size_bytes = 0"
    and "off + (m - i) < 2 ^ 63"
  shows "i' = m \<and> off' = off + (m - i) \<and> adds_parts inum off (take (m - i) (drop i buf)) lm lm'"
  using assms
proof (induction log_size inum buf m i off lm rule: write_loop.induct)
  case (1 log_size inum buf m i off lm)
  let ?io = "min (cast_w 32 (m - i)) max_io_size"
  show ?case
  proof (cases "i < m")
    case False
    with "1.prems" show ?thesis by (auto simp: write_loop.simps [of log_size inum buf m i] adds_parts_Nil)
  next
    case True
    with "1.prems"(1) obtain lm1 where al: "off mod g_block_size_bytes = 0" and io: "?io \<noteq> 0"
      and a: "add_part log_size inum buf i off ?io lm = Done lm1"
      and r: "write_loop log_size inum buf m (i + ?io) (add64 off ?io) lm1 = Done (i', off', lm')"
      by (auto simp: write_loop.simps [of log_size inum buf m i] Let_def mlfs_assert_Done_iff
          run_bind_Done_iff split: if_splits)
    have le: "?io \<le> m - i" by (simp add: cast_w_def min.coboundedI1)
    have iom: "?io mod g_block_size_bytes = 0"
      using "1.prems"(5) mod_cast_block [of "m - i"] max_io_aligned by (simp add: min_def)
    have big: "g_block_size_bytes \<le> ?io"
      using iom io by (metis gr_zeroI mod_less not_less)
    have o64: "add64 off ?io = off + ?io" using le "1.prems"(6) by (intro add_w_id) simp
    have len: "length (take ?io (drop i buf)) = ?io" using le "1.prems"(3,4) by simp
    have fits: "op_fits (part_op inum (off, take ?io (drop i buf)))"
      using al iom big len by (simp add: part_op_def not_less)
    have A: "adds_parts inum off (take ?io (drop i buf)) lm lm1"
      using le "1.prems"(2-4) io by (intro add_part_adds [OF a _ _ _ fits]) auto
    have rest: "(m - (i + ?io)) mod g_block_size_bytes = 0"
      using "1.prems"(5) iom unfolding mod_eq_0_iff_dvd diff_diff_left [symmetric] by (rule dvd_diff_nat)
    have wf1: "wf_meta lm1" using A by (simp add: adds_parts_def)
    have le': "i + ?io \<le> m" "off + ?io + (m - (i + ?io)) < 2 ^ 63" using le True "1.prems"(6) by linarith+
    have B: "i' = m \<and> off' = off + ?io + (m - (i + ?io)) \<and>
        adds_parts inum (off + ?io) (take (m - (i + ?io)) (drop (i + ?io) buf)) lm1 lm'"
      using "1.IH" [OF True refl io a r wf1 le'(1) "1.prems"(4) rest] le'(2) unfolding o64 by blast
    have split: "take (m - i) (drop i buf) = take ?io (drop i buf) @ take (m - (i + ?io)) (drop (i + ?io) buf)"
      unfolding diff_diff_left [symmetric] by (rule take_drop_split [OF le])
    have "adds_parts inum off (take (m - i) (drop i buf)) lm lm'"
      unfolding split by (rule adds_parts_trans [OF A]) (use B in \<open>simp only: len\<close>)
    moreover have "off' = off + (m - i)" using B le'(1) by linarith
    ultimately show ?thesis using B by blast
  qed
qed

text \<open>The sizes of the unaligned parts.\<close>

lemma block_pos [simp]: "0 < g_block_size_bytes"
  by (simp add: g_block_size_bytes_def)

lemma write_split_Done:
  assumes "write_split off n = Done (pre, app)" and "off + n < 2 ^ 62"
  obtains (small) "pre = n" "app = 0" "off mod g_block_size_bytes + n \<le> g_block_size_bytes"
      "n < g_block_size_bytes"
    | (large) "pre + app \<le> n" "pre < g_block_size_bytes" "app < g_block_size_bytes"
      "(off + pre) mod g_block_size_bytes = 0" "(n - app - pre) mod g_block_size_bytes = 0"
      "pre = 0 \<or> off mod g_block_size_bytes + pre = g_block_size_bytes"
proof -
  let ?B = g_block_size_bytes
  let ?a = "ALIGN off ?B" and ?e = "ALIGN (off + n) ?B"
  have B: "?B = 4096" by (simp add: g_block_size_bytes_def)
  have a: "off \<le> ?a" "?a < off + ?B" "?a mod ?B = 0" "off + n \<le> ?e" "?e < off + n + ?B" "?e mod ?B = 0"
    by (simp_all add: ALIGN_ge ALIGN_less)
  have oe: "add64 off n = off + n" using assms(2) by (intro add_w_id) simp
  have amod: "off mod ?B + (?a - off) = ?B" if "off < ?a"
    by (rule align_gap [OF a(3) that a(2)])
  show thesis
  proof (cases "off + n < ?a")
    case True
    with assms(1) oe have "pre = n" "app = 0" by (auto simp: write_split_def)
    moreover have "off mod ?B + n \<le> ?B" "n < ?B" using True amod a(2) by linarith+
    ultimately show thesis using small by blast
  next
    case False
    have sp: "sub64 ?a off = ?a - off" "sub64 ?e (off + n) = ?e - (off + n)"
      using a assms(2) unfolding B by (auto intro!: sub_w_id)
    define d where "d = ?e - (off + n)"
    from False assms(1) oe sp have pre: "pre = ?a - off" and app: "app = (if d > 0 then ?B - d else 0)"
      by (auto simp: write_split_def Let_def mlfs_assert_Done_iff d_def split: if_splits)
    have "d < ?B" using a(4,5) unfolding d_def by linarith
    then have appB: "app < ?B" unfolding app by simp
    have fin: "(off + n - app) mod ?B = 0 \<and> ?a \<le> off + n - app \<and> app \<le> off + n"
    proof (cases "d > 0")
      case True
      then have "?a < ?e" using False unfolding d_def by linarith
      from multiple_step [OF a(3,6) this] have "?a + ?B \<le> ?e" .
      moreover from this have "off + n - app = ?e - ?B" "app \<le> off + n"
        using True \<open>d < ?B\<close> a(4) unfolding app d_def by auto
      moreover have "(?e - ?B) mod ?B = 0" using a(6) \<open>?a + ?B \<le> ?e\<close> by (simp add: le_mod_geq)
      ultimately show ?thesis by auto
    next
      case d0: False
      then have "off + n = ?e" using a(4) unfolding d_def by linarith
      with d0 a(6) False show ?thesis unfolding app by auto
    qed
    then have fin: "(off + n - app) mod ?B = 0" "?a \<le> off + n - app" "app \<le> off + n" by auto
    show thesis
    proof (rule large)
      show "pre + app \<le> n" using fin(2,3) a(1) unfolding pre by linarith
      show "pre < ?B" using a(1,2) unfolding pre by linarith
      show "app < ?B" by (rule appB)
      show "(off + pre) mod ?B = 0" using a(1,3) unfolding pre by simp
      have "n - app - pre = off + n - app - ?a" using fin(2,3) a(1) unfolding pre by linarith
      then show "(n - app - pre) mod ?B = 0"
        using fin(1) a(3) unfolding mod_eq_0_iff_dvd by (simp only: dvd_diff_nat)
      show "pre = 0 \<or> off mod ?B + pre = ?B" using amod a(1) unfolding pre by linarith
    qed
  qed
qed

lemma file_write_tx_adds:
  assumes w: "file_write_tx log_size inum buf off n lm = Done (i, off', lm')" and wf: "wf_meta lm"
    and len: "length buf = n" and n: "0 < n" and sz: "off + n < 2 ^ 62"
  shows "i = n \<and> off' = off + n \<and> adds_parts inum off buf lm lm'"
proof -
  from w obtain pre app i1 off1 lm1 i2 off2 lm2 where sp: "write_split off n = Done (pre, app)"
    and p1: "(if pre > 0 then run_map (\<lambda>lm. (pre, add64 off pre, lm)) (add_part log_size inum buf 0 off pre lm)
               else Done (0, off, lm)) = Done (i1, off1, lm1)"
    and p2: "write_loop log_size inum buf (sub64 n app) i1 off1 lm1 = Done (i2, off2, lm2)"
    and p3: "(if app > 0 then run_map (\<lambda>lm. (i2 + app, add64 off2 app, lm)) (add_part log_size inum buf i2 off2 app lm2)
               else Done (i2, off2, lm2)) = Done (i, off', lm')"
    by (auto simp: file_write_tx_def run_bind_Done_iff)
  have first: "i1 = pre \<and> off1 = off + pre \<and> adds_parts inum off (take pre buf) lm lm1"
    if "pre \<le> n" "pre > 0 \<Longrightarrow> pre < g_block_size_bytes \<and> off mod g_block_size_bytes + pre \<le> g_block_size_bytes"
  proof (cases "pre > 0")
    case True
    have fit: "op_fits (part_op inum (off, take pre (drop 0 buf)))"
      using that True len by (simp add: part_op_def)
    from p1 True have a: "add_part log_size inum buf 0 off pre lm = Done lm1"
      and e: "i1 = pre" "off1 = add64 off pre" by (auto simp: run_map_Done_iff)
    have "add64 off pre = off + pre" using sz that(1) by (intro add_w_id) simp
    with e add_part_adds [OF a wf _ True fit] that(1) len show ?thesis by simp
  next
    case False
    with p1 wf show ?thesis by (simp add: adds_parts_Nil)
  qed
  from sp sz show ?thesis
  proof (cases rule: write_split_Done)
    case small
    have s0: "sub64 n app = n" using small(2) sz by (simp add: sub_w_id)
    note F = first [unfolded small(1), OF order_refl]
    have F': "i1 = n \<and> off1 = off + n \<and> adds_parts inum off buf lm lm1" using F small(3,4) len by simp
    then have "write_loop log_size inum buf n n (off + n) lm1 = Done (i2, off2, lm2)" using p2 s0 by simp
    then have "i2 = n" "off2 = off + n" "lm2 = lm1" by (simp_all add: write_loop.simps)
    with p3 small(2) F' show ?thesis by simp
  next
    case large
    have F: "i1 = pre" "off1 = off + pre" "adds_parts inum off (take pre buf) lm lm1"
      using first large(1,2,6) by auto
    have pw: "(2::nat) ^ 62 < 2 ^ 63" "(2::nat) ^ 62 < 2 ^ 64" by simp_all
    have s0: "sub64 n app = n - app" using large(1) sz pw by (intro sub_w_id) linarith+
    have le: "pre \<le> n - app" "n - app \<le> length buf" "off + pre + (n - app - pre) < 2 ^ 63"
      using large(1) sz len pw by linarith+
    have wf1: "wf_meta lm1" using F(3) by (simp add: adds_parts_def)
    have M: "i2 = n - app \<and> off2 = off + pre + (n - app - pre) \<and>
        adds_parts inum (off + pre) (take (n - app - pre) (drop pre buf)) lm1 lm2"
      by (rule write_loop_adds [OF p2 [unfolded s0 F(1,2)] wf1 le(1,2) large(5) le(3)])
    have tp: "length (take pre buf) = pre" using le(1) len by simp
    have "take pre buf @ take (n - app - pre) (drop pre buf) = take (n - app) buf"
      using take_drop_split [OF le(1), of 0 buf] by simp
    with adds_parts_trans [OF F(3), of "take (n - app - pre) (drop pre buf)" lm2] M tp
    have A2: "adds_parts inum off (take (n - app) buf) lm lm2" by simp
    have o2: "off2 = off + (n - app)" using M le(1) by linarith
    show ?thesis
    proof (cases "app > 0")
      case False
      with p3 have "i = i2" "off' = off2" "lm' = lm2" by auto
      with False M A2 o2 len show ?thesis by simp
    next
      case True
      from p3 True have a: "add_part log_size inum buf i2 off2 app lm2 = Done lm'"
        and e: "i = i2 + app" "off' = add64 off2 app" by (auto simp: run_map_Done_iff)
      have i2: "i2 = n - app" using M by blast
      have "off2 = off + pre + (n - app - pre)" using M by blast
      then have al: "off2 mod g_block_size_bytes = 0"
        using large(4,5) by (metis add.right_neutral mod_add_left_eq mod_add_right_eq)
      have fit: "op_fits (part_op inum (off2, take app (drop (n - app) buf)))"
        using al large(1,3) len by (simp add: part_op_def)
      have wf2: "wf_meta lm2" using A2 by (simp add: adds_parts_def)
      have "adds_parts inum (off + (n - app)) (take app (drop (n - app) buf)) lm2 lm'"
        using add_part_adds [OF a [unfolded i2] wf2 _ True fit] large(1) len unfolding o2 by simp
      from adds_parts_trans [OF A2, of "take app (drop (n - app) buf)" lm'] this len large(1)
      have "adds_parts inum off (take (n - app) buf @ take app (drop (n - app) buf)) lm lm'" by simp
      moreover have "take (n - app) buf @ take app (drop (n - app) buf) = buf" using len large(1) by simp
      moreover have "add64 off2 app = off + n" using o2 sz large(1) by (subst add_w_id) auto
      ultimately show ?thesis using e large(1) unfolding i2 by simp
    qed
  qed
qed

section \<open>Transactions that are too large\<close>

text \<open>\<open>nr_log_blocks\<close> of a header has 16 bits, but the count it is set from has 32.\<close>

definition checked_op :: "log_op \<Rightarrow> bool" where
  "checked_op x \<longleftrightarrow> (case x of Op_Inode t inum \<Rightarrow> True
     | Op_Data t inum off v \<Rightarrow> g_block_size_bytes \<le> iov_size v)"

lemma persist_log_file_pos:
  "persist_log_file i k h s = Done s' \<Longrightarrow> g_block_size_bytes \<le> iov_size (lm_io_vec (lhm s) ! k) \<Longrightarrow>
   lm_pos (lhm s') \<le> lh_nr_log_blocks h"
  by (auto simp: persist_log_file_def Let_def mlfs_assert_Done_iff not_less split: option.splits if_splits)

lemma persist_log_inode_pos:
  "persist_log_inode i h s = Done s' \<Longrightarrow> lm_pos (lhm s') \<le> lh_nr_log_blocks h"
  by (auto simp: persist_log_inode_def Let_def mlfs_assert_Done_iff split: option.splits if_splits)

lemma persist_io_vec:
  "persist_log_file i k h s = Done s' \<Longrightarrow> lm_io_vec (lhm s') = lm_io_vec (lhm s)"
  "persist_log_inode i h s = Done s' \<Longrightarrow> lm_io_vec (lhm s') = lm_io_vec (lhm s)"
  by (auto simp: persist_log_file_def persist_log_inode_def Let_def mlfs_assert_Done_iff run_bind_Done_iff
      split: option.splits if_splits)

lemma persist_loop_pos:
  assumes "persist_loop (map fst es) i k h s = Done s'" and "es \<noteq> []"
    and "\<forall>e \<in> set es. committable (fst e)"
    and "length (filter (\<lambda>e. data_in_loghdr (fst e)) es) + k \<le> length (lm_io_vec (lhm s))"
    and "length (lm_io_vec (lhm s)) < 2 ^ 8"
    and "checked_op (last (entry_ops es (drop k (lm_io_vec (lhm s)))))"
  shows "lm_pos (lhm s') \<le> lh_nr_log_blocks h"
  using assms
proof (induction es arbitrary: i k s)
  case Nil
  then show ?case by simp
next
  case (Cons e es)
  obtain t inum dat where e: "e = (t, inum, dat)" by (cases e)
  have com: "\<forall>e \<in> set es. committable (fst e)" "committable t" using Cons.prems(3) e by auto
  show ?case
  proof (cases "data_in_loghdr t")
    case True
    have k: "k < length (lm_io_vec (lhm s))" using Cons.prems(4) e True by simp
    have k8: "add8 k 1 = Suc k" using k Cons.prems(5) by (simp add: add_w_id)
    let ?v = "lm_io_vec (lhm s) ! k" and ?rest = "entry_ops es (drop (Suc k) (lm_io_vec (lhm s)))"
    have ops: "entry_ops (e # es) (drop k (lm_io_vec (lhm s))) = Op_Data t inum dat ?v # ?rest"
      using e True Cons_nth_drop_Suc [OF k, symmetric] by simp
    obtain u where u: "persist_log_file i k h s = Done u" "persist_loop (map fst es) (Suc i) (Suc k) h u = Done s'"
      using Cons.prems(1) e True k8 by (cases t) (auto simp: data_in_loghdr_def run_bind_Done_iff)
    note io = persist_io_vec(1) [OF u(1)]
    have len: "length (filter (\<lambda>e. data_in_loghdr (fst e)) es) + Suc k \<le> length (lm_io_vec (lhm s))"
      using Cons.prems(4) e True by simp
    show ?thesis
    proof (cases "es = []")
      case True
      then have "s' = u" "g_block_size_bytes \<le> iov_size ?v" using u(2) Cons.prems(6) ops
        by (auto simp: checked_op_def)
      with persist_log_file_pos [OF u(1)] show ?thesis by simp
    next
      case False
      moreover have "length ?rest = length es" using len by (intro length_entry_ops) simp
      ultimately have "?rest \<noteq> []" by auto
      then show ?thesis using Cons.prems(5,6) ops len io
        by (intro Cons.IH [OF u(2) False com(1)]) auto
    qed
  next
    case False
    let ?rest = "entry_ops es (drop k (lm_io_vec (lhm s)))"
    have ops: "entry_ops (e # es) (drop k (lm_io_vec (lhm s))) = Op_Inode t inum # ?rest"
      using e False by simp
    obtain u where u: "persist_log_inode i h s = Done u" "persist_loop (map fst es) (Suc i) k h u = Done s'"
      using Cons.prems(1) e False com(2)
      by (cases t) (auto simp: data_in_loghdr_def committable_def run_bind_Done_iff)
    note io = persist_io_vec(2) [OF u(1)]
    have len: "length (filter (\<lambda>e. data_in_loghdr (fst e)) es) + k \<le> length (lm_io_vec (lhm s))"
      using Cons.prems(4) e False by simp
    show ?thesis
    proof (cases "es = []")
      case True
      with u persist_log_inode_pos [OF u(1)] show ?thesis by simp
    next
      case ne: False
      moreover have "length ?rest = length es" using len by (intro length_entry_ops) simp
      ultimately have "?rest \<noteq> []" by auto
      then show ?thesis using Cons.prems(5,6) ops len io
        by (intro Cons.IH [OF u(2) ne com(1)]) auto
    qed
  qed
qed

lemma write_tx_small:
  assumes wl: "wf_log s" and wm: "wf_meta (lhm s)" and h: "lm_loghdr (lhm s) = Some h"
    and com: "\<forall>e \<in> set (lh_entries h). committable (fst e)"
    and cap: "1 + ops_blocks (meta_ops (lhm s)) \<le> log_cap s" and sz: "fl_size (fslog s) < 2 ^ 32"
    and ne: "meta_ops (lhm s) \<noteq> []" and chk: "checked_op (last (meta_ops (lhm s)))"
    and tx: "write_tx s = Done s'"
  shows "1 + ops_blocks (meta_ops (lhm s)) < 2 ^ 16"
proof -
  let ?ops = "meta_ops (lhm s)" and ?nr = "1 + ops_blocks (meta_ops (lhm s))"
  have lt: "?nr < 2 ^ 32" using cap sz unfolding log_cap_def by linarith
  have nr: "add32 (ops_blocks ?ops) 1 = ?nr" using lt by (simp add: add_w_id)
  have clb: "compute_log_blocks (lhm s) = Done (ops_blocks ?ops)"
    using compute_log_blocks_eq [OF wm h com] lt by simp
  from tx obtain blk s1 s2 where al: "log_alloc ?nr s = Done (blk, s1)"
    and pb: "persist_log_blocks (place_header blk ?nr s1) = Done s2"
    unfolding write_tx_def clb run_bind_simps Let_def nr
    by (auto simp: run_bind_Done_iff simp del: One_nat_def)
  note F = log_alloc_fields [OF wl cap al]
  define t where "t = place_header blk ?nr s1"
  define h1 where "h1 = h\<lparr>lh_nr_log_blocks := cast16 ?nr, lh_inuse := LH_COMMIT_MAGIC\<rparr>"
  have t: "wf_meta (lhm t)" "meta_ops (lhm t) = ?ops" "lm_loghdr (lhm t) = Some h1"
    "lm_pos (lhm t) = 1" "lm_hdr_blkno (lhm t) = blk"
    using wm h F(5) by (simp_all add: t_def place_header_meta h1_def del: One_nat_def)
  have com1: "\<forall>e \<in> set (lh_entries h1). committable (fst e)" using com by (simp add: h1_def)
  have bsz: "blk + ?nr < 2 ^ 32" using F(7) sz by linarith
  have run: "body_run 0 (meta_ops (lhm t)) t s2"
    using lt bsz by (intro persist_log_blocks_body [OF pb [folded t_def] t(1,3) com1]) (simp_all add: t)
  then have pos: "lm_pos (lhm s2) = ?nr" by (simp add: body_run_def t)
  have wfh: "wf_loghdr h1" and l10: "length (lm_io_vec (lhm t)) = 10" using t(1,3) by (simp_all add: wf_meta_def)
  have ty: "take (lh_n h1) (lh_type h1) = map fst (lh_entries h1)"
    using wfh by (intro nth_equalityI) (auto simp: lh_entries_def wf_loghdr_def)
  have nd: "length (filter (\<lambda>e. data_in_loghdr (fst e)) (lh_entries h1)) + 0 \<le> length (lm_io_vec (lhm t))"
    using n_data_le [of h1] wfh l10 by (simp add: n_data_def wf_loghdr_def g_max_blocks_per_operation_def)
  have mo: "?ops = entry_ops (lh_entries h1) (drop 0 (lm_io_vec (lhm t)))"
    using meta_ops_cur [OF t(1)] t(2,3) by (simp add: cur_loghdr_def)
  have nee: "lh_entries h1 \<noteq> []" using ne mo by (cases "lh_entries h1") auto
  have pl: "persist_loop (map fst (lh_entries h1)) 0 0 h1 t = Done s2"
    using pb [folded t_def] t(3) by (simp add: persist_log_blocks_def ty)
  have "lm_pos (lhm s2) \<le> lh_nr_log_blocks h1"
    by (rule persist_loop_pos [OF pl nee com1 nd]) (use l10 chk mo in simp_all)
  then have "?nr \<le> cast16 ?nr" using pos by (simp add: h1_def)
  also have "\<dots> < 2 ^ 16" by (simp add: cast_w_def)
  finally show ?thesis .
qed

section \<open>Properties\<close>

text \<open>What a file holds, byte by byte, and what a data operation of the log makes of it.\<close>

definition patch :: "nat \<Rightarrow> byte list \<Rightarrow> (nat \<Rightarrow> byte) \<Rightarrow> nat \<Rightarrow> byte" where
  "patch off bs c = (\<lambda>i. if off \<le> i \<and> i < off + length bs then bs ! (i - off) else c i)"

fun apply_data :: "log_op \<Rightarrow> (nat \<Rightarrow> byte) \<Rightarrow> nat \<Rightarrow> byte" where
  "apply_data (Op_Data t inum off v) c = patch off (take (iov_size v) (iov_base v)) c"
| "apply_data (Op_Inode t inum) c = c"

lemma patch_append: "patch (off + length bs) cs (patch off bs c) = patch off (bs @ cs) c"
  by (rule ext) (auto simp: patch_def nth_append)

lemma apply_parts: "contig off ps \<Longrightarrow> fold apply_data (map (part_op inum) ps) c = patch off (concat (map snd ps)) c"
proof (induction off ps arbitrary: c rule: contig.induct)
  case (1 off)
  show ?case by (rule ext) (auto simp: patch_def)
next
  case (2 off o' bs ps)
  then show ?case by (simp add: part_op_def patch_append)
qed

text \<open>C7. Splitting a write. When the body of the write transaction ends, it has consumed the whole
  user buffer, and the operations it added to the transaction, replayed in their order on
  any file content, give the same content as storing the whole buffer at the file offset
  in one go. Every added operation has the shape the log writer insists on: it does not
  cross a block boundary when it is shorter than a block, and it is a whole number of
  aligned blocks otherwise.\<close>

theorem file_write_replays_buffer:
  assumes "file_write_tx log_size inum buf off n lm = Done (i, off', lm')" and "wf_meta lm"
    and "length buf = n" and "0 < n" and "off + n < 2 ^ 62"
  shows "i = n \<and> off' = off + n \<and> wf_meta lm' \<and>
    (\<exists>ops. meta_ops lm' = meta_ops lm @ ops \<and> (\<forall>x \<in> set ops. op_fits x) \<and>
       (\<forall>c. fold apply_data ops c = patch off buf c))"
  using file_write_tx_adds [OF assms] apply_parts [of off _ inum]
  by (auto simp: adds_parts_def)

theorem file_write_replays_buffer_witness:
  "\<exists>lm'. file_write_tx g_log_size 7 [1, 2, 3] 10 3 zero_loghdr_meta = Done (3, 13, lm') \<and>
    (\<exists>ops. meta_ops lm' = meta_ops zero_loghdr_meta @ ops \<and>
       (\<forall>c. fold apply_data ops c = patch 10 [1, 2, 3] c))"
proof -
  have tx: "file_write_tx g_log_size 7 [1, 2, 3] 10 3 zero_loghdr_meta = Done (3, 13, demo_lhm)"
    by (simp add: file_write_tx_def write_split_def add_part_def write_loop.simps demo_lhm_built
        add_w_def sub_w_def ALIGN_def Let_def mlfs_assert_def run_map_def g_block_size_bytes_def)
  have "wf_meta zero_loghdr_meta"
    by (simp add: zero_loghdr_meta_def wf_meta_def)
  from file_write_replays_buffer [OF tx this] tx show ?thesis by auto
qed

text \<open>C28. A transaction that needs 65536 or more log blocks never commits, if its last operation is
  an inode record or a write of whole blocks: the block count is stored in 16 bits, so the
  assertion that the write position stays within it stops the process. A single aligned
  write of 256 MB is such a transaction.\<close>

theorem large_tx_never_commits:
  assumes "wf_log s" and "wf_meta (lhm s)" and "lm_loghdr (lhm s) = Some h"
    and "\<forall>e \<in> set (lh_entries h). committable (fst e)"
    and "1 + ops_blocks (meta_ops (lhm s)) \<le> log_cap s" and "fl_size (fslog s) < 2 ^ 32"
    and "meta_ops (lhm s) \<noteq> []" and "checked_op (last (meta_ops (lhm s)))"
    and "2 ^ 16 \<le> 1 + ops_blocks (meta_ops (lhm s))"
  shows "\<nexists>s'. write_tx s = Done s'"
  using write_tx_small [OF assms(1-8)] assms(9) by fastforce

text \<open>The metadata of a write of 256 MB at offset 0 of file 7.\<close>

definition big_lhm :: logheader_meta where
  "big_lhm = zero_loghdr_meta\<lparr>lm_is_hdr_allocated := True, lm_nr_iovec := 2,
     lm_loghdr := Some \<lparr>lh_n = 2,
       lh_type = [L_TYPE_FILE, L_TYPE_FILE, L_TYPE_INVALID, L_TYPE_INVALID],
       lh_inode_no = [7, 7, 0, 0], lh_data = [0, 134217728, 0, 0], lh_length = [134217728, 134217728, 0, 0],
       lh_blocks = [0, 0, 0, 0], lh_nr_log_blocks = 0, lh_mtime = 0, lh_inuse = 0\<rparr>,
     lm_io_vec := \<lparr>iov_base = [], iov_size = 134217728\<rparr> # \<lparr>iov_base = [], iov_size = 134217728\<rparr> #
       replicate 8 \<lparr>iov_base = [], iov_size = 0\<rparr>\<rparr>"

lemma upt_two: "[0..<2] = [0, 1::nat]"
  by (simp add: numeral_2_eq_2)

theorem large_tx_never_commits_witness:
  "1 + ops_blocks (meta_ops big_lhm) = 65537 \<and> (\<nexists>s'. write_tx (demo_init\<lparr>lhm := big_lhm\<rparr>) = Done s')"
proof -
  let ?s = "demo_init\<lparr>lhm := big_lhm\<rparr>"
  let ?v = "\<lparr>iov_base = [], iov_size = 134217728\<rparr>"
  obtain h where h: "lm_loghdr (lhm ?s) = Some h" "\<forall>e \<in> set (lh_entries h). committable (fst e)"
    by (simp add: big_lhm_def lh_entries_def committable_def upt_two del: set_upt)
  have ops: "meta_ops big_lhm = [Op_Data L_TYPE_FILE 7 0 ?v, Op_Data L_TYPE_FILE 7 134217728 ?v]"
    by (simp add: big_lhm_def meta_ops_def lh_entries_def data_in_loghdr_def upt_two)
  have nr: "1 + ops_blocks (meta_ops big_lhm) = 65537"
    by (simp add: ops ops_blocks_def g_params)
  have "wf_log ?s" "log_cap ?s = 131071" "fl_size (fslog ?s) < 2 ^ 32"
    by (simp_all add: demo_simps wf_log_def log_cap_def log_begin_def)
  moreover have "wf_meta (lhm ?s)"
    by (simp add: big_lhm_def zero_loghdr_meta_def wf_meta_def wf_loghdr_def n_data_def lh_entries_def
        data_in_loghdr_def g_params upt_two)
  ultimately show ?thesis using large_tx_never_commits [of ?s h] h nr
    by (simp add: ops checked_op_def g_params)
qed

text \<open>Positioned reads test the wrong offset for the end of the file. As soon as the file's own
  offset has reached the size, a positioned read returns 0 bytes for every position, also
  for one that lies inside the file.\<close>

lemma pread_ignores_position:
  assumes "f_readable f" and "f_type f = FD_INODE" and "ic (f_ip f) = Some ip"
    and "di_size (i_dinode ip) \<le> f_off f"
  shows "mlfs_file_read_offset readi ic f n off = Done 0"
  using assms by (simp add: mlfs_file_read_offset_def)

end
