(* ===== verification/Circbuf.thy ===== *)
theory Circbuf
  imports Prelude
begin

text \<open>
  The circular buffers between the stages of the SmartNIC pipeline.

  Models the index arithmetic of \<open>libfs/src/ds/circ_buf.h\<close>, and the queues of
  \<open>kernfs/nic/host_memcpy.c\<close>: stages finish out of order, and a queue hands its items out by
  consecutive sequence numbers. The two queues of the pipeline (memcpy requests and
  copy-done notices) have the same code over two kinds of items, so the operations are
  written once over the fields they use, and the lemmas are proved once in the locale
  \<open>circ_item\<close>.

  The buffer size is not a power of two, so that masking with \<open>size - 1\<close> does not compute
  remainders: only \<open>2 ^ 21\<close> of the slots are ever used, and the count and the space come
  out too large by \<open>2 ^ 23\<close> whenever the subtraction underflows.
\<close>

section \<open>Index arithmetic\<close>

definition CIRC_CNT :: "nat \<Rightarrow> nat \<Rightarrow> nat \<Rightarrow> nat" where
  "CIRC_CNT head tail sz = sub64 head tail AND (sz - 1)"

definition CIRC_SPACE :: "nat \<Rightarrow> nat \<Rightarrow> nat \<Rightarrow> nat" where
  "CIRC_SPACE head tail sz = CIRC_CNT tail (add64 head 1) sz"

definition circ_next :: "nat \<Rightarrow> nat \<Rightarrow> nat" where
  "circ_next i sz = add64 i 1 AND (sz - 1)"

definition CIRC_BUF_SIZE :: nat where "CIRC_BUF_SIZE = 10 * 1024 * 1024"

text \<open>The number of slots that the masked indices reach.\<close>

definition circ_cap :: nat where "circ_cap = 2 ^ 21"

section \<open>Queues ordered by sequence number\<close>

record 'a circbuf =
  cb_buf :: "nat \<Rightarrow> 'a"
  cb_head :: nat
  cb_tail :: nat

definition circ_enqueue :: "nat \<Rightarrow> 'a \<Rightarrow> 'a circbuf \<Rightarrow> 'a circbuf run" where
  "circ_enqueue sz x b =
     (if CIRC_SPACE (cb_head b) (cb_tail b) sz \<ge> 1
      then Done (b\<lparr>cb_buf := (cb_buf b)(cb_head b := x), cb_head := circ_next (cb_head b) sz\<rparr>)
      else Failed (Panic ''circ_buf full''))"

text \<open>\<open>n\<close> slots from \<open>cur\<close> on.\<close>

fun circ_search :: "('a \<Rightarrow> nat) \<Rightarrow> nat \<Rightarrow> (nat \<Rightarrow> 'a) \<Rightarrow> nat \<Rightarrow> nat \<Rightarrow> nat \<Rightarrow> nat option" where
  "circ_search seqn sz buf 0 cur next_seqn = None"
| "circ_search seqn sz buf (Suc n) cur next_seqn =
     (if seqn (buf cur) = next_seqn then Some cur
      else circ_search seqn sz buf n (circ_next cur sz) next_seqn)"

definition circ_dequeue ::
  "('a \<Rightarrow> nat) \<Rightarrow> ('a \<Rightarrow> bool) \<Rightarrow> ('a \<Rightarrow> 'a) \<Rightarrow> nat \<Rightarrow> 'a circbuf \<Rightarrow> nat \<Rightarrow> 'a option \<times> 'a circbuf \<times> nat" where
  "circ_dequeue seqn processed mark sz b next_seqn =
     (let cnt = CIRC_CNT (cb_head b) (cb_tail b) sz;
          item = cb_buf b (cb_tail b);
          popped = b\<lparr>cb_tail := circ_next (cb_tail b) sz\<rparr>
      in if cnt < 1 then (None, b, next_seqn)
         else if seqn item = next_seqn then (Some item, popped, add64 next_seqn 1)
         else if seqn item < next_seqn then (None, popped, next_seqn)
         else case circ_search seqn sz (cb_buf b) cnt (cb_tail b) next_seqn of
                None \<Rightarrow> (None, b, next_seqn)
              | Some i \<Rightarrow>
                  if processed (cb_buf b i) then (None, b, next_seqn)
                  else let x = mark (cb_buf b i)
                       in (Some x, b\<lparr>cb_buf := (cb_buf b)(i := x)\<rparr>, add64 next_seqn 1))"

text \<open>
  The loop around a dequeue. A call that returns nothing and leaves the buffer alone
  returns nothing again until a producer adds an item. \<open>circ_cap\<close> rounds are enough
  (lemmas \<open>take_waits\<close> and \<open>take_delivers\<close> below).
\<close>

fun circ_take ::
  "('a \<Rightarrow> nat) \<Rightarrow> ('a \<Rightarrow> bool) \<Rightarrow> ('a \<Rightarrow> 'a) \<Rightarrow> nat \<Rightarrow> nat \<Rightarrow> 'a circbuf \<Rightarrow> nat \<Rightarrow> ('a \<times> 'a circbuf \<times> nat) run" where
  "circ_take seqn processed mark sz 0 b next_seqn = Waiting"
| "circ_take seqn processed mark sz (Suc n) b next_seqn =
     (case circ_dequeue seqn processed mark sz b next_seqn of
        (Some x, b', next') \<Rightarrow> Done (x, b', next')
      | (None, b', next') \<Rightarrow>
          if cb_tail b' = cb_tail b then Waiting
          else circ_take seqn processed mark sz n b' next')"

declare circ_take.simps [simp del]

section \<open>What the masks compute\<close>

lemma and_two_parts:
  fixes x :: nat
  assumes "a \<le> b"
  shows "x AND (mask a OR 2 ^ b) = x mod 2 ^ a + 2 ^ b * (x div 2 ^ b mod 2)"
proof -
  let ?u = "take_bit a x" and ?v = "push_bit b (take_bit 1 (drop_bit b x))"
  have "?u AND ?v = 0"
    using assms by (intro bit_eqI) (auto simp: bit_simps)
  then have "?u + ?v = ?u OR ?v" by (rule disjunctive_add_eq_or)
  also have "\<dots> = x AND (mask a OR 2 ^ b)"
    using assms by (intro bit_eqI) (auto simp: bit_simps le_less_Suc_eq simp flip: bit_iff_odd_drop_bit)
  finally show ?thesis
    by (simp add: push_bit_eq_mult drop_bit_eq_div take_bit_eq_mod mult.commute)
qed

lemma circ_and: "x AND (CIRC_BUF_SIZE - 1) = x mod circ_cap + 2 ^ 23 * (x div 2 ^ 23 mod 2)"
proof -
  have "CIRC_BUF_SIZE - 1 = mask 21 OR 2 ^ 23"
    by (simp add: CIRC_BUF_SIZE_def mask_eq_exp_minus_1)
  then show ?thesis using and_two_parts [of 21 23 x] by (simp add: circ_cap_def)
qed

lemma circ_and_below: "x < 2 ^ 23 \<Longrightarrow> x AND (CIRC_BUF_SIZE - 1) = x mod circ_cap"
  unfolding circ_and by simp

lemma circ_and_negative:
  assumes "0 < d" and "d \<le> circ_cap"
  shows "(2 ^ 64 - d) AND (CIRC_BUF_SIZE - 1) = 2 ^ 23 + (circ_cap - d)"
proof -
  have e: "2 ^ 64 - d = (circ_cap - d) + circ_cap * (2 ^ 43 - 1)"
    using assms by (simp add: circ_cap_def)
  have m: "(2 ^ 64 - d) mod circ_cap = circ_cap - d"
    unfolding e using assms by (simp only: mod_mult_self2) (simp add: circ_cap_def)
  have "2 ^ 64 - d = (2 ^ 23 - d) + (2 ^ 41 - 1) * 2 ^ 23" using assms by (simp add: circ_cap_def)
  then have "(2 ^ 64 - d) div 2 ^ 23 = 2 ^ 41 - 1" using assms by (simp add: circ_cap_def)
  then have "(2 ^ 64 - d) div 2 ^ 23 mod 2 = 1" by simp
  with m show ?thesis unfolding circ_and by simp
qed

lemma sub64_below:
  assumes "a \<le> circ_cap" and "b \<le> circ_cap"
  shows "sub64 a b AND (CIRC_BUF_SIZE - 1) =
    (if b \<le> a then (a - b) mod circ_cap else 2 ^ 23 + (circ_cap + a - b))"
proof (cases "b \<le> a")
  case True
  then have "sub64 a b = a - b" using assms by (intro sub_w_id) (auto simp: circ_cap_def)
  moreover have "a - b < 2 ^ 23" using assms by (simp add: circ_cap_def)
  ultimately show ?thesis using True circ_and_below by simp
next
  case False
  then have s: "sub64 a b = 2 ^ 64 - (b - a)"
    using assms by (intro sub_w_underflow) (auto simp: circ_cap_def)
  show ?thesis unfolding s using False assms by (subst circ_and_negative) auto
qed

lemma CIRC_CNT_eq:
  assumes "head < circ_cap" and "tail < circ_cap"
  shows "CIRC_CNT head tail CIRC_BUF_SIZE =
    (if tail \<le> head then head - tail else 2 ^ 23 + (circ_cap + head - tail))"
  unfolding CIRC_CNT_def using assms by (subst sub64_below) auto

lemma CIRC_SPACE_eq:
  assumes "head < circ_cap" and "tail < circ_cap"
  shows "CIRC_SPACE head tail CIRC_BUF_SIZE =
    (if head < tail then tail - head - 1 else 2 ^ 23 + (circ_cap + tail - head - 1))"
proof -
  have a: "add64 head 1 = head + 1" using assms by (simp add: add_w_def circ_cap_def)
  show ?thesis unfolding CIRC_SPACE_def CIRC_CNT_def a using assms by (subst sub64_below) auto
qed

lemma circ_next_eq: "i < circ_cap \<Longrightarrow> circ_next i CIRC_BUF_SIZE = (i + 1) mod circ_cap"
  by (simp add: circ_next_def add_w_def circ_and_below circ_cap_def del: One_nat_def)

section \<open>Contents of a queue\<close>

definition cb_cnt :: "'a circbuf \<Rightarrow> nat" where
  "cb_cnt b = (circ_cap + cb_head b - cb_tail b) mod circ_cap"

definition cb_slot :: "'a circbuf \<Rightarrow> nat \<Rightarrow> nat" where
  "cb_slot b k = (cb_tail b + k) mod circ_cap"

definition cb_items :: "'a circbuf \<Rightarrow> 'a list" where
  "cb_items b = map (\<lambda>k. cb_buf b (cb_slot b k)) [0..<cb_cnt b]"

definition in_range :: "'a circbuf \<Rightarrow> bool" where
  "in_range b \<longleftrightarrow> cb_head b < circ_cap \<and> cb_tail b < circ_cap"

text \<open>
  Items with a smaller number than the next one have been handed out; one of them that is
  still in the queue is marked. Slots outside the queue hold old items, or the zeros of
  the allocation.
\<close>

definition circ_wf :: "('a \<Rightarrow> nat) \<Rightarrow> ('a \<Rightarrow> bool) \<Rightarrow> 'a circbuf \<Rightarrow> nat \<Rightarrow> bool" where
  "circ_wf seqn processed b next_seqn \<longleftrightarrow> in_range b \<and> distinct (map seqn (cb_items b)) \<and>
     (\<forall>x \<in> set (cb_items b). processed x \<longleftrightarrow> seqn x < next_seqn) \<and>
     (\<forall>i < circ_cap. i \<notin> cb_slot b ` {..<cb_cnt b} \<longrightarrow> seqn (cb_buf b i) < next_seqn)"

definition pending :: "('a \<Rightarrow> nat) \<Rightarrow> 'a circbuf \<Rightarrow> nat \<Rightarrow> 'a set" where
  "pending seqn b next_seqn = {x \<in> set (cb_items b). next_seqn \<le> seqn x}"

lemma circ_cap_pos [simp]: "0 < circ_cap"
  by (simp add: circ_cap_def)

lemma cb_cnt_lt [simp]: "cb_cnt b < circ_cap"
  by (simp add: cb_cnt_def)

lemma length_cb_items [simp]: "length (cb_items b) = cb_cnt b"
  by (simp add: cb_items_def)

lemma cb_slot_lt [simp]: "cb_slot b k < circ_cap"
  by (simp add: cb_slot_def)

lemma cb_cnt_eq:
  assumes "in_range b"
  shows "cb_cnt b = (if cb_tail b \<le> cb_head b then cb_head b - cb_tail b
                     else circ_cap + cb_head b - cb_tail b)"
  using assms by (auto simp: cb_cnt_def in_range_def mod_if)

lemma cb_slot_inj:
  assumes "cb_slot b j = cb_slot b k" and "j < circ_cap" and "k < circ_cap"
  shows "j = k"
  using assms
proof (induction j k rule: linorder_wlog)
  case (le j k)
  then have "circ_cap dvd (cb_tail b + k) - (cb_tail b + j)"
    unfolding cb_slot_def by (subst mod_eq_dvd_iff_nat [symmetric]) auto
  then have "circ_cap dvd k - j" by simp
  with le show ?case by (auto dest!: dvd_imp_le)
next
  case (sym j k)
  then show ?case by simp
qed

lemma cb_head_slot: "in_range b \<Longrightarrow> cb_head b = cb_slot b (cb_cnt b)"
  by (auto simp: in_range_def cb_slot_def cb_cnt_eq mod_if)

lemma CIRC_CNT_cb_cnt:
  assumes "in_range b"
  shows "cb_cnt b \<le> CIRC_CNT (cb_head b) (cb_tail b) CIRC_BUF_SIZE"
    and "CIRC_CNT (cb_head b) (cb_tail b) CIRC_BUF_SIZE = 0 \<longleftrightarrow> cb_cnt b = 0"
  using assms by (auto simp: in_range_def CIRC_CNT_eq cb_cnt_eq)

lemma circ_enqueue_appends:
  assumes r: "in_range b" and room: "Suc (cb_cnt b) < circ_cap"
  shows "\<exists>b'. circ_enqueue CIRC_BUF_SIZE x b = Done b' \<and> in_range b' \<and> cb_tail b' = cb_tail b \<and>
    cb_items b' = cb_items b @ [x] \<and> cb_buf b' = (cb_buf b)(cb_slot b (cb_cnt b) := x)"
proof -
  let ?b = "b\<lparr>cb_buf := (cb_buf b)(cb_head b := x), cb_head := (cb_head b + 1) mod circ_cap\<rparr>"
  have h: "cb_head b < circ_cap" "cb_tail b < circ_cap" using r by (simp_all add: in_range_def)
  have sp: "1 \<le> CIRC_SPACE (cb_head b) (cb_tail b) CIRC_BUF_SIZE"
    using room cb_cnt_eq [OF r] h by (auto simp: CIRC_SPACE_eq)
  have cnt: "cb_cnt ?b = Suc (cb_cnt b)"
    using room h cb_cnt_eq [OF r] by (auto simp: cb_cnt_def mod_if split: if_splits)
  have old: "((cb_buf b)(cb_head b := x)) (cb_slot b k) = cb_buf b (cb_slot b k)" if "k < cb_cnt b" for k
    using that cb_slot_inj [of b k "cb_cnt b"] by (auto simp: cb_head_slot [OF r] order_less_trans [OF _ cb_cnt_lt])
  have "cb_items ?b = cb_items b @ [x]"
    unfolding cb_items_def cnt using old cb_head_slot [OF r] by (simp add: cb_slot_def)
  then show ?thesis
    using sp h cb_head_slot [OF r] by (simp add: circ_enqueue_def circ_next_eq in_range_def)
qed

lemma cb_slot_pop: "cb_slot (b\<lparr>cb_tail := (cb_tail b + 1) mod circ_cap\<rparr>) k = cb_slot b (Suc k)"
  by (simp add: cb_slot_def mod_add_left_eq)

lemma circ_pop:
  assumes r: "in_range b" and ne: "0 < cb_cnt b"
  defines "b' \<equiv> b\<lparr>cb_tail := circ_next (cb_tail b) CIRC_BUF_SIZE\<rparr>"
  shows "in_range b'" and "cb_cnt b = Suc (cb_cnt b')" and "cb_items b = cb_buf b (cb_tail b) # cb_items b'"
    and "\<And>k. cb_slot b' k = cb_slot b (Suc k)" and "cb_slot b 0 = cb_tail b" and "cb_tail b' \<noteq> cb_tail b"
proof -
  have h: "cb_head b < circ_cap" "cb_tail b < circ_cap" using r by (simp_all add: in_range_def)
  have b': "b' = b\<lparr>cb_tail := (cb_tail b + 1) mod circ_cap\<rparr>" by (simp add: b'_def circ_next_eq h)
  show r': "in_range b'" using h by (simp add: b' in_range_def)
  show cnt: "cb_cnt b = Suc (cb_cnt b')"
    using ne h cb_cnt_eq [OF r] cb_cnt_eq [OF r'] by (auto simp: b' mod_if split: if_splits)
  show sl: "\<And>k. cb_slot b' k = cb_slot b (Suc k)" unfolding b' by (rule cb_slot_pop)
  show s0: "cb_slot b 0 = cb_tail b" using h by (simp add: cb_slot_def)
  show "cb_items b = cb_buf b (cb_tail b) # cb_items b'"
    unfolding cb_items_def cnt sl upt_conv_Cons [OF zero_less_Suc] list.map s0
    by (simp add: b' map_Suc_upt [symmetric] del: map_Suc_upt upt_Suc)
  show "cb_tail b' \<noteq> cb_tail b" using h by (auto simp: b' mod_if circ_cap_def)
qed

lemma circ_search_None:
  "circ_search seqn CIRC_BUF_SIZE buf n cur q = None \<Longrightarrow> cur < circ_cap \<Longrightarrow> k < n \<Longrightarrow>
   seqn (buf ((cur + k) mod circ_cap)) \<noteq> q"
proof (induction n arbitrary: cur k)
  case (Suc n)
  show ?case
  proof (cases k)
    case 0
    then show ?thesis using Suc.prems by (auto split: if_splits)
  next
    case (Suc j)
    have "seqn (buf (((cur + 1) mod circ_cap + j) mod circ_cap)) \<noteq> q"
      using Suc.prems Suc by (intro Suc.IH) (auto simp: circ_next_eq split: if_splits)
    then show ?thesis using Suc by (simp add: mod_add_left_eq)
  qed
qed simp

lemma circ_search_Some:
  "circ_search seqn CIRC_BUF_SIZE buf n cur q = Some i \<Longrightarrow> cur < circ_cap \<Longrightarrow> i < circ_cap \<and> seqn (buf i) = q"
  by (induction n arbitrary: cur) (auto simp: circ_next_eq split: if_splits)

lemma circ_pop_slots:
  assumes "in_range b" and "0 < cb_cnt b"
  defines "b' \<equiv> b\<lparr>cb_tail := circ_next (cb_tail b) CIRC_BUF_SIZE\<rparr>"
  shows "cb_slot b ` {..<cb_cnt b} = insert (cb_tail b) (cb_slot b' ` {..<cb_cnt b'})"
  using circ_pop(2,4,5) [OF assms(1,2)]
  by (simp add: b'_def lessThan_Suc_eq_insert_0 image_image del: image_Suc_lessThan)

lemma circ_wf_pop:
  assumes wf: "circ_wf seqn processed b q" and ne: "0 < cb_cnt b" and q: "q \<le> q'"
    and old: "seqn (cb_buf b (cb_tail b)) < q'" and "\<And>y. y \<in> set (cb_items b) \<Longrightarrow> seqn y < q' \<Longrightarrow>
      y = cb_buf b (cb_tail b) \<or> seqn y < q"
  shows "circ_wf seqn processed (b\<lparr>cb_tail := circ_next (cb_tail b) CIRC_BUF_SIZE\<rparr>) q'" (is "circ_wf _ _ ?b _")
proof -
  have r: "in_range b" using wf by (simp add: circ_wf_def)
  note P = circ_pop [OF r ne] and S = circ_pop_slots [OF r ne]
  have d: "distinct (map seqn (cb_items b))" using wf by (simp add: circ_wf_def)
  have nin: "y \<noteq> cb_buf b (cb_tail b)" if "y \<in> set (cb_items ?b)" for y
    using that d P(3) by auto
  have "processed y \<longleftrightarrow> seqn y < q'" if "y \<in> set (cb_items ?b)" for y
    using that nin [OF that] wf P(3) q assms(5) [of y] by (auto simp: circ_wf_def)
  moreover have "seqn (cb_buf b i) < q'" if "i < circ_cap" "i \<notin> cb_slot ?b ` {..<cb_cnt ?b}" for i
    using that S wf q old by (cases "i = cb_tail b") (auto simp: circ_wf_def dest!: spec [of _ i])
  ultimately show ?thesis using P(1,3) d by (simp add: circ_wf_def)
qed

lemma cb_items_update:
  assumes k: "k < cb_cnt b" and "cb_slot b k = i"
  shows "cb_items (b\<lparr>cb_buf := (cb_buf b)(i := x)\<rparr>) = (cb_items b)[k := x]" (is "cb_items ?b = _")
proof (rule nth_equalityI)
  show "length (cb_items ?b) = length ((cb_items b)[k := x])" by (simp add: cb_cnt_def)
  fix j assume "j < length (cb_items ?b)"
  then have j: "j < cb_cnt b" by (simp add: cb_cnt_def)
  have "cb_slot b j = i \<longleftrightarrow> j = k"
    using j assms cb_slot_inj [of b j k] order_less_trans [OF _ cb_cnt_lt] by metis
  then show "cb_items ?b ! j = (cb_items b)[k := x] ! j"
    using j by (auto simp: cb_items_def cb_cnt_def cb_slot_def nth_list_update)
qed

section \<open>Items with a sequence number and a processed flag\<close>

locale circ_item =
  fixes seqn :: "'a \<Rightarrow> nat" and processed :: "'a \<Rightarrow> bool" and mark :: "'a \<Rightarrow> 'a"
  assumes seqn_mark: "seqn (mark x) = seqn x" and processed_mark: "processed (mark x)"
begin

lemma wf_enqueue:
  assumes wf: "circ_wf seqn processed b q" and room: "Suc (cb_cnt b) < circ_cap"
    and x: "q \<le> seqn x" "seqn x \<notin> seqn ` set (cb_items b)" "\<not> processed x"
  shows "\<exists>b'. circ_enqueue CIRC_BUF_SIZE x b = Done b' \<and> circ_wf seqn processed b' q \<and>
    cb_items b' = cb_items b @ [x]"
proof -
  have r: "in_range b" using wf by (simp add: circ_wf_def)
  obtain b' where b': "circ_enqueue CIRC_BUF_SIZE x b = Done b'" "in_range b'" "cb_tail b' = cb_tail b"
    "cb_items b' = cb_items b @ [x]" "cb_buf b' = (cb_buf b)(cb_slot b (cb_cnt b) := x)"
    using circ_enqueue_appends [OF r room] by blast
  have cnt: "cb_cnt b' = Suc (cb_cnt b)" using b'(4) length_cb_items by (metis length_append_singleton)
  have "seqn (cb_buf b' i) < q" if "i < circ_cap" "i \<notin> cb_slot b' ` {..<cb_cnt b'}" for i
  proof -
    have "i \<notin> cb_slot b ` {..<cb_cnt b}" "i \<noteq> cb_slot b (cb_cnt b)"
      using that(2) b'(3) unfolding cnt by (auto simp: cb_slot_def)
    then show ?thesis using wf that(1) b'(5) by (simp add: circ_wf_def)
  qed
  with b' wf x show ?thesis by (auto simp: circ_wf_def)
qed

lemma wf_mark:
  assumes wf: "circ_wf seqn processed b q" and i: "i < circ_cap" "seqn (cb_buf b i) = q"
  defines "x \<equiv> cb_buf b i"
  defines "b' \<equiv> b\<lparr>cb_buf := (cb_buf b)(i := mark x)\<rparr>"
  shows "x \<in> set (cb_items b)" and "\<not> processed x" and "circ_wf seqn processed b' (q + 1)"
    and "pending seqn b' (q + 1) = pending seqn b q - {x}"
proof -
  have sl: "cb_slot b' = cb_slot b" "cb_cnt b' = cb_cnt b"
    by (simp_all add: fun_eq_iff b'_def cb_slot_def cb_cnt_def)
  obtain k where k: "k < cb_cnt b" "cb_slot b k = i" using wf i by (force simp: circ_wf_def)
  have items: "cb_items b' = (cb_items b)[k := mark x]" unfolding b'_def by (rule cb_items_update [OF k])
  have xk: "cb_items b ! k = x" using k by (simp add: cb_items_def x_def)
  show mem: "x \<in> set (cb_items b)" using xk k nth_mem [of k "cb_items b"] by auto
  have d: "distinct (map seqn (cb_items b))" using wf by (simp add: circ_wf_def)
  have sq: "seqn x = q" using i by (simp add: x_def)
  show "\<not> processed x" using wf mem sq by (auto simp: circ_wf_def)
  have uniq: "y = x" if "y \<in> set (cb_items b)" "seqn y = q" for y
    using that d mem sq by (auto simp: distinct_map dest: inj_onD)
  have set': "set (cb_items b') = insert (mark x) (set (cb_items b) - {x})"
    unfolding items using d k xk by (subst set_update_distinct) (auto simp: distinct_map)
  have "map seqn (cb_items b') = map seqn (cb_items b)"
    unfolding items map_update seqn_mark using xk k by (metis list_update_id nth_map length_cb_items)
  moreover have "processed y \<longleftrightarrow> seqn y < q + 1" if "y \<in> set (cb_items b')" for y
    using that wf uniq [of y] sq by (cases "seqn y = q") (auto simp: set' processed_mark seqn_mark circ_wf_def)
  moreover have "seqn (cb_buf b' j) < q + 1" if "j < circ_cap" "j \<notin> cb_slot b ` {..<cb_cnt b}" for j
    using that wf k by (auto simp: b'_def circ_wf_def dest!: spec [of _ j])
  ultimately show "circ_wf seqn processed b' (q + 1)"
    using wf d by (simp add: circ_wf_def sl in_range_def) (simp add: b'_def)
  show "pending seqn b' (q + 1) = pending seqn b q - {x}"
    using uniq sq by (force simp: pending_def set' seqn_mark)
qed

lemma dequeue_pop_old:
  assumes wf: "circ_wf seqn processed b q" and ne: "0 < cb_cnt b" and old: "seqn (cb_buf b (cb_tail b)) < q"
  defines "b' \<equiv> b\<lparr>cb_tail := circ_next (cb_tail b) CIRC_BUF_SIZE\<rparr>"
  shows "circ_wf seqn processed b' q" and "pending seqn b' q = pending seqn b q"
proof -
  show "circ_wf seqn processed b' q" unfolding b'_def using wf ne old by (intro circ_wf_pop) auto
  show "pending seqn b' q = pending seqn b q"
    using old circ_pop(3) [OF _ ne] wf by (auto simp: b'_def pending_def circ_wf_def)
qed

lemma dequeue_pop_next:
  assumes wf: "circ_wf seqn processed b q" and ne: "0 < cb_cnt b" and nx: "seqn (cb_buf b (cb_tail b)) = q"
  defines "x \<equiv> cb_buf b (cb_tail b)" and "b' \<equiv> b\<lparr>cb_tail := circ_next (cb_tail b) CIRC_BUF_SIZE\<rparr>"
  shows "x \<in> pending seqn b q" and "circ_wf seqn processed b' (q + 1)"
    and "pending seqn b' (q + 1) = pending seqn b q - {x}"
proof -
  have r: "in_range b" using wf by (simp add: circ_wf_def)
  note it = circ_pop(3) [OF r ne, folded b'_def x_def]
  have d: "distinct (map seqn (cb_items b))" using wf by (simp add: circ_wf_def)
  show "x \<in> pending seqn b q" using it nx by (auto simp: pending_def x_def)
  have uniq: "y = x" if "y \<in> set (cb_items b)" "seqn y = q" for y
    using that d it nx by (auto simp: x_def)
  show "circ_wf seqn processed b' (q + 1)"
    unfolding b'_def using nx uniq by (intro circ_wf_pop [OF wf ne]) (auto simp: x_def less_Suc_eq)
  show "pending seqn b' (q + 1) = pending seqn b q - {x}"
    using it nx uniq d by (auto simp: pending_def x_def Suc_le_eq order.strict_iff_order)
qed

text \<open>A dequeue finds the next item, or drops an old one, or the next item is not there.\<close>

lemma dequeue_cases [consumes 3, case_names none old found]:
  assumes wf: "circ_wf seqn processed b q" and q: "q + 1 < 2 ^ 64"
    and dq: "circ_dequeue seqn processed mark CIRC_BUF_SIZE b q = (r, b', q')"
  obtains (none) "r = None" "q' = q" "b' = b" "q \<notin> seqn ` set (cb_items b)"
  | (old) "r = None" "q' = q" "circ_wf seqn processed b' q" "pending seqn b' q = pending seqn b q"
      "cb_cnt b = Suc (cb_cnt b')" "cb_tail b' \<noteq> cb_tail b"
  | (found) x where "x \<in> pending seqn b q" "seqn x = q" "r = Some x \<or> r = Some (mark x)" "q' = q + 1"
      "circ_wf seqn processed b' (q + 1)" "pending seqn b' (q + 1) = pending seqn b q - {x}"
      "cb_cnt b' \<le> cb_cnt b"
proof -
  have r: "in_range b" using wf by (simp add: circ_wf_def)
  have q1: "add64 q 1 = q + 1" using q by (simp add: add_w_id)
  note C = CIRC_CNT_cb_cnt [OF r]
  let ?y = "cb_buf b (cb_tail b)" and ?pop = "b\<lparr>cb_tail := circ_next (cb_tail b) CIRC_BUF_SIZE\<rparr>"
  consider "cb_cnt b = 0" | "0 < cb_cnt b" "seqn ?y = q" | "0 < cb_cnt b" "seqn ?y < q" | "0 < cb_cnt b" "q < seqn ?y"
    by linarith
  then show thesis
  proof cases
    case 1
    then show thesis using dq C none by (simp add: circ_dequeue_def cb_items_def)
  next
    case 2
    then have e: "r = Some ?y" "b' = ?pop" "q' = q + 1" using dq C q1 by (auto simp: circ_dequeue_def Let_def)
    note D = dequeue_pop_next [OF wf 2]
    show thesis by (rule found [of ?y]) (use D e 2 circ_pop(2) [OF r 2(1)] in auto)
  next
    case 3
    then have e: "r = None" "b' = ?pop" "q' = q" using dq C by (auto simp: circ_dequeue_def Let_def)
    show thesis using dequeue_pop_old [OF wf 3] circ_pop(2,6) [OF r 3(1)] e by (intro old) auto
  next
    case 4
    let ?n = "CIRC_CNT (cb_head b) (cb_tail b) CIRC_BUF_SIZE"
    have t: "cb_tail b < circ_cap" using r by (simp add: in_range_def)
    show thesis
    proof (cases "circ_search seqn CIRC_BUF_SIZE (cb_buf b) ?n (cb_tail b) q")
      case None
      have "seqn (cb_buf b (cb_slot b k)) \<noteq> q" if "k < cb_cnt b" for k
        using circ_search_None [OF None t, of k] that C(1) by (simp add: cb_slot_def)
      then have "q \<notin> seqn ` set (cb_items b)" by (force simp: cb_items_def)
      then show thesis using dq C 4 None none by (auto simp: circ_dequeue_def Let_def)
    next
      case (Some i)
      note i = circ_search_Some [OF Some t, THEN conjunct1] circ_search_Some [OF Some t, THEN conjunct2]
      note M = wf_mark [OF wf i]
      have e: "r = Some (mark (cb_buf b i))" "b' = b\<lparr>cb_buf := (cb_buf b)(i := mark (cb_buf b i))\<rparr>" "q' = q + 1"
        using dq C 4 Some M(2) q1 by (auto simp: circ_dequeue_def Let_def)
      show thesis by (rule found [of "cb_buf b i"]) (use M e i in \<open>auto simp: pending_def cb_cnt_def\<close>)
    qed
  qed
qed

lemma take_waits:
  assumes "circ_wf seqn processed b q" and "q + 1 < 2 ^ 64" and "q \<notin> seqn ` pending seqn b q"
  shows "circ_take seqn processed mark CIRC_BUF_SIZE n b q = Waiting"
  using assms
proof (induction n arbitrary: b)
  case (Suc n)
  obtain r b' q' where dq: "circ_dequeue seqn processed mark CIRC_BUF_SIZE b q = (r, b', q')"
    by (metis prod_cases3)
  from Suc.prems(1,2) dq show ?case
  proof (cases rule: dequeue_cases)
    case none
    with dq show ?thesis by (simp add: circ_take.simps)
  next
    case old
    with dq Suc.prems Suc.IH [of b'] show ?thesis by (simp add: circ_take.simps)
  next
    case found
    with Suc.prems show ?thesis by auto
  qed
qed (simp add: circ_take.simps)

lemma take_delivers:
  assumes "circ_wf seqn processed b q" and "q + 1 < 2 ^ 64" and "q \<in> seqn ` pending seqn b q" and "cb_cnt b < n"
  shows "\<exists>x b' r. circ_take seqn processed mark CIRC_BUF_SIZE n b q = Done (r, b', q + 1) \<and>
    x \<in> pending seqn b q \<and> seqn x = q \<and> (r = x \<or> r = mark x) \<and> circ_wf seqn processed b' (q + 1) \<and>
    pending seqn b' (q + 1) = pending seqn b q - {x}"
  using assms
proof (induction n arbitrary: b)
  case (Suc n)
  obtain r b' q' where dq: "circ_dequeue seqn processed mark CIRC_BUF_SIZE b q = (r, b', q')"
    by (metis prod_cases3)
  from Suc.prems(1,2) dq show ?case
  proof (cases rule: dequeue_cases)
    case none
    with Suc.prems show ?thesis by (auto simp: pending_def)
  next
    case old
    with dq Suc.prems Suc.IH [of b'] show ?thesis by (simp add: circ_take.simps)
  next
    case (found x)
    with dq show ?thesis by (auto simp: circ_take.simps)
  qed
qed simp

end

section \<open>Producers and a consumer\<close>

datatype 'a circ_act = Enq 'a | Deq

fun circ_run ::
  "('a \<Rightarrow> nat) \<Rightarrow> ('a \<Rightarrow> bool) \<Rightarrow> ('a \<Rightarrow> 'a) \<Rightarrow> 'a circ_act list \<Rightarrow> 'a circbuf \<Rightarrow> nat \<Rightarrow> ('a list \<times> 'a circbuf \<times> nat) run" where
  "circ_run seqn processed mark [] b q = Done ([], b, q)"
| "circ_run seqn processed mark (Enq x # as) b q =
     run_bind (circ_enqueue CIRC_BUF_SIZE x b) (\<lambda>b'. circ_run seqn processed mark as b' q)"
| "circ_run seqn processed mark (Deq # as) b q =
     (case circ_dequeue seqn processed mark CIRC_BUF_SIZE b q of (r, b', q') \<Rightarrow>
        run_map (\<lambda>(out, b'', q''). (case r of None \<Rightarrow> out | Some x \<Rightarrow> x # out, b'', q''))
          (circ_run seqn processed mark as b' q'))"

fun enqueued :: "'a circ_act list \<Rightarrow> 'a list" where
  "enqueued [] = []"
| "enqueued (Enq x # as) = x # enqueued as"
| "enqueued (Deq # as) = enqueued as"

definition fresh :: "('a \<Rightarrow> nat) \<Rightarrow> ('a \<Rightarrow> bool) \<Rightarrow> 'a list \<Rightarrow> nat \<Rightarrow> bool" where
  "fresh seqn processed xs q \<longleftrightarrow> distinct (map seqn xs) \<and> (\<forall>x \<in> set xs. q \<le> seqn x \<and> \<not> processed x)"

context circ_item
begin

lemma run_in_order:
  assumes "circ_wf seqn processed b q" and "fresh seqn processed (enqueued as) q"
    and "seqn ` set (enqueued as) \<inter> seqn ` pending seqn b q = {}"
    and "cb_cnt b + length (enqueued as) < circ_cap" and "q + length as < 2 ^ 64"
  shows "\<exists>out b' q'. circ_run seqn processed mark as b q = Done (out, b', q') \<and> circ_wf seqn processed b' q' \<and>
    map seqn out = [q..<q'] \<and> q \<le> q' \<and>
    (\<forall>x \<in> set out. \<exists>y \<in> pending seqn b q \<union> set (enqueued as). x = y \<or> x = mark y) \<and>
    pending seqn b' q' = {y \<in> pending seqn b q \<union> set (enqueued as). q' \<le> seqn y}"
  using assms
proof (induction as arbitrary: b q)
  case Nil
  then show ?case by (auto simp: pending_def)
next
  case (Cons a as)
  show ?case
  proof (cases a)
    case (Enq x)
    have fr: "seqn x \<notin> seqn ` set (cb_items b)"
      using Cons.prems(2,3) Enq by (force simp: fresh_def pending_def)
    obtain b1 where b1: "circ_enqueue CIRC_BUF_SIZE x b = Done b1" "circ_wf seqn processed b1 q"
      "cb_items b1 = cb_items b @ [x]"
      using wf_enqueue [OF Cons.prems(1) _ _ fr] Cons.prems(2,4) Enq by (auto simp: fresh_def)
    have c1: "cb_cnt b1 = Suc (cb_cnt b)" using b1(3) length_cb_items by (metis length_append_singleton)
    have p1: "pending seqn b1 q = insert x (pending seqn b q)"
      using b1(3) Cons.prems(2) Enq by (auto simp: pending_def fresh_def)
    from Cons.IH [OF b1(2)] show ?thesis
      using Cons.prems Enq b1(1) c1 p1 by (auto simp: fresh_def)
  next
    case Deq
    obtain r b1 q1 where dq: "circ_dequeue seqn processed mark CIRC_BUF_SIZE b q = (r, b1, q1)"
      by (metis prod_cases3)
    have q: "q + 1 < 2 ^ 64" using Cons.prems(5) by simp
    from Cons.prems(1) q dq show ?thesis
    proof (cases rule: dequeue_cases)
      case none
      with Cons.IH [OF Cons.prems(1)] Cons.prems Deq dq show ?thesis by auto
    next
      case old
      with Cons.IH [OF old(3)] Cons.prems Deq dq show ?thesis by auto
    next
      case (found x)
      have en: "enqueued (a # as) = enqueued as" by (simp add: Deq)
      have fr: "fresh seqn processed (enqueued as) (q + 1)"
        using Cons.prems(2,3) found(1,2) unfolding en fresh_def by (force simp: Suc_le_eq order.strict_iff_order)
      have p: "seqn ` set (enqueued as) \<inter> seqn ` pending seqn b1 (q + 1) = {}"
        "cb_cnt b1 + length (enqueued as) < circ_cap" "q + 1 + length as < 2 ^ 64"
        using Cons.prems(3-5) found(6,7) unfolding en by auto
      obtain out b' q' where ih: "circ_run seqn processed mark as b1 (q + 1) = Done (out, b', q')"
        "circ_wf seqn processed b' q'" "map seqn out = [q + 1..<q']" "q + 1 \<le> q'"
        "\<forall>z \<in> set out. \<exists>y \<in> pending seqn b1 (q + 1) \<union> set (enqueued as). z = y \<or> z = mark y"
        "pending seqn b' q' = {y \<in> pending seqn b1 (q + 1) \<union> set (enqueued as). q' \<le> seqn y}"
        using Cons.IH [OF found(5) fr p] by blast
      obtain z where z: "r = Some z" "z = x \<or> z = mark x" "seqn z = q" using found(2,3) seqn_mark by auto
      have "circ_run seqn processed mark (a # as) b q = Done (z # out, b', q')"
        using dq z found(4) ih(1) Deq by simp
      moreover have "map seqn (z # out) = [q..<q']" using ih(3,4) z(3) by (simp add: upt_conv_Cons)
      moreover have "\<forall>w \<in> set (z # out). \<exists>y \<in> pending seqn b q \<union> set (enqueued as). w = y \<or> w = mark y"
        using ih(5) z(2) found(1,6) by auto
      moreover have "pending seqn b' q' = {y \<in> pending seqn b q \<union> set (enqueued as). q' \<le> seqn y}"
        unfolding ih(6) found(6) using ih(4) found(2) by fastforce
      moreover have "q \<le> q'" using ih(4) by simp
      ultimately show ?thesis unfolding en using ih(2) by blast
    qed
  qed
qed

end

end
