(* ===== verification/Chain.thy ===== *)
theory Chain
  imports Prelude
begin

text \<open>
  The replication chain.

  Models the arithmetic on KernFS identifiers in \<open>libfs/src/distributed/peer.c\<close> for the
  build with SmartNICs. Every node has two KernFS processes: the one on the SmartNIC has an
  even identifier, the one on the host the next odd one. The chain of a LibFS starts at the
  SmartNIC of its own node and visits the \<open>g_n_replica\<close> nodes in a circle; \<open>n\<close> is this
  number, and \<open>local_kid\<close> stands for what \<open>local_kernfs_id\<close> finds for the LibFS, -1 if there
  is no such peer.
\<close>

definition is_kernfs_on_nic :: "int \<Rightarrow> int \<Rightarrow> bool run" where
  "is_kernfs_on_nic g_n_nodes k =
     (if k \<ge> g_n_nodes then Done False
      else mlfs_assert (k \<ge> 0) ''id >= 0'' (Done (k mod 2 = 0)))"

definition nic_kid_to_host_kid :: "int \<Rightarrow> int run" where
  "nic_kid_to_host_kid k = mlfs_assert (k \<ge> 0) ''nic_kernfs_id >= 0'' (Done (k + 1))"

definition host_kid_to_nic_kid :: "int \<Rightarrow> int run" where
  "host_kid_to_nic_kid k = mlfs_assert (k \<ge> 0) ''host_kernfs_id >= 0'' (Done (k - 1))"

definition nodeid_to_nic_kid :: "int \<Rightarrow> int" where
  "nodeid_to_nic_kid node_id = node_id * 2"

definition nodeid_to_host_kid :: "int \<Rightarrow> int \<Rightarrow> int run" where
  "nodeid_to_host_kid g_n_nodes node_id =
     (let ret = node_id * 2 + 1 in mlfs_assert (ret < g_n_nodes) ''ret < g_n_nodes'' (Done ret))"

definition first_kernfs_id :: "int \<Rightarrow> int run" where
  "first_kernfs_id local_kid = (if local_kid = -1 then Done (-1) else host_kid_to_nic_kid local_kid)"

definition cur_kernfs_is_last :: "int \<Rightarrow> int \<Rightarrow> int \<Rightarrow> bool" where
  "cur_kernfs_is_last n starting_kernfs target_kernfs \<longleftrightarrow>
     (starting_kernfs div 2 + n - 1) mod n * 2 = target_kernfs"

definition get_prev_kernfs :: "int \<Rightarrow> int \<Rightarrow> int" where
  "get_prev_kernfs n cur = (cur div 2 + n - 1) mod n * 2"

definition get_next_kernfs :: "int \<Rightarrow> int \<Rightarrow> int" where
  "get_next_kernfs n cur = (cur div 2 + 1) mod n * 2"

definition get_next_host_kernfs :: "int \<Rightarrow> int \<Rightarrow> int run" where
  "get_next_host_kernfs n cur = nic_kid_to_host_kid (get_next_kernfs n cur)"

definition is_first_kernfs :: "int \<Rightarrow> int \<Rightarrow> bool run" where
  "is_first_kernfs local_kid cur = run_map (\<lambda>k. cur = k) (first_kernfs_id local_kid)"

definition is_local_kernfs :: "int \<Rightarrow> int \<Rightarrow> bool" where
  "is_local_kernfs local_kid cur \<longleftrightarrow> cur = local_kid"

definition is_last_kernfs :: "int \<Rightarrow> int \<Rightarrow> int \<Rightarrow> bool run" where
  "is_last_kernfs n local_kid cur = run_map (\<lambda>k. cur_kernfs_is_last n k cur) (first_kernfs_id local_kid)"

definition is_middle_in_rep_chain :: "int \<Rightarrow> int \<Rightarrow> int \<Rightarrow> bool run" where
  "is_middle_in_rep_chain n local_kid cur =
     run_bind (is_first_kernfs local_kid cur) (\<lambda>f.
       if f then Done False else run_map (\<lambda>l. \<not> l) (is_last_kernfs n local_kid cur))"

definition is_last_host_kernfs :: "int \<Rightarrow> int \<Rightarrow> int \<Rightarrow> bool run" where
  "is_last_host_kernfs n local_kid cur_host =
     run_bind (first_kernfs_id local_kid) (\<lambda>k.
       run_map (\<lambda>c. cur_kernfs_is_last n k c) (host_kid_to_nic_kid cur_host))"

definition next_kernfs_is_last :: "int \<Rightarrow> int \<Rightarrow> int \<Rightarrow> bool run" where
  "next_kernfs_is_last n local_kid g_kernfs_id =
     run_map (\<lambda>start. cur_kernfs_is_last n start (get_next_kernfs n g_kernfs_id)) (host_kid_to_nic_kid local_kid)"

section \<open>Walking along the chain\<close>

definition nic_kids :: "int \<Rightarrow> int set" where
  "nic_kids n = (\<lambda>j. 2 * j) ` {0..<n}"

lemma nic_kids_div: "k \<in> nic_kids n \<Longrightarrow> k div 2 * 2 = k \<and> 0 \<le> k div 2 \<and> k div 2 < n"
  by (auto simp: nic_kids_def)

lemma get_next_iter:
  assumes "0 < n" and "k \<in> nic_kids n"
  shows "(get_next_kernfs n ^^ i) k = (k div 2 + int i) mod n * 2"
  using assms nic_kids_div [of k n]
  by (induction i) (auto simp: get_next_kernfs_def mod_add_right_eq mod_add_left_eq ac_simps)

lemma get_next_in: "0 < n \<Longrightarrow> get_next_kernfs n k \<in> nic_kids n"
  by (auto simp: get_next_kernfs_def nic_kids_def)

lemma shift_image:
  assumes "0 < (n::int)"
  shows "(\<lambda>i. (a + int i) mod n) ` {..<nat n} = {0..<n}"
proof (rule card_subset_eq)
  show "(\<lambda>i. (a + int i) mod n) ` {..<nat n} \<subseteq> {0..<n}" using assms by auto
  have "inj_on (\<lambda>i. (a + int i) mod n) {..<nat n}"
  proof (rule inj_onI)
    fix i j assume i: "i \<in> {..<nat n}" "j \<in> {..<nat n}" and e: "(a + int i) mod n = (a + int j) mod n"
    then have "n dvd (a + int i) - (a + int j)" by (simp only: mod_eq_dvd_iff)
    then have d: "n dvd int i - int j" by simp
    have "\<bar>int i - int j\<bar> < \<bar>n\<bar>" using i assms by auto
    then have "int i - int j = 0" using dvd_imp_le_int [OF _ d] by linarith
    then show "i = j" by simp
  qed
  then show "card ((\<lambda>i. (a + int i) mod n) ` {..<nat n}) = card {0..<n}" by (simp add: card_image)
qed simp

text \<open>C32. The replication chain visits every node once. From the SmartNIC where a chain starts,
  following \<open>get_next_kernfs\<close> reaches every SmartNIC of the cluster within \<open>g_n_replica - 1\<close>
  steps; the node that \<open>cur_kernfs_is_last\<close> recognises is the one after exactly that many
  steps, one more step leads back to the start, and \<open>get_prev_kernfs\<close> undoes a step.\<close>

theorem chain_visits_all:
  assumes n: "0 < n" and k: "k \<in> nic_kids n"
  shows "(\<lambda>i. (get_next_kernfs n ^^ i) k) ` {..<nat n} = nic_kids n \<and>
    (cur_kernfs_is_last n k t \<longleftrightarrow> t = (get_next_kernfs n ^^ (nat n - 1)) k) \<and>
    (get_next_kernfs n ^^ nat n) k = k \<and> get_prev_kernfs n (get_next_kernfs n k) = k"
proof (intro conjI)
  note I = get_next_iter [OF n k] and D = nic_kids_div [OF k]
  show "(\<lambda>i. (get_next_kernfs n ^^ i) k) ` {..<nat n} = nic_kids n"
    unfolding I nic_kids_def shift_image [OF n, of "k div 2", symmetric] image_image by (simp add: mult.commute)
  have "int (nat n - 1) = n - 1" using n by simp
  then show "cur_kernfs_is_last n k t \<longleftrightarrow> t = (get_next_kernfs n ^^ (nat n - 1)) k"
    unfolding I cur_kernfs_is_last_def by (auto simp: algebra_simps)
  show "(get_next_kernfs n ^^ nat n) k = k" unfolding I using n D by simp
  have "((k div 2 + 1) mod n + n - 1) mod n = (k div 2 + 1 + (n - 1)) mod n"
    by (metis add_diff_eq mod_add_left_eq)
  also have "\<dots> = k div 2" using D by simp
  finally show "get_prev_kernfs n (get_next_kernfs n k) = k"
    unfolding get_prev_kernfs_def get_next_kernfs_def using D by simp
qed

theorem chain_visits_all_witness:
  "(\<lambda>i. (get_next_kernfs 3 ^^ i) 4) ` {..<3} = nic_kids 3 \<and> cur_kernfs_is_last 3 4 2"
proof -
  have k: "(4::int) \<in> nic_kids 3" by (auto simp: nic_kids_def image_iff intro: bexI [of _ 2])
  from chain_visits_all [OF _ k, of 2] show ?thesis
    by (simp add: numeral_2_eq_2 get_next_kernfs_def)
qed

end
