(* ===== verification/HostMemcpy.thy ===== *)
theory HostMemcpy
  imports Circbuf Chain Oplog
begin

text \<open>
  The last stage of the publish pipeline: the SmartNIC collects the copy lists that were
  built from fetched log groups, in fetch order, and hands them in batches to the host,
  which copies log data to its final place and acknowledges the batch to the LibFS.

  Models \<open>kernfs/nic/host_memcpy.c\<close> in the \<open>BATCH_MEMCPY_LIST\<close> build, the scatter-gather
  metadata of \<open>libfs/src/distributed/rpc_interface.h\<close>, and \<open>memcpy_worker\<close> with the
  acknowledgement of \<open>kernfs/fs.c\<close>. Both queues of a replication context are circular
  buffers of the theory Circbuf, and instances of its locale. A remote
  write is the list of entries that reaches the host's buffer; the addresses of buffers
  appear where they are freed.
\<close>

section \<open>State\<close>

record memcpy_meta =
  mm_is_single_blk :: bool
  mm_to_dev :: nat
  mm_blk_nr :: nat
  mm_data :: nat
  mm_size :: nat
  mm_offset_in_blk :: nat

definition MEMCPY_META_SIZE :: nat where "MEMCPY_META_SIZE = 32"
definition g_memcpy_meta_cnt :: nat where "g_memcpy_meta_cnt = g_log_size"
definition MAX_SEND_SGE_SIZE :: nat where "MAX_SEND_SGE_SIZE = 30"

text \<open>\<open>ma_addr\<close> is the address of the buffer, \<open>ma_buf\<close> what it holds.\<close>

record memcpy_meta_array =
  ma_id :: nat
  ma_addr :: nat
  ma_buf :: "memcpy_meta list"

record host_memcpy_arg =
  hm_seqn :: nat
  hm_libfs_id :: nat
  hm_array :: memcpy_meta_array
  hm_loghdr_buf :: nat
  hm_log_buf :: nat
  hm_fetch_loghdr_done_p :: nat
  hm_fetch_log_done_p :: nat
  hm_processed :: bool
  hm_digest_start_blknr :: nat
  hm_n_orig_loghdrs :: nat
  hm_n_orig_blks :: nat
  hm_reset_meta :: bool

record copy_done_arg =
  cd_libfs_id :: nat
  cd_seqn :: nat
  cd_processed :: bool
  cd_start_blknr :: nat
  cd_log_size :: nat
  cd_orig_log_size :: nat
  cd_fsync :: bool

record pipeline_end_arg =
  pe_libfs_id :: nat
  pe_seqn :: nat
  pe_loghdr_buf :: nat
  pe_log_buf :: nat
  pe_fetch_loghdr_done_p :: nat
  pe_fetch_log_done_p :: nat

record sge_entry =
  sge_addr :: nat
  sge_data :: "memcpy_meta list"
  sge_length :: nat

text \<open>\<open>sge_count\<close> is the number of entries.\<close>

record rdma_meta =
  rm_addr :: nat
  rm_length :: nat
  rm_sge_entries :: "sge_entry list"

record memcpy_list_batch_meta =
  bm_r_meta :: rdma_meta
  bm_first_seqn :: nat
  bm_digest_start_blknr :: nat
  bm_n_orig_loghdrs :: nat
  bm_n_orig_blks :: nat
  bm_reset_meta :: bool

text \<open>The fields of the request message \<open>RPC_MEMCPY_REQ\<close>.\<close>

record mc_arg =
  mc_libfs_id :: nat
  mc_fetch_seqn :: nat
  mc_n_memcpy_entries :: nat
  mc_digest_start_blknr :: nat
  mc_n_digested :: nat
  mc_n_digested_blks :: nat
  mc_reset_meta :: bool
  mc_sge_cnt :: nat

text \<open>
  The replication context of one LibFS on a SmartNIC. \<open>mc_sent\<close> records the requests sent
  to the host, with what was written to the host's buffer before; \<open>host_up\<close> says whether
  the host acknowledges.
\<close>

record nic_ctx =
  nx_libfs_id :: nat
  nx_kernfs_id :: int
  nx_local_kid :: int
  nx_n_nodes :: int
  host_memcpy_req_buf :: "host_memcpy_arg circbuf"
  next_host_memcpy_seqn :: nat
  local_copy_done_buf :: "copy_done_arg circbuf"
  next_copy_done_seqn :: nat
  mcpy_list_batch_meta :: memcpy_list_batch_meta
  host_memcpy_batch_max :: nat
  host_memcpy_buf_addr :: nat
  mc_sent :: "(mc_arg \<times> memcpy_meta list) list"
  slab_freed :: "nat list"
  pipeline_end :: "pipeline_end_arg list"
  nic_words :: "nat \<Rightarrow> nat"
  host_up :: bool

section \<open>Scatter-gather metadata\<close>

definition reset_sge_rdma_meta :: rdma_meta where
  "reset_sge_rdma_meta = \<lparr>rm_addr = 0, rm_length = 0, rm_sge_entries = []\<rparr>"

definition set_rdma_meta_dst :: "rdma_meta \<Rightarrow> nat \<Rightarrow> rdma_meta" where
  "set_rdma_meta_dst r dst = r\<lparr>rm_addr := dst\<rparr>"

text \<open>The allocation has room for \<open>MAX_SEND_SGE_SIZE\<close> entries.\<close>

definition add_sge_entry :: "rdma_meta \<Rightarrow> nat \<Rightarrow> memcpy_meta list \<Rightarrow> nat \<Rightarrow> rdma_meta run" where
  "add_sge_entry r src dat io_size =
     (if length (rm_sge_entries r) \<ge> MAX_SEND_SGE_SIZE then Failed (OutOfBounds ''sge_entries'')
      else let sz = cast_w 32 io_size
           in Done (r\<lparr>rm_length := add64 (rm_length r) sz,
                rm_sge_entries := rm_sge_entries r @ [\<lparr>sge_addr = src, sge_data = dat, sge_length = sz\<rparr>]\<rparr>))"

text \<open>What a remote write transfers.\<close>

definition sge_content :: "sge_entry \<Rightarrow> memcpy_meta list" where
  "sge_content e = take (sge_length e div MEMCPY_META_SIZE) (sge_data e)"

definition gather :: "rdma_meta \<Rightarrow> memcpy_meta list" where
  "gather r = concat (map sge_content (rm_sge_entries r))"

section \<open>Buffers of the host\<close>

text \<open>The buffers of the LibFS processes follow one another; the address of a process's buffer.\<close>

fun register_host_memcpy_buf_addrs :: "nat \<Rightarrow> nat \<Rightarrow> nat" where
  "register_host_memcpy_buf_addrs buf_start_addr 0 = buf_start_addr"
| "register_host_memcpy_buf_addrs buf_start_addr (Suc i) =
     add64 (register_host_memcpy_buf_addrs buf_start_addr i) (MEMCPY_META_SIZE * g_memcpy_meta_cnt)"

section \<open>Sending a batch\<close>

definition rpc_wait_ack :: "nic_ctx \<Rightarrow> nic_ctx run" where
  "rpc_wait_ack c = (if host_up c then Done c else Waiting)"

definition send_batched_memcpy_req_to_host :: "nic_ctx \<Rightarrow> nic_ctx run" where
  "send_batched_memcpy_req_to_host c =
     (let bm = mcpy_list_batch_meta c; r = bm_r_meta bm;
          n = rm_length r div MEMCPY_META_SIZE
      in mlfs_assert (n \<le> g_memcpy_meta_cnt) ''size <= g_memcpy_meta_cnt''
        (let r' = set_rdma_meta_dst r (host_memcpy_buf_addr c);
             msg = \<lparr>mc_libfs_id = nx_libfs_id c, mc_fetch_seqn = bm_first_seqn bm, mc_n_memcpy_entries = n,
                    mc_digest_start_blknr = bm_digest_start_blknr bm, mc_n_digested = bm_n_orig_loghdrs bm,
                    mc_n_digested_blks = bm_n_orig_blks bm, mc_reset_meta = bm_reset_meta bm,
                    mc_sge_cnt = length (rm_sge_entries r')\<rparr>
         in run_map (\<lambda>c'. c'\<lparr>slab_freed := slab_freed c' @ map sge_addr (rm_sge_entries r'),
                              mcpy_list_batch_meta := bm\<lparr>bm_r_meta := reset_sge_rdma_meta\<rparr>\<rparr>)
              (rpc_wait_ack (c\<lparr>mc_sent := mc_sent c @ [(msg, gather r')]\<rparr>))))"

definition publish_all_remains :: "nic_ctx \<Rightarrow> nic_ctx run" where
  "publish_all_remains c = send_batched_memcpy_req_to_host c"

section \<open>Queues\<close>

definition hm_mark :: "host_memcpy_arg \<Rightarrow> host_memcpy_arg" where
  "hm_mark x = x\<lparr>hm_processed := True\<rparr>"

definition cd_mark :: "copy_done_arg \<Rightarrow> copy_done_arg" where
  "cd_mark x = x\<lparr>cd_processed := True\<rparr>"

definition enqueue_host_memcpy_req :: "host_memcpy_arg \<Rightarrow> nic_ctx \<Rightarrow> nic_ctx run" where
  "enqueue_host_memcpy_req x c =
     run_map (\<lambda>b. c\<lparr>host_memcpy_req_buf := b\<rparr>) (circ_enqueue CIRC_BUF_SIZE x (host_memcpy_req_buf c))"

definition dequeue_host_memcpy_req :: "nic_ctx \<Rightarrow> host_memcpy_arg option \<times> nic_ctx" where
  "dequeue_host_memcpy_req c =
     (case circ_dequeue hm_seqn hm_processed hm_mark CIRC_BUF_SIZE (host_memcpy_req_buf c) (next_host_memcpy_seqn c) of
        (r, b, q) \<Rightarrow> (r, c\<lparr>host_memcpy_req_buf := b, next_host_memcpy_seqn := q\<rparr>))"

definition enqueue_copy_done_item :: "copy_done_arg \<Rightarrow> nic_ctx \<Rightarrow> nic_ctx run" where
  "enqueue_copy_done_item x c =
     run_map (\<lambda>b. c\<lparr>local_copy_done_buf := b\<rparr>) (circ_enqueue CIRC_BUF_SIZE x (local_copy_done_buf c))"

definition dequeue_copy_done_item :: "nic_ctx \<Rightarrow> bool \<times> nic_ctx" where
  "dequeue_copy_done_item c =
     (case circ_dequeue cd_seqn cd_processed cd_mark CIRC_BUF_SIZE (local_copy_done_buf c) (next_copy_done_seqn c) of
        (r, b, q) \<Rightarrow> (r \<noteq> None, c\<lparr>local_copy_done_buf := b, next_copy_done_seqn := q\<rparr>))"

text \<open>The polling loops. A round that neither returns an item nor moves the tail changes nothing.\<close>

fun poll_host_memcpy_req :: "nat \<Rightarrow> nic_ctx \<Rightarrow> (host_memcpy_arg \<times> nic_ctx) run" where
  "poll_host_memcpy_req 0 c = Waiting"
| "poll_host_memcpy_req (Suc n) c =
     (case dequeue_host_memcpy_req c of
        (Some x, c') \<Rightarrow> Done (x, c')
      | (None, c') \<Rightarrow>
          if cb_tail (host_memcpy_req_buf c') = cb_tail (host_memcpy_req_buf c) then Waiting
          else poll_host_memcpy_req n c')"

fun poll_copy_done_item :: "nat \<Rightarrow> nic_ctx \<Rightarrow> nic_ctx run" where
  "poll_copy_done_item 0 c = Waiting"
| "poll_copy_done_item (Suc n) c =
     (case dequeue_copy_done_item c of
        (True, c') \<Rightarrow> Done c'
      | (False, c') \<Rightarrow>
          if cb_tail (local_copy_done_buf c') = cb_tail (local_copy_done_buf c) then Waiting
          else poll_copy_done_item n c')"

section \<open>Collecting a batch\<close>

definition add_memcpy_list_to_batch :: "host_memcpy_arg \<Rightarrow> nic_ctx \<Rightarrow> (bool \<times> nic_ctx) run" where
  "add_memcpy_list_to_batch x c =
     (let bm = mcpy_list_batch_meta c; arr = hm_array x
      in run_bind (add_sge_entry (bm_r_meta bm) (ma_addr arr) (ma_buf arr) (MEMCPY_META_SIZE * ma_id arr))
        (\<lambda>r. let n = length (rm_sge_entries r);
                 bm' = (if n = 1
                        then bm\<lparr>bm_r_meta := r, bm_first_seqn := hm_seqn x,
                               bm_digest_start_blknr := hm_digest_start_blknr x,
                               bm_n_orig_loghdrs := hm_n_orig_loghdrs x, bm_n_orig_blks := hm_n_orig_blks x,
                               bm_reset_meta := hm_reset_meta x\<rparr>
                        else bm\<lparr>bm_r_meta := r,
                               bm_n_orig_loghdrs := add32 (bm_n_orig_loghdrs bm) (hm_n_orig_loghdrs x),
                               bm_n_orig_blks := add64 (bm_n_orig_blks bm) (hm_n_orig_blks x),
                               bm_reset_meta := (if bm_reset_meta bm then True else hm_reset_meta x)\<rparr>)
             in mlfs_assert (n \<le> host_memcpy_batch_max c) ''sge_count <= host_memcpy_batch_max''
                  (Done (n = host_memcpy_batch_max c, c\<lparr>mcpy_list_batch_meta := bm'\<rparr>))))"

section \<open>The stage\<close>

definition mk_pipeline_end_arg :: "nat \<Rightarrow> host_memcpy_arg \<Rightarrow> pipeline_end_arg" where
  "mk_pipeline_end_arg libfs_id x =
     \<lparr>pe_libfs_id = libfs_id, pe_seqn = hm_seqn x, pe_loghdr_buf = hm_loghdr_buf x, pe_log_buf = hm_log_buf x,
      pe_fetch_loghdr_done_p = hm_fetch_loghdr_done_p x, pe_fetch_log_done_p = hm_fetch_log_done_p x\<rparr>"

text \<open>Waiting for the local or remote copy of the log, on every node but the first.\<close>

definition wait_copy_done :: "nic_ctx \<Rightarrow> nic_ctx run" where
  "wait_copy_done c =
     run_bind (is_first_kernfs (nx_local_kid c) (nx_kernfs_id c)) (\<lambda>first.
       if first then Done c else poll_copy_done_item circ_cap c)"

definition finish_host_memcpy :: "host_memcpy_arg \<Rightarrow> nic_ctx \<Rightarrow> nic_ctx run" where
  "finish_host_memcpy x c =
     run_map (\<lambda>lst. if lst then c\<lparr>slab_freed := slab_freed c @ [hm_loghdr_buf x]\<rparr>
                    else c\<lparr>pipeline_end := pipeline_end c @ [mk_pipeline_end_arg (nx_libfs_id c) x]\<rparr>)
       (is_last_kernfs (nx_n_nodes c) (nx_local_kid c) (nx_kernfs_id c))"

definition request_host_memcpy :: "nic_ctx \<Rightarrow> nic_ctx run" where
  "request_host_memcpy c =
     run_bind (poll_host_memcpy_req circ_cap c) (\<lambda>(x, c1).
     run_bind (wait_copy_done c1) (\<lambda>c2.
     run_bind (add_memcpy_list_to_batch x c2) (\<lambda>(full, c3).
     run_bind (if full then send_batched_memcpy_req_to_host c3 else Done c3) (finish_host_memcpy x))))"

text \<open>Freeing the buffers of a log group once the next replica has fetched them.\<close>

definition end_pipeline :: "pipeline_end_arg \<Rightarrow> nic_ctx \<Rightarrow> nic_ctx run" where
  "end_pipeline pe c =
     (if nic_words c (pe_fetch_loghdr_done_p pe) = 0 then Waiting
      else let c1 = c\<lparr>slab_freed := slab_freed c @ [pe_loghdr_buf pe, pe_fetch_loghdr_done_p pe]\<rparr>
           in run_bind (is_first_kernfs (nx_local_kid c) (nx_kernfs_id c)) (\<lambda>first.
                if first
                then if nic_words c1 (pe_fetch_log_done_p pe) = 0 then Waiting
                     else Done (c1\<lparr>slab_freed := slab_freed c1 @ [pe_log_buf pe, pe_fetch_log_done_p pe]\<rparr>)
                else Done c1))"

section \<open>The host\<close>

record nvm_copy =
  nc_blk :: nat
  nc_off :: nat
  nc_size :: nat
  nc_data :: nat

record host_fs =
  hf_kernfs_id :: int
  hf_local_kid :: "nat \<Rightarrow> int"
  hf_memcpy_buf :: "nat \<Rightarrow> memcpy_meta list"
  hf_copies :: "nvm_copy list"
  hf_acks :: "(nat \<times> digest_response) list"
  hf_digest_end_blknrs :: "nat \<Rightarrow> nat"
  hf_map_base_addr :: nat
  hf_persist_clflush :: bool
  hf_ack_bits :: nat

definition nvm_copy_of :: "memcpy_meta \<Rightarrow> nvm_copy" where
  "nvm_copy_of m = \<lparr>nc_blk = mm_blk_nr m, nc_off = (if mm_is_single_blk m then mm_offset_in_blk m else 0),
     nc_size = mm_size m, nc_data = mm_data m\<rparr>"

text \<open>\<open>meta\<close> is the variable that the loop leaves behind; it is not initialised.\<close>

fun memcpy_loop :: "memcpy_meta list \<Rightarrow> nat \<Rightarrow> nat \<Rightarrow> memcpy_meta option \<Rightarrow> host_fs \<Rightarrow> (memcpy_meta option \<times> host_fs) run" where
  "memcpy_loop meta_buf i 0 meta h = Done (meta, h)"
| "memcpy_loop meta_buf i (Suc n) meta h =
     (if i \<ge> length meta_buf then Failed (OutOfBounds ''meta_buf'')
      else let m = meta_buf ! i
           in mlfs_assert (mm_size m > 0) ''b->b_size > 0''
                (memcpy_loop meta_buf (i + 1) n (Some m) (h\<lparr>hf_copies := hf_copies h @ [nvm_copy_of m]\<rparr>)))"

text \<open>The message \<open>RPC_PUBLISH_ACK\<close>.\<close>

definition publish_ack :: "mc_arg \<Rightarrow> digest_response" where
  "publish_ack a = \<lparr>dr_fetch_seqn = mc_fetch_seqn a, dr_digest_start_blknr = mc_digest_start_blknr a,
     dr_n_digested = mc_n_digested a, dr_n_digested_blks = mc_n_digested_blks a,
     dr_reset_meta = mc_reset_meta a, dr_sge_cnt = mc_sge_cnt a\<rparr>"

definition send_batched_publish_ack_to_libfs :: "mc_arg \<Rightarrow> host_fs \<Rightarrow> host_fs" where
  "send_batched_publish_ack_to_libfs a h = h\<lparr>hf_acks := hf_acks h @ [(mc_libfs_id a, publish_ack a)]\<rparr>"

definition memcpy_worker :: "mc_arg \<Rightarrow> host_fs \<Rightarrow> host_fs run" where
  "memcpy_worker a h =
     run_bind (memcpy_loop (hf_memcpy_buf h (mc_libfs_id a)) 0 (mc_n_memcpy_entries a) None h) (\<lambda>(meta, h1).
     run_bind
       (if hf_persist_clflush h1
        then case meta of
               None \<Rightarrow> Failed (NullDeref ''meta'')
             | Some m \<Rightarrow> Done (h1\<lparr>hf_digest_end_blknrs := (hf_digest_end_blknrs h1)(mc_libfs_id a :=
                 sub64 (sub64 (add64 (mm_data m) (mm_size m)) 1) (hf_map_base_addr h1) div 2 ^ g_block_size_shift)\<rparr>)
        else Done h1) (\<lambda>h2.
     let h3 = (if is_local_kernfs (hf_local_kid h2 (mc_libfs_id a)) (hf_kernfs_id h2)
               then send_batched_publish_ack_to_libfs a h2 else h2)
     in Done (h3\<lparr>hf_ack_bits := hf_ack_bits h3 + 1\<rparr>)))"

text \<open>The host handles one request: the remote write has filled its buffer, and the worker runs.\<close>

definition host_handle :: "mc_arg \<times> memcpy_meta list \<Rightarrow> host_fs \<Rightarrow> host_fs run" where
  "host_handle = (\<lambda>(a, es) h. memcpy_worker a
     (h\<lparr>hf_memcpy_buf := (hf_memcpy_buf h)(mc_libfs_id a := es @ drop (length es) (hf_memcpy_buf h (mc_libfs_id a)))\<rparr>))"

section \<open>The queues deliver in order\<close>

interpretation hmq: circ_item hm_seqn hm_processed hm_mark
  by unfold_locales (simp_all add: hm_mark_def)

interpretation cdq: circ_item cd_seqn cd_processed cd_mark
  by unfold_locales (simp_all add: cd_mark_def)

text \<open>The polling loops are the loop of Circbuf on the queue of the context.\<close>

lemma poll_host_memcpy_req_eq:
  "poll_host_memcpy_req n c =
   run_map (\<lambda>(x, b, q). (x, c\<lparr>host_memcpy_req_buf := b, next_host_memcpy_seqn := q\<rparr>))
     (circ_take hm_seqn hm_processed hm_mark CIRC_BUF_SIZE n (host_memcpy_req_buf c) (next_host_memcpy_seqn c))"
proof (induction n arbitrary: c)
  case (Suc n)
  show ?case by (auto simp: Suc dequeue_host_memcpy_req_def circ_take.simps split: prod.splits option.splits)
qed (simp add: circ_take.simps)

lemma poll_copy_done_item_eq:
  "poll_copy_done_item n c =
   run_map (\<lambda>(x, b, q). c\<lparr>local_copy_done_buf := b, next_copy_done_seqn := q\<rparr>)
     (circ_take cd_seqn cd_processed cd_mark CIRC_BUF_SIZE n (local_copy_done_buf c) (next_copy_done_seqn c))"
proof (induction n arbitrary: c)
  case (Suc n)
  show ?case by (auto simp: Suc dequeue_copy_done_item_def circ_take.simps split: prod.splits option.splits bool.splits)
qed (simp add: circ_take.simps)

section \<open>Lists reach the host in fetch order\<close>

definition hm_list :: "host_memcpy_arg \<Rightarrow> memcpy_meta list" where
  "hm_list x = take (ma_id (hm_array x)) (ma_buf (hm_array x))"

text \<open>All entries handed to the host so far, and those that wait in the batch.\<close>

definition host_stream :: "nic_ctx \<Rightarrow> memcpy_meta list" where
  "host_stream c = concat (map snd (mc_sent c)) @ gather (bm_r_meta (mcpy_list_batch_meta c))"

definition item_ok :: "nat \<Rightarrow> host_memcpy_arg \<Rightarrow> bool" where
  "item_ok mx x \<longleftrightarrow> ma_id (hm_array x) \<le> length (ma_buf (hm_array x)) \<and> ma_id (hm_array x) * mx \<le> g_memcpy_meta_cnt \<and>
     hm_list x \<noteq> [] \<and> (\<forall>m \<in> set (hm_list x). 0 < mm_size m)"

definition batch_ok :: "nat \<Rightarrow> rdma_meta \<Rightarrow> bool" where
  "batch_ok mx r \<longleftrightarrow> rm_length r = MEMCPY_META_SIZE * length (gather r) \<and>
     length (gather r) * mx \<le> length (rm_sge_entries r) * g_memcpy_meta_cnt \<and>
     (rm_sge_entries r \<noteq> [] \<longrightarrow> gather r \<noteq> []) \<and> (\<forall>m \<in> set (gather r). 0 < mm_size m)"

definition msg_ok :: "mc_arg \<times> memcpy_meta list \<Rightarrow> bool" where
  "msg_ok = (\<lambda>(a, es). mc_n_memcpy_entries a = length es \<and> es \<noteq> [] \<and> (\<forall>m \<in> set es. 0 < mm_size m))"

abbreviation hm_pending :: "nic_ctx \<Rightarrow> host_memcpy_arg set" where
  "hm_pending c \<equiv> pending hm_seqn (host_memcpy_req_buf c) (next_host_memcpy_seqn c)"

abbreviation cd_pending :: "nic_ctx \<Rightarrow> copy_done_arg set" where
  "cd_pending c \<equiv> pending cd_seqn (local_copy_done_buf c) (next_copy_done_seqn c)"

definition nic_wf :: "nic_ctx \<Rightarrow> bool" where
  "nic_wf c \<longleftrightarrow> circ_wf hm_seqn hm_processed (host_memcpy_req_buf c) (next_host_memcpy_seqn c) \<and>
     circ_wf cd_seqn cd_processed (local_copy_done_buf c) (next_copy_done_seqn c) \<and>
     host_memcpy_batch_max c \<le> MAX_SEND_SGE_SIZE \<and>
     length (rm_sge_entries (bm_r_meta (mcpy_list_batch_meta c))) < host_memcpy_batch_max c \<and>
     batch_ok (host_memcpy_batch_max c) (bm_r_meta (mcpy_list_batch_meta c)) \<and>
     (\<forall>x \<in> hm_pending c. item_ok (host_memcpy_batch_max c) x) \<and> (\<forall>m \<in> set (mc_sent c). msg_ok m) \<and> host_up c \<and> 0 \<le> nx_local_kid c"

definition nx_first :: "nic_ctx \<Rightarrow> bool" where
  "nx_first c \<longleftrightarrow> nx_kernfs_id c = nx_local_kid c - 1"

lemma is_first_kernfs_nx: "0 \<le> nx_local_kid c \<Longrightarrow> is_first_kernfs (nx_local_kid c) (nx_kernfs_id c) = Done (nx_first c)"
  by (simp add: is_first_kernfs_def first_kernfs_id_def host_kid_to_nic_kid_def nx_first_def)

lemma is_last_kernfs_nx: "0 \<le> nx_local_kid c \<Longrightarrow> \<exists>l. is_last_kernfs (nx_n_nodes c) (nx_local_kid c) (nx_kernfs_id c) = Done l"
  by (simp add: is_last_kernfs_def first_kernfs_id_def host_kid_to_nic_kid_def)

lemma hm_mark_fields [simp]:
  "hm_array (hm_mark x) = hm_array x" "hm_list (hm_mark x) = hm_list x" "item_ok mx (hm_mark x) = item_ok mx x"
  by (simp_all add: hm_mark_def hm_list_def item_ok_def)

lemma item_ok_bound: "item_ok mx x \<Longrightarrow> 0 < mx \<Longrightarrow> MEMCPY_META_SIZE * ma_id (hm_array x) < 2 ^ 32"
proof -
  assume "item_ok mx x" and "0 < mx"
  then have "ma_id (hm_array x) \<le> g_memcpy_meta_cnt"
    unfolding item_ok_def by (metis mult_le_mono2 mult.right_neutral Suc_leI One_nat_def order_trans)
  then show ?thesis by (simp add: g_memcpy_meta_cnt_def g_log_size_def MEMCPY_META_SIZE_def)
qed

lemma gather_append: "gather (r\<lparr>rm_length := n, rm_sge_entries := rm_sge_entries r @ [e]\<rparr>) = gather r @ sge_content e"
  by (simp add: gather_def)

lemma batch_bound:
  assumes "batch_ok mx r" and "length (rm_sge_entries r) \<le> mx" and "0 < mx"
  shows "length (gather r) \<le> g_memcpy_meta_cnt"
proof -
  have "length (gather r) * mx \<le> g_memcpy_meta_cnt * mx"
    using assms(1,2) unfolding batch_ok_def by (metis mult.commute mult_le_mono1 order_trans)
  then show ?thesis using assms(3) by simp
qed

lemma add_sge_entry_ok:
  assumes "batch_ok mx r" and "item_ok mx x" and "length (rm_sge_entries r) < mx" and "mx \<le> MAX_SEND_SGE_SIZE"
  obtains r' where "add_sge_entry r (ma_addr (hm_array x)) (ma_buf (hm_array x)) (MEMCPY_META_SIZE * ma_id (hm_array x)) = Done r'"
    "gather r' = gather r @ hm_list x" "length (rm_sge_entries r') = Suc (length (rm_sge_entries r))" "batch_ok mx r'"
proof -
  have p: "0 < mx" using assms(3) by simp
  let ?n = "MEMCPY_META_SIZE * ma_id (hm_array x)"
  have c: "cast_w 32 ?n = ?n" using item_ok_bound [OF assms(2) p] by (rule cast_w_id)
  have rl: "rm_length r + ?n < 2 ^ 64"
    using batch_bound [OF assms(1) less_imp_le [OF assms(3)] p] item_ok_bound [OF assms(2) p] assms(1)
    by (simp add: batch_ok_def MEMCPY_META_SIZE_def g_memcpy_meta_cnt_def g_log_size_def)
  define r' where "r' = r\<lparr>rm_length := rm_length r + ?n, rm_sge_entries := rm_sge_entries r @
    [\<lparr>sge_addr = ma_addr (hm_array x), sge_data = ma_buf (hm_array x), sge_length = ?n\<rparr>]\<rparr>"
  have g: "gather r' = gather r @ hm_list x"
    unfolding r'_def gather_append by (simp add: sge_content_def hm_list_def MEMCPY_META_SIZE_def)
  show thesis
  proof (rule that [of r'])
    show "add_sge_entry r (ma_addr (hm_array x)) (ma_buf (hm_array x)) ?n = Done r'"
      using assms(3,4) c rl by (simp add: add_sge_entry_def r'_def add_w_id Let_def)
    show "length (rm_sge_entries r') = Suc (length (rm_sge_entries r))" by (simp add: r'_def)
    have l: "length (hm_list x) = ma_id (hm_array x)" using assms(2) by (simp add: hm_list_def item_ok_def)
    have "rm_length r' = MEMCPY_META_SIZE * length (gather r')" unfolding g using assms(1) l
      by (simp add: batch_ok_def r'_def algebra_simps)
    moreover have "length (gather r') * mx \<le> length (rm_sge_entries r') * g_memcpy_meta_cnt"
      unfolding g using assms(1,2) l by (simp add: batch_ok_def r'_def item_ok_def algebra_simps)
    ultimately show "batch_ok mx r'" using assms(1,2) unfolding batch_ok_def g by (auto simp: item_ok_def)
  qed (rule g)
qed

text \<open>Adding a list to the batch, sending it when it is full, and the end of the stage.\<close>

abbreviation bm_of :: "nic_ctx \<Rightarrow> rdma_meta" where
  "bm_of c \<equiv> bm_r_meta (mcpy_list_batch_meta c)"

definition same_queues :: "nic_ctx \<Rightarrow> nic_ctx \<Rightarrow> bool" where
  "same_queues c c' \<longleftrightarrow> host_memcpy_req_buf c' = host_memcpy_req_buf c \<and>
     next_host_memcpy_seqn c' = next_host_memcpy_seqn c \<and> local_copy_done_buf c' = local_copy_done_buf c \<and>
     next_copy_done_seqn c' = next_copy_done_seqn c \<and> host_memcpy_batch_max c' = host_memcpy_batch_max c \<and>
     host_up c' = host_up c \<and> nx_local_kid c' = nx_local_kid c \<and> nx_kernfs_id c' = nx_kernfs_id c"

lemma send_step:
  assumes "batch_ok mx (bm_of c)" and "length (rm_sge_entries (bm_of c)) \<le> mx" and "0 < mx" and "host_up c"
    and "rm_sge_entries (bm_of c) \<noteq> []" and "\<forall>m \<in> set (mc_sent c). msg_ok m"
  shows "\<exists>c'. send_batched_memcpy_req_to_host c = Done c' \<and> host_stream c' = host_stream c \<and> same_queues c c' \<and>
    batch_ok mx (bm_of c') \<and> rm_sge_entries (bm_of c') = [] \<and> (\<forall>m \<in> set (mc_sent c'). msg_ok m)"
proof -
  have "length (gather (bm_of c)) \<le> g_memcpy_meta_cnt" by (rule batch_bound [OF assms(1-3)])
  then have n: "rm_length (bm_of c) div MEMCPY_META_SIZE \<le> g_memcpy_meta_cnt"
    "rm_length (bm_of c) div MEMCPY_META_SIZE = length (gather (bm_of c))" "gather (bm_of c) \<noteq> []"
    "\<forall>m \<in> set (gather (bm_of c)). 0 < mm_size m"
    using assms(1,5) by (simp_all add: batch_ok_def MEMCPY_META_SIZE_def)
  have "gather (set_rdma_meta_dst r a) = gather r" for r a by (simp add: set_rdma_meta_dst_def gather_def)
  moreover have "batch_ok mx reset_sge_rdma_meta" "gather reset_sge_rdma_meta = []" "rm_sge_entries reset_sge_rdma_meta = []"
    by (simp_all add: batch_ok_def reset_sge_rdma_meta_def gather_def)
  ultimately show ?thesis using n assms(4,6)
    by (auto simp: msg_ok_def send_batched_memcpy_req_to_host_def Let_def mlfs_assert_def rpc_wait_ack_def
        host_stream_def same_queues_def)
qed

lemma batch_step:
  assumes "batch_ok mx (bm_of c)" and "item_ok mx x" and "length (rm_sge_entries (bm_of c)) < mx"
    and "mx \<le> MAX_SEND_SGE_SIZE" and "host_memcpy_batch_max c = mx" and "host_up c"
    and "\<forall>m \<in> set (mc_sent c). msg_ok m"
  obtains c' where "run_bind (add_memcpy_list_to_batch x c)
      (\<lambda>(full, c3). if full then send_batched_memcpy_req_to_host c3 else Done c3) = Done c'"
    "host_stream c' = host_stream c @ hm_list x" "same_queues c c'"
    "batch_ok mx (bm_of c')" "length (rm_sge_entries (bm_of c')) < mx" "\<forall>m \<in> set (mc_sent c'). msg_ok m"
proof -
  obtain r where r: "add_sge_entry (bm_of c) (ma_addr (hm_array x)) (ma_buf (hm_array x))
      (MEMCPY_META_SIZE * ma_id (hm_array x)) = Done r"
    "gather r = gather (bm_of c) @ hm_list x" "length (rm_sge_entries r) = Suc (length (rm_sge_entries (bm_of c)))"
    "batch_ok mx r"
    using add_sge_entry_ok [OF assms(1-4)] by blast
  obtain bm where bm: "add_memcpy_list_to_batch x c = Done (length (rm_sge_entries r) = mx, c\<lparr>mcpy_list_batch_meta := bm\<rparr>)"
    "bm_r_meta bm = r"
    using r(1,3) assms(3,5) by (simp add: add_memcpy_list_to_batch_def Let_def mlfs_assert_def)
  show thesis
  proof (cases "length (rm_sge_entries r) = mx")
    case False
    then show thesis using bm r assms(3,7)
      by (intro that [of "c\<lparr>mcpy_list_batch_meta := bm\<rparr>"]) (simp_all add: host_stream_def same_queues_def)
  next
    case True
    let ?c = "c\<lparr>mcpy_list_batch_meta := bm\<rparr>"
    have "\<exists>c'. send_batched_memcpy_req_to_host ?c = Done c' \<and> host_stream c' = host_stream ?c \<and> same_queues ?c c' \<and>
        batch_ok mx (bm_of c') \<and> rm_sge_entries (bm_of c') = [] \<and> (\<forall>m \<in> set (mc_sent c'). msg_ok m)"
      by (rule send_step) (use True bm(2) r(4) assms(3,6,7) in auto)
    then obtain c' where c': "send_batched_memcpy_req_to_host ?c = Done c'" "host_stream c' = host_stream ?c"
      "same_queues ?c c'" "batch_ok mx (bm_of c')" "rm_sge_entries (bm_of c') = []"
      "\<forall>m \<in> set (mc_sent c'). msg_ok m" by blast
    show thesis
    proof (rule that [of c'])
      show "host_stream c' = host_stream c @ hm_list x" using c'(2) bm(2) r(2) by (simp add: host_stream_def)
      show "same_queues c c'" using c'(3) by (simp add: same_queues_def)
      show "length (rm_sge_entries (bm_of c')) < mx" using c'(5) assms(3) by simp
    qed (use True bm(1) c'(1,4,6) in simp_all)
  qed
qed

lemma finish_step:
  assumes "0 \<le> nx_local_kid c"
  shows "\<exists>c'. finish_host_memcpy x c = Done c' \<and> host_stream c' = host_stream c \<and> same_queues c c' \<and> bm_of c' = bm_of c \<and>
    mc_sent c' = mc_sent c"
proof -
  obtain l where "is_last_kernfs (nx_n_nodes c) (nx_local_kid c) (nx_kernfs_id c) = Done l"
    using is_last_kernfs_nx [OF assms] by blast
  then show ?thesis by (simp add: finish_host_memcpy_def host_stream_def same_queues_def)
qed

lemma wait_copy_done_step:
  assumes "nic_wf c" and "\<not> nx_first c \<Longrightarrow> next_copy_done_seqn c + 1 < 2 ^ 64 \<and> next_copy_done_seqn c \<in> cd_seqn ` cd_pending c"
  shows "\<exists>c' b q. wait_copy_done c = Done c' \<and> c' = c\<lparr>local_copy_done_buf := b, next_copy_done_seqn := q\<rparr> \<and>
    circ_wf cd_seqn cd_processed b q \<and> q = (if nx_first c then next_copy_done_seqn c else next_copy_done_seqn c + 1) \<and>
    {y \<in> cd_pending c. q \<le> cd_seqn y} \<subseteq> cd_pending c'"
proof (cases "nx_first c")
  case True
  then show ?thesis using assms(1)
    by (intro exI [of _ c] exI [of _ "local_copy_done_buf c"] exI [of _ "next_copy_done_seqn c"])
      (auto simp: wait_copy_done_def is_first_kernfs_nx nic_wf_def)
next
  case False
  have w: "circ_wf cd_seqn cd_processed (local_copy_done_buf c) (next_copy_done_seqn c)"
    using assms(1) by (simp add: nic_wf_def)
  obtain x b r where t: "circ_take cd_seqn cd_processed cd_mark CIRC_BUF_SIZE circ_cap (local_copy_done_buf c)
      (next_copy_done_seqn c) = Done (r, b, next_copy_done_seqn c + 1)" "cd_seqn x = next_copy_done_seqn c"
    "circ_wf cd_seqn cd_processed b (next_copy_done_seqn c + 1)"
    "pending cd_seqn b (next_copy_done_seqn c + 1) = cd_pending c - {x}"
    using cdq.take_delivers [OF w] assms(2) [OF False] cb_cnt_lt by blast
  let ?c = "c\<lparr>local_copy_done_buf := b, next_copy_done_seqn := next_copy_done_seqn c + 1\<rparr>"
  have k: "0 \<le> nx_local_kid c" using assms(1) by (simp add: nic_wf_def)
  have "wait_copy_done c = Done ?c"
    by (simp add: wait_copy_done_def is_first_kernfs_nx [OF k] False poll_copy_done_item_eq t(1) del: add_Suc_right One_nat_def)
  moreover have "cd_pending ?c = cd_pending c - {x}" using t(4) by simp
  then have "{y \<in> cd_pending c. next_copy_done_seqn c + 1 \<le> cd_seqn y} \<subseteq> cd_pending ?c" using t(2) by fastforce
  ultimately show ?thesis using False t(3) by fastforce
qed

text \<open>The next request is queued, and behind the first node its copy notice as well.\<close>

definition ready :: "nic_ctx \<Rightarrow> nat \<Rightarrow> bool" where
  "ready c q \<longleftrightarrow> q \<in> hm_seqn ` hm_pending c \<and> (nx_first c \<or> q \<in> cd_seqn ` cd_pending c)"

definition in_step :: "nic_ctx \<Rightarrow> bool" where
  "in_step c \<longleftrightarrow> nx_first c \<or> next_copy_done_seqn c = next_host_memcpy_seqn c"

lemma poll_step:
  assumes wf: "nic_wf c" and q: "next_host_memcpy_seqn c = q" "q + 1 < 2 ^ 64" and rdy: "q \<in> hm_seqn ` hm_pending c"
  shows "\<exists>x r b c1. poll_host_memcpy_req circ_cap c = Done (r, c1) \<and>
    c1 = c\<lparr>host_memcpy_req_buf := b, next_host_memcpy_seqn := q + 1\<rparr> \<and> x \<in> hm_pending c \<and> hm_seqn x = q \<and>
    hm_list r = hm_list x \<and> item_ok (host_memcpy_batch_max c) r \<and> hm_pending c1 = hm_pending c - {x} \<and> nic_wf c1"
proof -
  have w: "circ_wf hm_seqn hm_processed (host_memcpy_req_buf c) q" using wf q by (simp add: nic_wf_def)
  obtain x b r where t: "circ_take hm_seqn hm_processed hm_mark CIRC_BUF_SIZE circ_cap (host_memcpy_req_buf c) q = Done (r, b, q + 1)"
    "x \<in> hm_pending c" "hm_seqn x = q" "r = x \<or> r = hm_mark x" "circ_wf hm_seqn hm_processed b (q + 1)"
    "pending hm_seqn b (q + 1) = hm_pending c - {x}"
    using hmq.take_delivers [OF w q(2)] rdy cb_cnt_lt unfolding q(1) by blast
  define c1 where "c1 = c\<lparr>host_memcpy_req_buf := b, next_host_memcpy_seqn := q + 1\<rparr>"
  have p1: "poll_host_memcpy_req circ_cap c = Done (r, c1)"
    by (simp add: poll_host_memcpy_req_eq q(1) t(1) c1_def del: add_Suc_right One_nat_def)
  have pend1: "hm_pending c1 = hm_pending c - {x}" using t(6) by (simp add: c1_def)
  have "circ_wf hm_seqn hm_processed (host_memcpy_req_buf c1) (next_host_memcpy_seqn c1)" using t(5) by (simp add: c1_def)
  moreover have "\<forall>y \<in> hm_pending c1. item_ok (host_memcpy_batch_max c) y" unfolding pend1 using wf by (simp add: nic_wf_def)
  ultimately have "nic_wf c1" using wf by (simp add: nic_wf_def c1_def)
  moreover have "hm_list r = hm_list x \<and> item_ok (host_memcpy_batch_max c) r" using t(2,4) wf by (auto simp: nic_wf_def)
  ultimately show ?thesis using p1 c1_def t(2,3) pend1 by blast
qed

lemma request_host_memcpy_parts:
  assumes "poll_host_memcpy_req circ_cap c = Done (r, c1)" and "wait_copy_done c1 = Done c2"
    and "run_bind (add_memcpy_list_to_batch r c2) (\<lambda>(full, c3). if full then send_batched_memcpy_req_to_host c3 else Done c3) = Done c3"
  shows "request_host_memcpy c = finish_host_memcpy r c3"
  using assms by (cases "add_memcpy_list_to_batch r c2") (auto simp: request_host_memcpy_def split: if_splits)

lemma request_step:
  assumes wf: "nic_wf c" and st: "in_step c" and q: "next_host_memcpy_seqn c = q" "q + 1 < 2 ^ 64" and rdy: "ready c q"
  shows "\<exists>x c'. request_host_memcpy c = Done c' \<and> x \<in> hm_pending c \<and> hm_seqn x = q \<and>
    host_stream c' = host_stream c @ hm_list x \<and> nic_wf c' \<and> in_step c' \<and> next_host_memcpy_seqn c' = q + 1 \<and>
    hm_pending c' = hm_pending c - {x} \<and> (\<forall>p > q. ready c p \<longrightarrow> ready c' p)"
proof -
  let ?mx = "host_memcpy_batch_max c"
  obtain x r b c1 where c1: "poll_host_memcpy_req circ_cap c = Done (r, c1)"
    "c1 = c\<lparr>host_memcpy_req_buf := b, next_host_memcpy_seqn := q + 1\<rparr>" and x: "x \<in> hm_pending c" "hm_seqn x = q"
    "hm_list r = hm_list x" and ok: "item_ok ?mx r" and pend1: "hm_pending c1 = hm_pending c - {x}" and wf1: "nic_wf c1"
    using poll_step [OF wf q] rdy unfolding ready_def by blast
  have same1: "local_copy_done_buf c1 = local_copy_done_buf c" "nx_first c1 = nx_first c" "next_copy_done_seqn c1 = next_copy_done_seqn c"
    by (simp_all add: c1(2) nx_first_def)
  have "next_copy_done_seqn c1 + 1 < 2 ^ 64 \<and> next_copy_done_seqn c1 \<in> cd_seqn ` cd_pending c1" if "\<not> nx_first c1"
    using that rdy st q unfolding same1 ready_def in_step_def by auto
  from wait_copy_done_step [OF wf1 this] obtain c2 b2 q2 where c2: "wait_copy_done c1 = Done c2"
    "c2 = c1\<lparr>local_copy_done_buf := b2, next_copy_done_seqn := q2\<rparr>" "circ_wf cd_seqn cd_processed b2 q2"
    "q2 = (if nx_first c1 then next_copy_done_seqn c1 else next_copy_done_seqn c1 + 1)"
    "{y \<in> cd_pending c1. q2 \<le> cd_seqn y} \<subseteq> cd_pending c2" by blast
  have hm2: "hm_pending c2 = hm_pending c1" by (simp add: c2(2))
  have wf2: "nic_wf c2" using wf1 c2(3) by (simp add: c2(2) nic_wf_def)
  obtain c3 where c3: "run_bind (add_memcpy_list_to_batch r c2)
      (\<lambda>(full, c3). if full then send_batched_memcpy_req_to_host c3 else Done c3) = Done c3"
    "host_stream c3 = host_stream c2 @ hm_list r" "same_queues c2 c3" "batch_ok ?mx (bm_of c3)"
    "length (rm_sge_entries (bm_of c3)) < ?mx" "\<forall>m \<in> set (mc_sent c3). msg_ok m"
    by (rule batch_step [of ?mx c2 r]) (use wf2 ok in \<open>auto simp: nic_wf_def c2(2) c1(2)\<close>)
  have "0 \<le> nx_local_kid c3" using wf2 c3(3) by (simp add: nic_wf_def same_queues_def)
  then obtain c4 where c4: "finish_host_memcpy r c3 = Done c4" "host_stream c4 = host_stream c3" "same_queues c3 c4"
    "bm_of c4 = bm_of c3" "mc_sent c4 = mc_sent c3"
    using finish_step by blast
  have req: "request_host_memcpy c = Done c4" using request_host_memcpy_parts [OF c1(1) c2(1) c3(1)] c4(1) by simp
  have sq: "same_queues c2 c4" using c3(3) c4(3) by (simp add: same_queues_def)
  have wf4: "nic_wf c4" using wf2 sq c3(4-6) unfolding nic_wf_def c4(4,5) same_queues_def by (simp add: c2(2) c1(2))
  have str: "host_stream c4 = host_stream c @ hm_list x"
    using c4(2) c3(2) x(3) by (auto simp: c2(2) c1(2) host_stream_def)
  have n4: "next_host_memcpy_seqn c4 = q + 1" "next_copy_done_seqn c4 = q2" "nx_first c4 = nx_first c"
    using sq by (simp_all add: same_queues_def c2(2) c1(2) nx_first_def)
  have p4: "hm_pending c4 = hm_pending c - {x}" "cd_pending c4 = cd_pending c2"
    using sq pend1 unfolding same_queues_def hm2 [symmetric] by auto
  have "in_step c4" using st c2(4) q unfolding in_step_def n4 same1 by auto
  moreover have hm: "{y \<in> hm_pending c. q < hm_seqn y} \<subseteq> hm_pending c4"
    unfolding p4(1) using x(2) by (blast intro: less_irrefl)
  moreover have "ready c4 p" if "p > q" "ready c p" for p
  proof -
    have "p \<in> hm_seqn ` hm_pending c4" using that hm unfolding ready_def by blast
    moreover have "p \<in> cd_seqn ` cd_pending c4" if "\<not> nx_first c4"
    proof -
      have "{y \<in> cd_pending c. q + 1 \<le> cd_seqn y} \<subseteq> cd_pending c2" "p \<in> cd_seqn ` cd_pending c"
        using c2(4,5) st q that \<open>ready c p\<close> unfolding n4 same1 in_step_def ready_def by simp_all
      with \<open>p > q\<close> show ?thesis unfolding p4(2) by (blast intro: Suc_leI [unfolded Suc_eq_plus1])
    qed
    ultimately show ?thesis unfolding ready_def by blast
  qed
  ultimately show ?thesis using req x(1,2) str wf4 n4(1) p4(1) by blast
qed

fun request_host_memcpys :: "nat \<Rightarrow> nic_ctx \<Rightarrow> nic_ctx run" where
  "request_host_memcpys 0 c = Done c"
| "request_host_memcpys (Suc n) c = run_bind (request_host_memcpy c) (request_host_memcpys n)"

lemma requests_stream:
  assumes "nic_wf c" and "in_step c" and "next_host_memcpy_seqn c = q" and "q + n < 2 ^ 64" and "\<forall>p \<in> {q..<q + n}. ready c p"
  shows "\<exists>xs c'. request_host_memcpys n c = Done c' \<and> map hm_seqn xs = [q..<q + n] \<and> set xs \<subseteq> hm_pending c \<and>
    host_stream c' = host_stream c @ concat (map hm_list xs) \<and> nic_wf c'"
  using assms
proof (induction n arbitrary: c q)
  case 0
  then show ?case by (auto intro: exI [of _ "[]"])
next
  case (Suc n)
  have "q + 1 < 2 ^ 64" "ready c q" using Suc.prems(4,5) by auto
  from request_step [OF Suc.prems(1-3) this] obtain x c1 where c1: "request_host_memcpy c = Done c1" "x \<in> hm_pending c"
    "hm_seqn x = q" "host_stream c1 = host_stream c @ hm_list x" "nic_wf c1" "in_step c1" "next_host_memcpy_seqn c1 = q + 1"
    "hm_pending c1 = hm_pending c - {x}" "\<forall>p > q. ready c p \<longrightarrow> ready c1 p" by blast
  have "\<forall>p \<in> {q + 1..<q + 1 + n}. ready c1 p" using Suc.prems(5) c1(9) by simp
  then obtain xs c' where ih: "request_host_memcpys n c1 = Done c'" "map hm_seqn xs = [q + 1..<q + 1 + n]"
    "set xs \<subseteq> hm_pending c1" "host_stream c' = host_stream c1 @ concat (map hm_list xs)" "nic_wf c'"
    using Suc.IH [OF c1(5-7)] Suc.prems(4) by auto
  have "map hm_seqn (x # xs) = [q..<q + Suc n]" using ih(2) c1(3) by (simp add: upt_conv_Cons)
  moreover have "set (x # xs) \<subseteq> hm_pending c" using ih(3) c1(2,8) by auto
  moreover have "host_stream c' = host_stream c @ concat (map hm_list (x # xs))" using ih(4) c1(4) by simp
  moreover have "request_host_memcpys (Suc n) c = Done c'" using c1(1) ih(1) by simp
  ultimately show ?case using ih(5) by blast
qed

section \<open>What the host does with them\<close>

fun host_run :: "(mc_arg \<times> memcpy_meta list) list \<Rightarrow> host_fs \<Rightarrow> host_fs run" where
  "host_run [] h = Done h"
| "host_run (m # ms) h = run_bind (host_handle m h) (host_run ms)"

lemma memcpy_loop_copies:
  assumes "i + n \<le> length buf" and "\<forall>m \<in> set (take n (drop i buf)). 0 < mm_size m"
  shows "memcpy_loop buf i n meta h = Done (if n = 0 then meta else Some (buf ! (i + n - 1)),
    h\<lparr>hf_copies := hf_copies h @ map nvm_copy_of (take n (drop i buf))\<rparr>)"
  using assms
proof (induction n arbitrary: i meta h)
  case (Suc n)
  have d: "drop i buf = buf ! i # drop (i + 1) buf" using Suc.prems(1) by (simp add: Cons_nth_drop_Suc)
  have sz: "0 < mm_size (buf ! i)" "\<forall>m \<in> set (take n (drop (i + 1) buf)). 0 < mm_size m" using Suc.prems(2) unfolding d by simp_all
  show ?case using Suc.prems(1) sz(1) Suc.IH [OF _ sz(2)] by (simp add: d Let_def mlfs_assert_def)
qed simp

lemma host_handle_copies:
  assumes "msg_ok (a, es)"
  shows "\<exists>h'. host_handle (a, es) h = Done h' \<and> hf_copies h' = hf_copies h @ map nvm_copy_of es"
proof -
  let ?buf = "es @ drop (length es) (hf_memcpy_buf h (mc_libfs_id a))"
  have e: "take (length es) (drop 0 ?buf) = es" by simp
  have "memcpy_loop ?buf 0 (length es) None g = Done (Some (?buf ! (length es - 1)), g\<lparr>hf_copies := hf_copies g @ map nvm_copy_of es\<rparr>)" for g
    using memcpy_loop_copies [of 0 "length es" ?buf None g] assms unfolding e by (simp add: msg_ok_def)
  then show ?thesis using assms
    by (simp add: host_handle_def memcpy_worker_def msg_ok_def send_batched_publish_ack_to_libfs_def)
qed

lemma host_run_copies:
  assumes "\<forall>m \<in> set ms. msg_ok m"
  shows "\<exists>h'. host_run ms h = Done h' \<and> hf_copies h' = hf_copies h @ map nvm_copy_of (concat (map snd ms))"
  using assms
proof (induction ms arbitrary: h)
  case (Cons m ms)
  obtain a es where m: "m = (a, es)" by (cases m)
  obtain h1 where "host_handle m h = Done h1" "hf_copies h1 = hf_copies h @ map nvm_copy_of es"
    using host_handle_copies [of a es h] Cons.prems m by auto
  then show ?case using Cons.IH [of h1] Cons.prems m by auto
qed simp

text \<open>C13. The copy lists reach the host's memory in fetch order. Stages finish out of order and
  queue their lists as they come. If the requests from the next sequence number on are
  queued, and on the replicas the notices that their log data has been copied, then that
  many runs of the stage come to an end, consume the requests in the order of their
  sequence numbers, each once, and the copies the host performs for the batches it receives,
  followed by those of the unfinished batch, are exactly the entries of these lists in
  that order, on top of those that were under way before.\<close>

theorem memcpy_lists_in_fetch_order:
  assumes "nic_wf c" and "in_step c" and "next_host_memcpy_seqn c = q" and "q + n < 2 ^ 64"
    and "\<forall>p \<in> {q..<q + n}. ready c p"
  shows "\<exists>xs c' h'. request_host_memcpys n c = Done c' \<and> map hm_seqn xs = [q..<q + n] \<and> set xs \<subseteq> hm_pending c \<and>
    host_run (mc_sent c') h = Done h' \<and>
    hf_copies h' @ map nvm_copy_of (gather (bm_of c')) =
      hf_copies h @ map nvm_copy_of (host_stream c @ concat (map hm_list xs))"
proof -
  obtain xs c' where r: "request_host_memcpys n c = Done c'" "map hm_seqn xs = [q..<q + n]" "set xs \<subseteq> hm_pending c"
    "host_stream c' = host_stream c @ concat (map hm_list xs)" "nic_wf c'"
    using requests_stream [OF assms] by blast
  obtain h' where h: "host_run (mc_sent c') h = Done h'" "hf_copies h' = hf_copies h @ map nvm_copy_of (concat (map snd (mc_sent c')))"
    using host_run_copies r(5) unfolding nic_wf_def by blast
  have "hf_copies h' @ map nvm_copy_of (gather (bm_of c')) = hf_copies h @ map nvm_copy_of (host_stream c')"
    using h(2) by (simp add: host_stream_def)
  with r(1-3) h(1) show ?thesis unfolding r(4) by blast
qed

text \<open>C30. The loop that waits for the next request ends. With the next sequence number in the
  queue, polling returns that item after at most one round per queued item; without it no
  number of rounds returns anything, whatever else is queued.\<close>

theorem poll_host_memcpy_req_terminates:
  assumes "circ_wf hm_seqn hm_processed (host_memcpy_req_buf c) q" and "next_host_memcpy_seqn c = q" and "q + 1 < 2 ^ 64"
    and "cb_cnt (host_memcpy_req_buf c) < n"
  shows "if q \<in> hm_seqn ` hm_pending c
    then \<exists>x c'. poll_host_memcpy_req n c = Done (x, c') \<and> hm_seqn x = q \<and> next_host_memcpy_seqn c' = q + 1
    else poll_host_memcpy_req n c = Waiting"
proof (cases "q \<in> hm_seqn ` hm_pending c")
  case True
  then obtain x b r where "circ_take hm_seqn hm_processed hm_mark CIRC_BUF_SIZE n (host_memcpy_req_buf c) q = Done (r, b, q + 1)"
    "hm_seqn x = q" "r = x \<or> r = hm_mark x"
    using hmq.take_delivers [OF assms(1,3) _ assms(4)] unfolding assms(2) by blast
  then show ?thesis using True by (auto simp: poll_host_memcpy_req_eq assms(2) hm_mark_def)
next
  case False
  then show ?thesis using hmq.take_waits [OF assms(1,3)] by (simp add: poll_host_memcpy_req_eq assms(2))
qed


text \<open>C34. The queue does not have the nominal capacity, and loses everything when it fills up
  with its tail at slot 0. Its size \<open>10 * 1024 * 1024\<close> is not a power of two, so only
  \<open>2 ^ 21\<close> slots are used, and the space check cannot tell that the last of them is taken:
  with \<open>2 ^ 21 - 1\<close> requests queued another one is accepted, the head wraps onto the tail,
  and every later dequeue finds the queue empty.\<close>

theorem full_queue_looks_empty:
  assumes "cb_tail (host_memcpy_req_buf c) = 0" and "cb_head (host_memcpy_req_buf c) = 2 ^ 21 - 1"
  shows "length (cb_items (host_memcpy_req_buf c)) = 2 ^ 21 - 1 \<and>
    (\<exists>c'. enqueue_host_memcpy_req x c = Done c' \<and> cb_items (host_memcpy_req_buf c') = [] \<and>
      dequeue_host_memcpy_req c' = (None, c'))"
proof -
  let ?b = "host_memcpy_req_buf c"
  define b' where "b' = ?b\<lparr>cb_buf := (cb_buf ?b)(cb_head ?b := x), cb_head := 0\<rparr>"
  have r: "cb_head ?b < circ_cap" "cb_tail ?b < circ_cap" using assms by (simp_all add: circ_cap_def)
  have "CIRC_SPACE (cb_head ?b) (cb_tail ?b) CIRC_BUF_SIZE \<ge> 1"
    unfolding CIRC_SPACE_eq [OF r] using assms by (simp add: circ_cap_def)
  moreover have "circ_next (cb_head ?b) CIRC_BUF_SIZE = 0"
    unfolding circ_next_eq [OF r(1)] using assms by (simp add: circ_cap_def)
  ultimately have e: "enqueue_host_memcpy_req x c = Done (c\<lparr>host_memcpy_req_buf := b'\<rparr>)"
    by (simp add: enqueue_host_memcpy_req_def circ_enqueue_def b'_def)
  have "cb_cnt b' = 0" "cb_cnt ?b = 2 ^ 21 - 1" using assms by (simp_all add: cb_cnt_def b'_def circ_cap_def)
  moreover have "dequeue_host_memcpy_req (c\<lparr>host_memcpy_req_buf := b'\<rparr>) = (None, c\<lparr>host_memcpy_req_buf := b'\<rparr>)"
    using assms(1) by (simp add: dequeue_host_memcpy_req_def circ_dequeue_def b'_def CIRC_CNT_eq)
  ultimately show ?thesis using e by (simp add: cb_items_def)
qed

definition demo_hm :: "nat \<Rightarrow> host_memcpy_arg" where
  "demo_hm q = \<lparr>hm_seqn = q, hm_libfs_id = 0,
     hm_array = \<lparr>ma_id = 1, ma_addr = 0, ma_buf = [\<lparr>mm_is_single_blk = False, mm_to_dev = 1, mm_blk_nr = q, mm_data = 0,
       mm_size = 4096, mm_offset_in_blk = 0\<rparr>]\<rparr>,
     hm_loghdr_buf = 0, hm_log_buf = 0, hm_fetch_loghdr_done_p = 0, hm_fetch_log_done_p = 0, hm_processed = False,
     hm_digest_start_blknr = 2, hm_n_orig_loghdrs = 1, hm_n_orig_blks = 1, hm_reset_meta = False\<rparr>"

definition demo_cd :: "nat \<Rightarrow> copy_done_arg" where
  "demo_cd q = \<lparr>cd_libfs_id = 0, cd_seqn = q, cd_processed = False, cd_start_blknr = 0, cd_log_size = 0,
     cd_orig_log_size = 0, cd_fsync = False\<rparr>"

text \<open>A replica with the requests 2 and 1 in its queue, in this order, and both copy notices.\<close>

definition demo_nic :: nic_ctx where
  "demo_nic = \<lparr>nx_libfs_id = 0, nx_kernfs_id = 2, nx_local_kid = 1, nx_n_nodes = 3,
     host_memcpy_req_buf = \<lparr>cb_buf = (\<lambda>_. demo_hm 0)(0 := demo_hm 2, 1 := demo_hm 1), cb_head = 2, cb_tail = 0\<rparr>,
     next_host_memcpy_seqn = 1,
     local_copy_done_buf = \<lparr>cb_buf = (\<lambda>_. demo_cd 0)(0 := demo_cd 1, 1 := demo_cd 2), cb_head = 2, cb_tail = 0\<rparr>,
     next_copy_done_seqn = 1,
     mcpy_list_batch_meta = \<lparr>bm_r_meta = reset_sge_rdma_meta, bm_first_seqn = 0, bm_digest_start_blknr = 0,
       bm_n_orig_loghdrs = 0, bm_n_orig_blks = 0, bm_reset_meta = False\<rparr>,
     host_memcpy_batch_max = 30, host_memcpy_buf_addr = 0, mc_sent = [], slab_freed = [], pipeline_end = [],
     nic_words = (\<lambda>_. 0), host_up = True\<rparr>"

lemma demo_hm_fields [simp]: "hm_seqn (demo_hm q) = q" "\<not> hm_processed (demo_hm q)" "item_ok 30 (demo_hm q)"
  by (simp_all add: demo_hm_def item_ok_def hm_list_def g_memcpy_meta_cnt_def g_log_size_def)

lemma demo_cd_fields [simp]: "cd_seqn (demo_cd q) = q" "\<not> cd_processed (demo_cd q)"
  by (simp_all add: demo_cd_def)

lemma two_items:
  fixes b :: "'a circbuf"
  assumes "cb_head b = 2" and "cb_tail b = 0"
  shows "cb_cnt b = 2" and "cb_items b = [cb_buf b 0, cb_buf b 1]" and "cb_slot b ` {..<2} = {0, 1}"
proof -
  show c: "cb_cnt b = 2" using assms by (simp add: cb_cnt_def circ_cap_def)
  have s: "cb_slot b 0 = 0" "cb_slot b 1 = 1" using assms by (simp_all add: cb_slot_def circ_cap_def)
  have "[0..<2] = [0, 1::nat]" by (simp add: upt_rec)
  then show "cb_items b = [cb_buf b 0, cb_buf b 1]" unfolding cb_items_def c using s by simp
  have "{..<2} = {0, 1::nat}" by auto
  then show "cb_slot b ` {..<2} = {0, 1}" using s by simp
qed

lemma demo_nic_wf: "nic_wf demo_nic" "in_step demo_nic" "\<forall>p \<in> {1..<1 + 2}. ready demo_nic p"
proof -
  have h: "cb_items (host_memcpy_req_buf demo_nic) = [demo_hm 2, demo_hm 1]"
    and c: "cb_items (local_copy_done_buf demo_nic) = [demo_cd 1, demo_cd 2]"
    by (simp_all add: two_items demo_nic_def)
  have ph: "hm_pending demo_nic = {demo_hm 1, demo_hm 2}" and pc: "cd_pending demo_nic = {demo_cd 1, demo_cd 2}"
    unfolding pending_def h c by (auto simp: demo_nic_def)
  have "circ_wf hm_seqn hm_processed (host_memcpy_req_buf demo_nic) (next_host_memcpy_seqn demo_nic)"
    "circ_wf cd_seqn cd_processed (local_copy_done_buf demo_nic) (next_copy_done_seqn demo_nic)"
    unfolding circ_wf_def h c by (auto simp: demo_nic_def in_range_def circ_cap_def two_items)
  then show "nic_wf demo_nic" unfolding nic_wf_def ph
    by (simp add: demo_nic_def batch_ok_def gather_def reset_sge_rdma_meta_def MAX_SEND_SGE_SIZE_def)
  show "in_step demo_nic" by (simp add: in_step_def demo_nic_def)
  show "\<forall>p \<in> {1..<1 + 2}. ready demo_nic p" unfolding ready_def ph pc by auto
qed

definition demo_host :: host_fs where
  "demo_host = \<lparr>hf_kernfs_id = 3, hf_local_kid = (\<lambda>_. 1), hf_memcpy_buf = (\<lambda>_. []), hf_copies = [], hf_acks = [],
     hf_digest_end_blknrs = (\<lambda>_. 0), hf_map_base_addr = 0, hf_persist_clflush = False, hf_ack_bits = 0\<rparr>"

theorem memcpy_lists_in_fetch_order_witness:
  "\<exists>xs c' h'. request_host_memcpys 2 demo_nic = Done c' \<and> map hm_seqn xs = [1, 2] \<and>
    host_run (mc_sent c') demo_host = Done h' \<and>
    hf_copies h' @ map nvm_copy_of (gather (bm_of c')) = map nvm_copy_of (concat (map hm_list xs))"
proof -
  have n: "next_host_memcpy_seqn demo_nic = 1" by (simp add: demo_nic_def)
  have b: "(1::nat) + 2 < 2 ^ 64" by simp
  have i: "[1..<1 + 2] = [1, 2::nat]" by (simp add: upt_rec)
  have e: "hf_copies demo_host = []" "host_stream demo_nic = []"
    by (simp_all add: demo_host_def host_stream_def demo_nic_def gather_def reset_sge_rdma_meta_def)
  from memcpy_lists_in_fetch_order [OF demo_nic_wf(1,2) n b demo_nic_wf(3), of demo_host]
  obtain xs c' h' where r: "request_host_memcpys 2 demo_nic = Done c'" "map hm_seqn xs = [1, 2]"
    "host_run (mc_sent c') demo_host = Done h'"
    "hf_copies h' @ map nvm_copy_of (gather (bm_of c')) = map nvm_copy_of (concat (map hm_list xs))"
    unfolding i e append_Nil by (elim exE conjE)
  show ?thesis by (intro exI conjI) (rule r)+
qed

theorem poll_host_memcpy_req_terminates_witness:
  "\<exists>x c'. poll_host_memcpy_req 3 demo_nic = Done (x, c') \<and> hm_seqn x = 1 \<and> next_host_memcpy_seqn c' = 2"
proof -
  have n: "next_host_memcpy_seqn demo_nic = 1" and q: "(1::nat) + 1 < 2 ^ 64" by (simp_all add: demo_nic_def)
  have w: "circ_wf hm_seqn hm_processed (host_memcpy_req_buf demo_nic) 1" using demo_nic_wf(1) n by (simp add: nic_wf_def)
  have c: "cb_cnt (host_memcpy_req_buf demo_nic) < 3" by (simp add: two_items demo_nic_def)
  have "1 \<in> hm_seqn ` hm_pending demo_nic" using demo_nic_wf(3) by (simp add: ready_def)
  then show ?thesis using poll_host_memcpy_req_terminates [OF w n q c] by (simp add: numeral_2_eq_2)
qed


theorem full_queue_looks_empty_witness:
  "\<exists>c'. enqueue_host_memcpy_req (demo_hm 1) (demo_nic\<lparr>host_memcpy_req_buf :=
      \<lparr>cb_buf = \<lambda>i. demo_hm (i + 2), cb_head = 2 ^ 21 - 1, cb_tail = 0\<rparr>\<rparr>) = Done c' \<and> dequeue_host_memcpy_req c' = (None, c')"
  using full_queue_looks_empty [of "demo_nic\<lparr>host_memcpy_req_buf :=
      \<lparr>cb_buf = \<lambda>i. demo_hm (i + 2), cb_head = 2 ^ 21 - 1, cb_tail = 0\<rparr>\<rparr>" "demo_hm 1"]
  by (simp del: One_nat_def) blast

end
