(* ===== verification/Publish.thy ===== *)
theory Publish
  imports HostMemcpy Txn
begin

text \<open>
  Acknowledging published log groups to the LibFS, across the SmartNIC, the host and the LibFS:
  \<open>add_memcpy_list_to_batch\<close> and \<open>send_batched_memcpy_req_to_host\<close> of
  \<open>kernfs/nic/host_memcpy.c\<close> merge the acknowledgements of a batch, \<open>memcpy_worker\<close> of
  \<open>kernfs/fs.c\<close> forwards the merged one, and \<open>handle_digest_response\<close> of
  \<open>libfs/src/log/log.c\<close> applies it. The lemmas compare the effect of the merged
  acknowledgement on the LibFS with that of separate ones.
\<close>

section \<open>Merging acknowledgements\<close>



text \<open>The acknowledgement that the batch of a context would cause now.\<close>

definition batch_ack :: "nic_ctx \<Rightarrow> digest_response" where
  "batch_ack c = (let bm = mcpy_list_batch_meta c in
     \<lparr>dr_fetch_seqn = bm_first_seqn bm, dr_digest_start_blknr = bm_digest_start_blknr bm,
      dr_n_digested = bm_n_orig_loghdrs bm, dr_n_digested_blks = bm_n_orig_blks bm,
      dr_reset_meta = bm_reset_meta bm, dr_sge_cnt = length (rm_sge_entries (bm_r_meta bm))\<rparr>)"

lemma batch_ack_sent:
  assumes "send_batched_memcpy_req_to_host c = Done c'"
  shows "publish_ack (fst (last (mc_sent c'))) = batch_ack c"
  using assms
  by (auto simp: send_batched_memcpy_req_to_host_def Let_def mlfs_assert_def rpc_wait_ack_def publish_ack_def
      batch_ack_def set_rdma_meta_dst_def split: if_splits)


section \<open>Applying them\<close>



definition synced :: "(nat \<Rightarrow> dinode) \<Rightarrow> icache \<Rightarrow> icache" where
  "synced d ic = (\<lambda>inum. map_option
     (\<lambda>ip. if flag_set (i_flags ip) I_DELETING then ip else sync_inode_ext_tree d ip) (ic inum))"

lemma sync_all_synced: "sync_all_inode_ext_trees s = s\<lparr>icache := synced (ondisk_inodes s) (icache s)\<rparr>"
  by (simp add: sync_all_inode_ext_trees_def synced_def)


text \<open>Everything but the trace of device writes.\<close>

abbreviation untraced :: "libfs \<Rightarrow> libfs" where
  "untraced s \<equiv> s\<lparr>dev_trace := []\<rparr>"


definition last_seqn :: "digest_response \<Rightarrow> nat" where
  "last_seqn r = sub64 (add64 (dr_fetch_seqn r) (dr_sge_cnt r)) 1"

definition next_digest :: "digest_response \<Rightarrow> nat" where
  "next_digest r = add64 (dr_digest_start_blknr r) (dr_n_digested_blks r)"

text \<open>The state after a response, up to the trace.\<close>

definition digested :: "digest_response \<Rightarrow> peer_meta \<Rightarrow> libfs \<Rightarrow> libfs" where
  "digested r p s =
     (let sv = (if dr_reset_meta r then add32 (fl_start_version (fslog s)) 1 else fl_start_version (fslog s))
      in untraced s\<lparr>fslog := (fslog s)\<lparr>fl_start_version := sv, fl_start_blk := next_digest r\<rparr>,
           log_sb := (log_sb s)\<lparr>lsb_end := (if dr_reset_meta r \<and> sv = fl_avail_version (fslog s) then 0 else lsb_end (log_sb s)),
             lsb_start_digest := next_digest r,
             lsb_n_digest := sub32 (lsb_n_digest (log_sb s)) (dr_n_digested r),
             lsb_n_digest_blks := sub32 (lsb_n_digest_blks (log_sb s)) (cast_w 32 (dr_n_digested_blks r))\<rparr>,
           icache := synced (ondisk_inodes s) (icache s),
           next_peer := Some (p\<lparr>pm_recently_acked_seqn := max (pm_recently_acked_seqn p) (last_seqn r)\<rparr>)\<rparr>)"

lemma handle_digest_response_digested:
  assumes "next_peer s = Some p"
  shows "\<exists>s'. handle_digest_response r s = Done s' \<and> untraced s' = digested r p s"
proof -
  have m: "pm_recently_acked_seqn p < last_seqn r \<Longrightarrow> max (pm_recently_acked_seqn p) (last_seqn r) = last_seqn r"
    "\<not> pm_recently_acked_seqn p < last_seqn r \<Longrightarrow> max (pm_recently_acked_seqn p) (last_seqn r) = pm_recently_acked_seqn p"
    by simp_all
  note defs = handle_digest_response_def reset_publish_meta_def Let_def write_log_superblock_def mlfs_write_def
    sync_all_synced digested_def next_digest_def
  show ?thesis
  proof (cases "pm_recently_acked_seqn p < last_seqn r")
    case True
    then show ?thesis unfolding digested_def m(1) [OF True] using assms
      by (auto simp: defs last_seqn_def intro!: libfs.equality fs_log.equality log_superblock.equality)
  next
    case False
    then show ?thesis unfolding digested_def m(2) [OF False] using assms
      by (auto simp: defs last_seqn_def intro!: libfs.equality fs_log.equality log_superblock.equality)
  qed
qed







section \<open>Batched and separate acknowledgements\<close>

fun add_lists :: "host_memcpy_arg list \<Rightarrow> nic_ctx \<Rightarrow> nic_ctx run" where
  "add_lists [] c = Done c"
| "add_lists (x # xs) c = run_bind (add_memcpy_list_to_batch x c) (\<lambda>(full, c'). add_lists xs c')"







text \<open>C33. Asking the SmartNIC to publish what is left when nothing is left acknowledges the
  previous batch a second time. Sending a batch resets its scatter-gather list but not the
  counters, so the next request, with no entries, repeats block range and counts; the
  LibFS subtracts them again from its number of undigested log groups.\<close>

theorem publish_remains_repeats_ack:
  assumes "send_batched_memcpy_req_to_host c = Done c1" and "next_peer s = Some p"
  shows "\<exists>c2 s1 s2. publish_all_remains c1 = Done c2 \<and> mc_n_memcpy_entries (fst (last (mc_sent c2))) = 0 \<and>
    handle_digest_response (publish_ack (fst (last (mc_sent c1)))) s = Done s1 \<and>
    handle_digest_response (publish_ack (fst (last (mc_sent c2)))) s1 = Done s2 \<and>
    lsb_n_digest (log_sb s2) = sub32 (sub32 (lsb_n_digest (log_sb s)) (bm_n_orig_loghdrs (mcpy_list_batch_meta c)))
      (bm_n_orig_loghdrs (mcpy_list_batch_meta c))"
proof -
  have c1: "host_up c1" "bm_of c1 = reset_sge_rdma_meta"
    "bm_n_orig_loghdrs (mcpy_list_batch_meta c1) = bm_n_orig_loghdrs (mcpy_list_batch_meta c)"
    using assms(1) by (auto simp: send_batched_memcpy_req_to_host_def Let_def mlfs_assert_def rpc_wait_ack_def split: if_splits)
  obtain c2 where c2: "send_batched_memcpy_req_to_host c1 = Done c2" "mc_n_memcpy_entries (fst (last (mc_sent c2))) = 0"
    using c1(1,2) by (simp add: send_batched_memcpy_req_to_host_def Let_def mlfs_assert_def rpc_wait_ack_def reset_sge_rdma_meta_def)
  obtain s1 where s1: "handle_digest_response (batch_ack c) s = Done s1" "untraced s1 = digested (batch_ack c) p s"
    using handle_digest_response_digested [OF assms(2)] by blast
  obtain p' where "next_peer s1 = Some p'" using arg_cong [OF s1(2), of next_peer] by (simp add: digested_def Let_def)
  then obtain s2 where s2: "handle_digest_response (batch_ack c1) s1 = Done s2" "untraced s2 = digested (batch_ack c1) p' s1"
    using handle_digest_response_digested by blast
  have "lsb_n_digest (log_sb s1) = sub32 (lsb_n_digest (log_sb s)) (bm_n_orig_loghdrs (mcpy_list_batch_meta c))"
    using arg_cong [OF s1(2), of log_sb] by (simp add: digested_def Let_def batch_ack_def)
  moreover have "lsb_n_digest (log_sb s2) = sub32 (lsb_n_digest (log_sb s1)) (bm_n_orig_loghdrs (mcpy_list_batch_meta c1))"
    using arg_cong [OF s2(2), of log_sb] by (simp add: digested_def Let_def batch_ack_def)
  ultimately show ?thesis using c2 s1(1) s2(1) c1(3) batch_ack_sent [OF assms(1)] batch_ack_sent [OF c2(1)]
    by (simp add: publish_all_remains_def)
qed

section \<open>A concrete batch\<close>

definition demo_x :: host_memcpy_arg where "demo_x = demo_hm 1"
definition demo_y :: host_memcpy_arg where "demo_y = (demo_hm 2)\<lparr>hm_digest_start_blknr := 3\<rparr>"

text \<open>The last group before the end of the log, and the first one of the next lap.\<close>

definition demo_last :: host_memcpy_arg where
  "demo_last = (demo_hm 1)\<lparr>hm_digest_start_blknr := 131000, hm_n_orig_blks := 70\<rparr>"
definition demo_wrapped :: host_memcpy_arg where
  "demo_wrapped = (demo_hm 2)\<lparr>hm_digest_start_blknr := 2, hm_n_orig_blks := 10, hm_reset_meta := True\<rparr>"

lemmas demo_batch_defs = demo_x_def demo_y_def demo_last_def demo_wrapped_def demo_hm_def demo_nic_def
  add_memcpy_list_to_batch_def add_sge_entry_def reset_sge_rdma_meta_def Let_def mlfs_assert_def MAX_SEND_SGE_SIZE_def
  cast_w_def add_w_def MEMCPY_META_SIZE_def

lemma demo_sent:
  shows "\<exists>c1 c2. add_lists [demo_x, demo_y] demo_nic = Done c1 \<and> send_batched_memcpy_req_to_host c1 = Done c2"
    and "\<exists>c1 c2. add_lists [demo_last, demo_wrapped] demo_nic = Done c1 \<and> send_batched_memcpy_req_to_host c1 = Done c2"
  by (simp_all add: demo_batch_defs send_batched_memcpy_req_to_host_def g_memcpy_meta_cnt_def g_log_size_def rpc_wait_ack_def)


lemma demo_peer: "\<exists>p. next_peer demo_init = Some p"
  by (simp add: demo_init_def init_libfs_def Let_def)



definition demo_two :: libfs where
  "demo_two = demo_init\<lparr>log_sb := (log_sb demo_init)\<lparr>lsb_n_digest := 2\<rparr>\<rparr>"

theorem publish_remains_repeats_ack_witness:
  "\<exists>c c1 c2 s1 s2. add_lists [demo_x, demo_y] demo_nic = Done c \<and> send_batched_memcpy_req_to_host c = Done c1 \<and>
     publish_all_remains c1 = Done c2 \<and>
     handle_digest_response (publish_ack (fst (last (mc_sent c1)))) demo_two = Done s1 \<and>
     handle_digest_response (publish_ack (fst (last (mc_sent c2)))) s1 = Done s2 \<and> lsb_n_digest (log_sb s2) = 2 ^ 32 - 2"
proof -
  obtain c c1 where c: "add_lists [demo_x, demo_y] demo_nic = Done c" "send_batched_memcpy_req_to_host c = Done c1"
    using demo_sent(1) by blast
  have "bm_n_orig_loghdrs (mcpy_list_batch_meta c) = 2" using c(1) by (auto simp: demo_batch_defs)
  moreover obtain p where "next_peer demo_two = Some p" using demo_peer by (auto simp: demo_two_def)
  ultimately show ?thesis using publish_remains_repeats_ack [OF c(2), of demo_two p] c
    by (auto simp: demo_two_def sub_w_def)
qed

end
