(* ===== verification/FsyncAck.thy ===== *)
theory FsyncAck
  imports HostMemcpy
begin

text \<open>
  Copying log data to the NVM of the replicas, and acknowledging an fsync.

  Models \<open>kernfs/nic/copy_log.c\<close>: the SmartNIC in the middle of the chain writes each fetched
  log group to its own host and to the last replica, records the group in a bitmap that is
  relative to \<open>log_persisted_bitmap_start_seqn\<close>, and acknowledges an fsync request once all
  earlier groups are recorded. The bitmap operations are those of the theory Bitmap.

  Remote operations and messages form a list of effects in program order; an asynchronous
  write is in the list where the code has waited for its completion. The work items of the
  thread pools are queues from which any item may run next.
\<close>

section \<open>State\<close>

record copy_arg =
  ca_libfs_id :: nat
  ca_seqn :: nat
  ca_log_buf :: nat
  ca_log_size :: nat
  ca_orig_log_size :: nat
  ca_start_blknr :: nat
  ca_copy_log_done_p :: nat
  ca_fsync :: bool
  ca_fsync_ack_addr :: nat

record manage_fsync_ack_arg =
  mfa_libfs_id :: nat
  mfa_seqn :: nat
  mfa_fsync :: bool
  mfa_fsync_ack_addr :: nat

record log_buf_free_arg =
  lbf_libfs_id :: nat
  lbf_seqn :: nat
  lbf_log_buf :: nat
  lbf_copy_log_done_p :: nat

datatype effect =
    Nvm_write nat nat nat nat
  | Nvm_read nat nat nat nat
  | Persist_log nat nat nat nat nat nat nat
  | Fsync_ack nat nat
  | Log_copy_done nat nat nat nat nat bool
  | Slab_free nat

text \<open>
  \<open>rx_flags\<close> holds the flags that \<open>copy_log_done_p\<close> points to; the sockets 0 and 1 lead to
  the local host and to the last replica.
\<close>

record rep_ctx =
  rx_nic :: nic_ctx
  log_persisted_bitmap :: bitmap
  log_persisted_bitmap_start_seqn :: nat
  rx_host_base_addr :: nat
  rx_peer_base_addr :: nat
  rx_begin :: nat
  rx_size :: nat
  rx_persist_rdma_read :: bool
  rx_persist_clflush :: bool
  rx_flags :: "nat \<Rightarrow> bool"
  rx_jobs :: "manage_fsync_ack_arg list"
  rx_free_jobs :: "log_buf_free_arg list"
  rx_effects :: "effect list"

definition COPY_NEXT_BITMAP_SIZE_IN_BIT :: nat where "COPY_NEXT_BITMAP_SIZE_IN_BIT = 1024 * 1024"

definition emit :: "effect list \<Rightarrow> rep_ctx \<Rightarrow> rep_ctx" where
  "emit es c = c\<lparr>rx_effects := rx_effects c @ es\<rparr>"

section \<open>Recording persisted log groups\<close>

definition set_log_persisted_bit :: "nat \<Rightarrow> rep_ctx \<Rightarrow> rep_ctx run" where
  "set_log_persisted_bit seqn c =
     (let start_seqn = log_persisted_bitmap_start_seqn c; bitmap = log_persisted_bitmap c; d = sub64 seqn start_seqn
      in mlfs_assert (d \<le> COPY_NEXT_BITMAP_SIZE_IN_BIT) ''seqn - start_seqn <= COPY_NEXT_BITMAP_SIZE_IN_BIT''
           (if d \<ge> 64 * length bitmap then Failed (OutOfBounds ''log_persisted_bitmap'')
            else Done (c\<lparr>log_persisted_bitmap := bitmap_set bitmap d 1\<rparr>)))"

definition all_previous_log_persisted_bits_set :: "nat \<Rightarrow> rep_ctx \<Rightarrow> (bool \<times> rep_ctx) run" where
  "all_previous_log_persisted_bits_set fsync_seqn c =
     (let bitmap = log_persisted_bitmap c; d = sub64 fsync_seqn (log_persisted_bitmap_start_seqn c);
          n_bit_set = bitmap_weight bitmap (cast32 d);
          sh = cast32 (add64 d 1); nbits = cast32 (add64 (add64 d 1) 8)
      in if cast32 d > 64 * length bitmap then Failed (OutOfBounds ''log_persisted_bitmap'')
         else if int n_bit_set \<noteq> signed_w 32 (cast32 d) then Done (False, c)
         else if BITS_TO_LONGS nbits > length bitmap then Failed (OutOfBounds ''log_persisted_bitmap'')
         else Done (True, c\<lparr>log_persisted_bitmap := bitmap_shift_right bitmap sh nbits,
                           log_persisted_bitmap_start_seqn := add64 fsync_seqn 1\<rparr>))"

section \<open>Acknowledging an fsync\<close>

definition send_fsync_ack :: "nat \<Rightarrow> nat \<Rightarrow> rep_ctx \<Rightarrow> rep_ctx" where
  "send_fsync_ack libfs_id fsync_ack_addr c = emit [Fsync_ack libfs_id fsync_ack_addr] c"

definition manage_fsync_ack :: "manage_fsync_ack_arg \<Rightarrow> rep_ctx \<Rightarrow> rep_ctx run" where
  "manage_fsync_ack a c =
     (if mfa_fsync a \<and> mfa_fsync_ack_addr a \<noteq> 0
      then run_bind (all_previous_log_persisted_bits_set (mfa_seqn a) c) (\<lambda>(ok, c').
             if ok then Done (send_fsync_ack (mfa_libfs_id a) (mfa_fsync_ack_addr a) c') else Waiting)
      else set_log_persisted_bit (mfa_seqn a) c)"

section \<open>Copying\<close>

text \<open>A remote write of a log buffer, with the read of its last byte that makes it persistent.\<close>

definition nvm_copy_effects :: "bool \<Rightarrow> nat \<Rightarrow> nat \<Rightarrow> nat \<Rightarrow> nat \<Rightarrow> effect list" where
  "nvm_copy_effects persist_rdma_read sock local_buf remote_addr log_size =
     Nvm_write sock local_buf remote_addr (cast32 log_size) #
     (if persist_rdma_read
      then [Nvm_read sock (sub64 (add64 local_buf log_size) 1) (sub64 (add64 remote_addr log_size) 1) 1] else [])"

definition log_addr :: "nat \<Rightarrow> nat \<Rightarrow> nat" where
  "log_addr base start_blknr = add64 base (start_blknr * 2 ^ g_block_size_shift mod 2 ^ 64)"

definition copy_log_to_local_nvm_bg :: "copy_arg \<Rightarrow> rep_ctx \<Rightarrow> rep_ctx run" where
  "copy_log_to_local_nvm_bg a c =
     (let c1 = emit (nvm_copy_effects (rx_persist_rdma_read c) 0 (ca_log_buf a)
                 (log_addr (rx_host_base_addr c) (ca_start_blknr a)) (ca_log_size a)) c;
          cd = \<lparr>cd_libfs_id = ca_libfs_id a, cd_seqn = ca_seqn a, cd_processed = False, cd_start_blknr = 0,
                cd_log_size = 0, cd_orig_log_size = 0, cd_fsync = False\<rparr>
      in run_map (\<lambda>n. c1\<lparr>rx_nic := n, rx_flags := (rx_flags c1)(ca_copy_log_done_p a := True)\<rparr>)
           (enqueue_copy_done_item cd (rx_nic c1)))"

definition persist_log_effects :: "copy_arg \<Rightarrow> rep_ctx \<Rightarrow> effect list" where
  "persist_log_effects a c =
     (if rx_persist_clflush c \<and> ca_fsync a \<and> ca_fsync_ack_addr a \<noteq> 0
      then [Persist_log (ca_libfs_id a) (ca_seqn a) (rx_begin c) (rx_size c) (ca_start_blknr a)
              (ca_log_size a div 2 ^ g_block_size_shift) (ca_fsync_ack_addr a)] else [])"

text \<open>Acknowledge at once, or leave it to the thread pool.\<close>

definition start_fsync_ack :: "copy_arg \<Rightarrow> rep_ctx \<Rightarrow> (bool \<times> rep_ctx) run" where
  "start_fsync_ack a c =
     run_bind (if ca_fsync a \<and> ca_fsync_ack_addr a \<noteq> 0
               then all_previous_log_persisted_bits_set (ca_seqn a) c else Done (False, c)) (\<lambda>(ok, c').
       if ok then Done (True, send_fsync_ack (ca_libfs_id a) (ca_fsync_ack_addr a) c')
       else Done (False, c'\<lparr>rx_jobs := rx_jobs c' @ [\<lparr>mfa_libfs_id = nx_libfs_id (rx_nic c'), mfa_seqn = ca_seqn a,
              mfa_fsync = ca_fsync a, mfa_fsync_ack_addr = ca_fsync_ack_addr a\<rparr>]\<rparr>))"

definition copy_log_to_last_replica_bg :: "copy_arg \<Rightarrow> rep_ctx \<Rightarrow> (bool \<times> rep_ctx) run" where
  "copy_log_to_last_replica_bg a c =
     (let c1 = emit (nvm_copy_effects (rx_persist_rdma_read c) 1 (ca_log_buf a)
                 (log_addr (rx_peer_base_addr c) (ca_start_blknr a)) (ca_log_size a)) c;
          c2 = emit (persist_log_effects a c1) c1
      in run_map (\<lambda>(ok, c3).
           (ok, emit [Log_copy_done (nx_libfs_id (rx_nic c3)) (ca_seqn a) (ca_start_blknr a) (ca_log_size a)
                        (ca_orig_log_size a) (ca_fsync a)]
                 (c3\<lparr>rx_free_jobs := rx_free_jobs c3 @ [\<lparr>lbf_libfs_id = nx_libfs_id (rx_nic c3), lbf_seqn = ca_seqn a,
                    lbf_log_buf = ca_log_buf a, lbf_copy_log_done_p = ca_copy_log_done_p a\<rparr>]\<rparr>)))
           (start_fsync_ack a c2))"

definition free_log_buf :: "log_buf_free_arg \<Rightarrow> rep_ctx \<Rightarrow> rep_ctx run" where
  "free_log_buf a c =
     (if rx_flags c (lbf_copy_log_done_p a) then Done (emit [Slab_free (lbf_log_buf a)] c) else Waiting)"

text \<open>On the last replica, the notice that its NVM has the log data.\<close>

definition handle_copy_done_ack :: "copy_done_arg \<Rightarrow> nic_ctx \<Rightarrow> nic_ctx run" where
  "handle_copy_done_ack cd c = enqueue_copy_done_item cd c"

section \<open>What the bitmap says about the persisted groups\<close>

text \<open>
  The shift in \<open>all_previous_log_persisted_bits_set\<close> does not move all bits, so single bits may
  stand for the wrong group. What survives is a bound: no prefix of the bitmap has more bits
  set than groups are persisted.
\<close>

definition bits_before :: "bitmap \<Rightarrow> nat \<Rightarrow> nat" where
  "bits_before m n = card {i. i < n \<and> bit_at m i}"

definition recorded :: "bitmap \<Rightarrow> nat \<Rightarrow> nat set \<Rightarrow> bool" where
  "recorded m st P \<longleftrightarrow> (\<forall>n \<le> 64 * length m. bits_before m n \<le> card (P \<inter> {st..<st + n}))"

lemma recorded_set:
  assumes "recorded m st P" and "d < 64 * length m" and "st + d \<notin> P"
  shows "recorded (bitmap_set m d 1) st (insert (st + d) P)"
  unfolding recorded_def
proof (intro allI impI)
  fix n assume "n \<le> 64 * length (bitmap_set m d 1)"
  note B = bitmap_set_spec [of d 1 m]
  have n: "n \<le> 64 * length m" and b: "bit_at (bitmap_set m d 1) i \<longleftrightarrow> bit_at m i \<or> i = d" for i
    using \<open>n \<le> _\<close> B assms(2) by auto
  have old: "bits_before m n \<le> card (P \<inter> {st..<st + n})" using assms(1) n by (simp add: recorded_def)
  show "bits_before (bitmap_set m d 1) n \<le> card (insert (st + d) P \<inter> {st..<st + n})"
  proof (cases "d < n")
    case True
    have "{i. i < n \<and> (bit_at m i \<or> i = d)} = insert d {i. i < n \<and> bit_at m i}" using True by auto
    then have "bits_before (bitmap_set m d 1) n \<le> Suc (bits_before m n)"
      unfolding bits_before_def b by (simp add: card_insert_if)
    moreover have "insert (st + d) P \<inter> {st..<st + n} = insert (st + d) (P \<inter> {st..<st + n})" using True by auto
    ultimately show ?thesis using old assms(3) by simp
  next
    case False
    then have "{i. i < n \<and> (bit_at m i \<or> i = d)} = {i. i < n \<and> bit_at m i}"
      "insert (st + d) P \<inter> {st..<st + n} = P \<inter> {st..<st + n}" by auto
    then show ?thesis unfolding bits_before_def b using old by (simp add: bits_before_def)
  qed
qed

lemma recorded_prefix:
  assumes "recorded m st P" and "\<forall>i < k. bit_at m i" and "k \<le> 64 * length m"
  shows "{st..<st + k} \<subseteq> P"
proof -
  have "{i. i < k \<and> bit_at m i} = {..<k}" using assms(2) by auto
  then have "bits_before m k = k" by (simp add: bits_before_def)
  then have "card {st..<st + k} \<le> card (P \<inter> {st..<st + k})" using assms(1,3) unfolding recorded_def by force
  then have "P \<inter> {st..<st + k} = {st..<st + k}" by (intro card_seteq) auto
  then show ?thesis by blast
qed

lemma recorded_shift:
  assumes rec: "recorded m st P" and pre: "\<forall>i < k. bit_at m i" and q: "st + k \<notin> P" and len: "BITS_TO_LONGS (k + 9) \<le> length m"
  shows "recorded (bitmap_shift_right m (k + 1) (k + 9)) (st + k + 1) P"
  unfolding recorded_def
proof (intro allI impI)
  let ?m = "bitmap_shift_right m (k + 1) (k + 9)" and ?L = "64 * BITS_TO_LONGS (k + 9)"
  fix n assume "n \<le> 64 * length ?m"
  then have n: "n \<le> 64 * length m" using len by (simp add: length_bitmap_shift_right)
  have L: "k + 9 \<le> ?L" "?L \<le> 64 * length m" using longs_cover(1) [of "k + 9"] len by simp_all
  define N where "N = min (n + k + 1) (64 * length m)"
  define f where "f i = (if i < ?L then i + (k + 1) else i)" for i
  have b: "bit_at ?m i \<longleftrightarrow> (if i < ?L then i + (k + 1) < k + 9 \<and> bit_at m (i + (k + 1)) else bit_at m i)"
    if "i < n" for i
    using that n len by (intro shift_right_bits) simp_all
  let ?A = "{i. i < n \<and> bit_at ?m i}" and ?B = "{j. k + 1 \<le> j \<and> j < N \<and> bit_at m j}"
  have A: "?A = {i. i < n \<and> (if i < ?L then i + (k + 1) < k + 9 \<and> bit_at m (i + (k + 1)) else bit_at m i)}"
    using b by blast
  have "inj_on f ?A" unfolding A using L by (auto simp: inj_on_def f_def split: if_splits)
  moreover have "f ` ?A \<subseteq> ?B" unfolding A using L n by (auto simp: f_def N_def split: if_splits)
  ultimately have AB: "card ?A \<le> card ?B" by (intro card_inj_on_le) auto
  have "{..<k} \<union> ?B \<subseteq> {i. i < N \<and> bit_at m i}" using pre L by (auto simp: N_def)
  then have "card ({..<k} \<union> ?B) \<le> bits_before m N" unfolding bits_before_def by (intro card_mono) auto
  moreover have "card ({..<k} \<union> ?B) = k + card ?B" by (subst card_Un_disjoint) auto
  moreover have "bits_before m N \<le> card (P \<inter> {st..<st + N})" using rec by (simp add: recorded_def N_def)
  moreover have "P \<inter> {st..<st + N} \<subseteq> {st..<st + k} \<union> (P \<inter> {st + k + 1..<st + k + 1 + n})"
    using q by (auto simp: N_def not_less less_Suc_eq order.strict_iff_order)
  then have "card (P \<inter> {st..<st + N}) \<le> card ({st..<st + k} \<union> (P \<inter> {st + k + 1..<st + k + 1 + n}))" by (intro card_mono) auto
  moreover have "\<dots> \<le> k + card (P \<inter> {st + k + 1..<st + k + 1 + n})"
    using card_Un_le [of "{st..<st + k}"] by simp
  ultimately show "bits_before ?m n \<le> card (P \<inter> {st + k + 1..<st + k + 1 + n})"
    using AB unfolding bits_before_def by linarith
qed

section \<open>Runs\<close>

definition fresh_rep_ctx :: "rep_ctx \<Rightarrow> bool" where
  "fresh_rep_ctx c \<longleftrightarrow> log_persisted_bitmap c = replicate (BITS_TO_LONGS COPY_NEXT_BITMAP_SIZE_IN_BIT) 0 \<and>
     log_persisted_bitmap_start_seqn c = 1 \<and> rx_jobs c = [] \<and> rx_effects c = []"

text \<open>A request that has not been copied yet; fewer than \<open>2 ^ 31\<close> are under way.\<close>

definition new_request :: "copy_arg \<Rightarrow> rep_ctx \<Rightarrow> copy_arg set \<Rightarrow> bool" where
  "new_request a c S \<longleftrightarrow> 1 \<le> ca_seqn a \<and> ca_seqn a < log_persisted_bitmap_start_seqn c + 2 ^ 31 \<and>
     ca_seqn a + 16 < 2 ^ 64 \<and> ca_seqn a \<notin> ca_seqn ` S"

definition drop_job :: "nat \<Rightarrow> rep_ctx \<Rightarrow> rep_ctx" where
  "drop_job i c = c\<lparr>rx_jobs := take i (rx_jobs c) @ drop (Suc i) (rx_jobs c)\<rparr>"

text \<open>
  \<open>S\<close>: the requests copied to the last replica, \<open>P\<close>: those recorded in the bitmap, \<open>F\<close>: the
  acknowledged fsync requests.
\<close>

inductive copying :: "rep_ctx \<Rightarrow> copy_arg set \<Rightarrow> nat set \<Rightarrow> nat set \<Rightarrow> bool" where
  start: "fresh_rep_ctx c \<Longrightarrow> copying c {} {} {}"
| copy_acked: "copying c S P F \<Longrightarrow> new_request a c S \<Longrightarrow> copy_log_to_last_replica_bg a c = Done (True, c') \<Longrightarrow>
    copying c' (insert a S) P (insert (ca_seqn a) F)"
| copy_queued: "copying c S P F \<Longrightarrow> new_request a c S \<Longrightarrow> copy_log_to_last_replica_bg a c = Done (False, c') \<Longrightarrow>
    copying c' (insert a S) P F"
| job_ack: "copying c S P F \<Longrightarrow> i < length (rx_jobs c) \<Longrightarrow> j = rx_jobs c ! i \<Longrightarrow> mfa_fsync j \<and> mfa_fsync_ack_addr j \<noteq> 0 \<Longrightarrow>
    manage_fsync_ack j (drop_job i c) = Done c' \<Longrightarrow> copying c' S P (insert (mfa_seqn j) F)"
| job_bit: "copying c S P F \<Longrightarrow> i < length (rx_jobs c) \<Longrightarrow> j = rx_jobs c ! i \<Longrightarrow> \<not> (mfa_fsync j \<and> mfa_fsync_ack_addr j \<noteq> 0) \<Longrightarrow>
    manage_fsync_ack j (drop_job i c) = Done c' \<Longrightarrow> copying c' S (insert (mfa_seqn j) P) F"
| local_copy: "copying c S P F \<Longrightarrow> copy_log_to_local_nvm_bg a c = Done c' \<Longrightarrow> copying c' S P F"
| free_buf: "copying c S P F \<Longrightarrow> free_log_buf b c = Done c' \<Longrightarrow> copying c' S P F"

section \<open>The bitmap part of the invariant\<close>

definition bitmap_inv :: "rep_ctx \<Rightarrow> nat set \<Rightarrow> nat set \<Rightarrow> bool" where
  "bitmap_inv c P F \<longleftrightarrow> length (log_persisted_bitmap c) = BITS_TO_LONGS COPY_NEXT_BITMAP_SIZE_IN_BIT \<and>
     1 \<le> log_persisted_bitmap_start_seqn c \<and> {1..<log_persisted_bitmap_start_seqn c} \<subseteq> P \<union> F \<and>
     recorded (log_persisted_bitmap c) (log_persisted_bitmap_start_seqn c) P"

text \<open>A sequence number that has not been handled.\<close>

definition open_seqn :: "nat \<Rightarrow> rep_ctx \<Rightarrow> nat set \<Rightarrow> nat set \<Rightarrow> bool" where
  "open_seqn q c P F \<longleftrightarrow> 1 \<le> q \<and> q < log_persisted_bitmap_start_seqn c + 2 ^ 31 \<and> q + 16 < 2 ^ 64 \<and> q \<notin> P \<union> F"

lemma open_seqn_distance:
  assumes "bitmap_inv c P F" and "open_seqn q c P F"
  shows "log_persisted_bitmap_start_seqn c \<le> q" and "sub64 q (log_persisted_bitmap_start_seqn c) = q - log_persisted_bitmap_start_seqn c"
    and "q - log_persisted_bitmap_start_seqn c < 2 ^ 31"
proof -
  show st: "log_persisted_bitmap_start_seqn c \<le> q"
  proof (rule ccontr)
    assume "\<not> ?thesis"
    then have "q \<in> {1..<log_persisted_bitmap_start_seqn c}" using assms(2) by (simp add: open_seqn_def)
    then show False using assms by (auto simp: bitmap_inv_def open_seqn_def)
  qed
  show "sub64 q (log_persisted_bitmap_start_seqn c) = q - log_persisted_bitmap_start_seqn c"
    by (rule sub_w_id [OF st]) (use assms(2) in \<open>simp add: open_seqn_def\<close>)
  show "q - log_persisted_bitmap_start_seqn c < 2 ^ 31" using assms(2) st unfolding open_seqn_def by linarith
qed

lemma all_previous_False: "all_previous_log_persisted_bits_set q c = Done (False, c') \<Longrightarrow> c' = c"
  by (auto simp: all_previous_log_persisted_bits_set_def Let_def split: if_splits)

lemma all_previous_True:
  assumes inv: "bitmap_inv c P F" and q: "open_seqn q c P F" and a: "all_previous_log_persisted_bits_set q c = Done (True, c')"
  shows "bitmap_inv c' P (insert q F)" and "{1..<q} \<subseteq> P \<union> F" and "log_persisted_bitmap_start_seqn c' = q + 1"
    and "\<exists>m st. c' = c\<lparr>log_persisted_bitmap := m, log_persisted_bitmap_start_seqn := st\<rparr>"
proof -
  let ?m = "log_persisted_bitmap c" and ?st = "log_persisted_bitmap_start_seqn c"
  define k where "k = q - ?st"
  note D = open_seqn_distance [OF inv q]
  have k: "sub64 q ?st = k" "cast32 k = k" "signed_w 32 k = int k" "add64 k 1 = k + 1" "add64 (k + 1) 8 = k + 9"
    "cast32 (k + 1) = k + 1" "cast32 (k + 9) = k + 9" "add64 q 1 = q + 1"
    using D(2,3) q by (simp_all add: k_def cast_w_def signed_w_def add_w_def open_seqn_def)
  have c': "c' = c\<lparr>log_persisted_bitmap := bitmap_shift_right ?m (k + 1) (k + 9), log_persisted_bitmap_start_seqn := q + 1\<rparr>"
    and w: "bitmap_weight ?m k = k" "k \<le> 64 * length ?m" "BITS_TO_LONGS (k + 9) \<le> length ?m"
    using a unfolding all_previous_log_persisted_bits_set_def Let_def k by (auto split: if_splits)
  have pre: "\<forall>i < k. bit_at ?m i" using w(1) by (simp only: bitmap_weight_full)
  have rec: "recorded ?m ?st P" and st: "{1..<?st} \<subseteq> P \<union> F" "1 \<le> ?st" using inv by (simp_all add: bitmap_inv_def)
  have qk: "?st + k = q" using D(1) by (simp add: k_def)
  have sub: "{?st..<q} \<subseteq> P" using recorded_prefix [OF rec pre w(2)] unfolding qk .
  show all: "{1..<q} \<subseteq> P \<union> F" using sub st(1) by force
  have "q \<notin> P" using q by (simp add: open_seqn_def)
  then have "recorded (bitmap_shift_right ?m (k + 1) (k + 9)) (q + 1) P"
    using recorded_shift [OF rec pre _ w(3)] unfolding qk by simp
  moreover have "{1..<q + 1} \<subseteq> P \<union> insert q F" using all by (auto simp: less_Suc_eq)
  moreover have "length (bitmap_shift_right ?m (k + 1) (k + 9)) = length ?m" using w(3) by (simp add: length_bitmap_shift_right)
  ultimately show "bitmap_inv c' P (insert q F)" using inv unfolding c' by (simp add: bitmap_inv_def)
  show "log_persisted_bitmap_start_seqn c' = q + 1" by (simp add: c')
  show "\<exists>m st. c' = c\<lparr>log_persisted_bitmap := m, log_persisted_bitmap_start_seqn := st\<rparr>" unfolding c' by blast
qed

lemma set_log_persisted_bit_inv:
  assumes inv: "bitmap_inv c P F" and q: "open_seqn q c P F" and s: "set_log_persisted_bit q c = Done c'"
  shows "bitmap_inv c' (insert q P) F" and "\<exists>m. c' = c\<lparr>log_persisted_bitmap := m\<rparr>"
proof -
  let ?m = "log_persisted_bitmap c" and ?st = "log_persisted_bitmap_start_seqn c"
  note D = open_seqn_distance [OF inv q]
  have c': "c' = c\<lparr>log_persisted_bitmap := bitmap_set ?m (q - ?st) 1\<rparr>" "q - ?st < 64 * length ?m"
    using s unfolding set_log_persisted_bit_def Let_def D(2) by (auto simp: mlfs_assert_def split: if_splits)
  have "recorded (bitmap_set ?m (q - ?st) 1) ?st (insert (?st + (q - ?st)) P)"
    by (rule recorded_set) (use inv q c'(2) D(1) in \<open>auto simp: bitmap_inv_def open_seqn_def\<close>)
  then have "recorded (bitmap_set ?m (q - ?st) 1) ?st (insert q P)" using D(1) by simp
  moreover have "length (bitmap_set ?m (q - ?st) 1) = length ?m" using bitmap_set_spec(1) [of "q - ?st" 1 ?m] c'(2) by simp
  ultimately show "bitmap_inv c' (insert q P) F" using inv unfolding c'(1) by (auto simp: bitmap_inv_def)
  show "\<exists>m. c' = c\<lparr>log_persisted_bitmap := m\<rparr>" unfolding c'(1) by blast
qed

section \<open>Acknowledgements follow the copies\<close>

text \<open>The write that brings the log group of a request to the last replica.\<close>

definition replica_write :: "nat \<Rightarrow> copy_arg \<Rightarrow> effect" where
  "replica_write base a = Nvm_write 1 (ca_log_buf a) (log_addr base (ca_start_blknr a)) (cast32 (ca_log_size a))"

definition replicated :: "nat \<Rightarrow> copy_arg set \<Rightarrow> effect list \<Rightarrow> nat \<Rightarrow> bool" where
  "replicated base S es p \<longleftrightarrow> (\<exists>b \<in> S. ca_seqn b = p \<and> replica_write base b \<in> set es)"

definition acks_ok :: "nat \<Rightarrow> copy_arg set \<Rightarrow> effect list \<Rightarrow> bool" where
  "acks_ok base S es \<longleftrightarrow> (\<forall>i l ad. i < length es \<longrightarrow> es ! i = Fsync_ack l ad \<longrightarrow>
     (\<exists>a \<in> S. ca_fsync_ack_addr a = ad \<and> (\<forall>p \<in> {1..ca_seqn a}. replicated base S (take i es) p)))"

definition no_acks :: "effect list \<Rightarrow> bool" where
  "no_acks es \<longleftrightarrow> (\<forall>e \<in> set es. \<forall>l ad. e \<noteq> Fsync_ack l ad)"

lemma acks_ok_other:
  assumes "acks_ok base S es" and "no_acks es'" and "S \<subseteq> S'"
  shows "acks_ok base S' (es @ es')"
  unfolding acks_ok_def
proof (intro allI impI)
  fix i l ad assume i: "i < length (es @ es')" "(es @ es') ! i = Fsync_ack l ad"
  have "i < length es" using i assms(2) by (force simp: nth_append no_acks_def split: if_splits)
  moreover from this have "es ! i = Fsync_ack l ad" using i(2) by (simp add: nth_append)
  ultimately obtain a where "a \<in> S" "ca_fsync_ack_addr a = ad" "\<forall>p \<in> {1..ca_seqn a}. replicated base S (take i es) p"
    using assms(1) unfolding acks_ok_def by blast
  then show "\<exists>a \<in> S'. ca_fsync_ack_addr a = ad \<and> (\<forall>p \<in> {1..ca_seqn a}. replicated base S' (take i (es @ es')) p)"
    using assms(3) \<open>i < length es\<close> by (force simp: replicated_def)
qed

lemma acks_ok_ack:
  assumes "acks_ok base S es" and "a \<in> S" and "\<forall>p \<in> {1..ca_seqn a}. replicated base S es p"
  shows "acks_ok base S (es @ [Fsync_ack l (ca_fsync_ack_addr a)])"
  using assms unfolding acks_ok_def by (auto simp: nth_append less_Suc_eq)

definition copying_inv :: "rep_ctx \<Rightarrow> copy_arg set \<Rightarrow> nat set \<Rightarrow> nat set \<Rightarrow> bool" where
  "copying_inv c S P F \<longleftrightarrow> bitmap_inv c P F \<and> P \<union> F \<subseteq> ca_seqn ` S \<and>
     (\<forall>j \<in> set (rx_jobs c). mfa_seqn j \<notin> P \<union> F \<and>
        (\<exists>a \<in> S. ca_seqn a = mfa_seqn j \<and> ca_fsync_ack_addr a = mfa_fsync_ack_addr j)) \<and>
     distinct (map mfa_seqn (rx_jobs c)) \<and>
     (\<forall>a \<in> S. replica_write (rx_peer_base_addr c) a \<in> set (rx_effects c) \<and> 1 \<le> ca_seqn a \<and>
        ca_seqn a < log_persisted_bitmap_start_seqn c + 2 ^ 31 \<and> ca_seqn a + 16 < 2 ^ 64) \<and>
     acks_ok (rx_peer_base_addr c) S (rx_effects c)"

text \<open>Everything a step leaves alone.\<close>

definition quiet :: "rep_ctx \<Rightarrow> rep_ctx \<Rightarrow> bool" where
  "quiet c c' \<longleftrightarrow> log_persisted_bitmap c' = log_persisted_bitmap c \<and>
     log_persisted_bitmap_start_seqn c' = log_persisted_bitmap_start_seqn c \<and> rx_jobs c' = rx_jobs c \<and>
     rx_peer_base_addr c' = rx_peer_base_addr c \<and>
     (\<exists>es. rx_effects c' = rx_effects c @ es \<and> no_acks es)"

lemma quiet_inv: "copying_inv c S P F \<Longrightarrow> quiet c c' \<Longrightarrow> copying_inv c' S P F"
  by (auto simp: copying_inv_def quiet_def bitmap_inv_def acks_ok_other)

lemma local_copy_quiet: "copy_log_to_local_nvm_bg a c = Done c' \<Longrightarrow> quiet c c'"
  by (auto simp: copy_log_to_local_nvm_bg_def Let_def run_map_Done_iff emit_def quiet_def no_acks_def nvm_copy_effects_def)

lemma free_buf_quiet: "free_log_buf a c = Done c' \<Longrightarrow> quiet c c'"
  by (auto simp: free_log_buf_def emit_def quiet_def no_acks_def split: if_splits)

text \<open>The state when the data has been written.\<close>

definition after_write :: "copy_arg \<Rightarrow> rep_ctx \<Rightarrow> rep_ctx" where
  "after_write a c =
     (let c1 = emit (nvm_copy_effects (rx_persist_rdma_read c) 1 (ca_log_buf a)
                 (log_addr (rx_peer_base_addr c) (ca_start_blknr a)) (ca_log_size a)) c
      in emit (persist_log_effects a c1) c1)"

lemma after_write_inv:
  assumes "copying_inv c S P F" and "new_request a c S"
  shows "copying_inv (after_write a c) (insert a S) P F" and "open_seqn (ca_seqn a) (after_write a c) P F"
    and "\<forall>j \<in> set (rx_jobs (after_write a c)). mfa_seqn j \<noteq> ca_seqn a"
proof -
  obtain es where es: "after_write a c = c\<lparr>rx_effects := rx_effects c @ es\<rparr>" "no_acks es"
    "replica_write (rx_peer_base_addr c) a \<in> set es"
    by (force simp: after_write_def emit_def Let_def nvm_copy_effects_def persist_log_effects_def replica_write_def no_acks_def)
  show "copying_inv (after_write a c) (insert a S) P F"
    using assms es(2,3) acks_ok_other [of "rx_peer_base_addr c" S "rx_effects c" es "insert a S"]
    unfolding es(1) copying_inv_def new_request_def bitmap_inv_def by auto
  show "open_seqn (ca_seqn a) (after_write a c) P F"
    using assms unfolding es(1) open_seqn_def new_request_def copying_inv_def by auto
  have "\<forall>j \<in> set (rx_jobs c). mfa_seqn j \<in> ca_seqn ` S" using assms(1) unfolding copying_inv_def by (metis imageI)
  then show "\<forall>j \<in> set (rx_jobs (after_write a c)). mfa_seqn j \<noteq> ca_seqn a"
    using assms(2) unfolding es(1) new_request_def by simp metis
qed

lemma ack_inv:
  assumes inv: "copying_inv c S P F" and a: "a \<in> S" "ca_seqn a = q" and q: "open_seqn q c P F"
    and jobs: "\<forall>j \<in> set (rx_jobs c). mfa_seqn j \<noteq> q" and ok: "all_previous_log_persisted_bits_set q c = Done (True, c')"
  shows "copying_inv (send_fsync_ack l (ca_fsync_ack_addr a) c') S P (insert q F)"
proof -
  have bi: "bitmap_inv c P F" using inv by (simp add: copying_inv_def)
  note T = all_previous_True [OF bi q ok]
  obtain m st where c': "c' = c\<lparr>log_persisted_bitmap := m, log_persisted_bitmap_start_seqn := st\<rparr>" using T(4) by blast
  have st: "log_persisted_bitmap_start_seqn c \<le> log_persisted_bitmap_start_seqn c'"
    using T(3) open_seqn_distance(1) [OF bi q] by simp
  have "replicated (rx_peer_base_addr c) S (rx_effects c) p" if "p \<in> {1..q}" for p
  proof -
    have "p \<in> P \<union> F \<or> p = q" using that T(2) by force
    then have "p \<in> ca_seqn ` S" using a inv unfolding copying_inv_def by blast
    then show ?thesis using inv by (auto simp: replicated_def copying_inv_def)
  qed
  then have "acks_ok (rx_peer_base_addr c) S (rx_effects c @ [Fsync_ack l (ca_fsync_ack_addr a)])"
    using inv a by (intro acks_ok_ack) (simp_all add: copying_inv_def)
  moreover have "bitmap_inv (send_fsync_ack l (ca_fsync_ack_addr a) c') P (insert q F)"
    using T(1) by (simp add: bitmap_inv_def send_fsync_ack_def emit_def)
  moreover have "rx_effects (send_fsync_ack l (ca_fsync_ack_addr a) c') = rx_effects c @ [Fsync_ack l (ca_fsync_ack_addr a)]"
    "rx_jobs (send_fsync_ack l (ca_fsync_ack_addr a) c') = rx_jobs c"
    "rx_peer_base_addr (send_fsync_ack l (ca_fsync_ack_addr a) c') = rx_peer_base_addr c"
    "log_persisted_bitmap_start_seqn (send_fsync_ack l (ca_fsync_ack_addr a) c') = log_persisted_bitmap_start_seqn c'"
    by (simp_all add: c' send_fsync_ack_def emit_def)
  moreover have "x < log_persisted_bitmap_start_seqn c' + 2 ^ 31" if "x < log_persisted_bitmap_start_seqn c + 2 ^ 31" for x
    using that st by linarith
  ultimately show ?thesis using inv jobs a unfolding copying_inv_def by auto
qed

lemma bit_inv:
  assumes inv: "copying_inv c S P F" and a: "a \<in> S" "ca_seqn a = q" and q: "open_seqn q c P F"
    and jobs: "\<forall>j \<in> set (rx_jobs c). mfa_seqn j \<noteq> q" and s: "set_log_persisted_bit q c = Done c'"
  shows "copying_inv c' S (insert q P) F"
proof -
  have bi: "bitmap_inv c P F" using inv by (simp add: copying_inv_def)
  note T = set_log_persisted_bit_inv [OF bi q s]
  obtain m where c': "c' = c\<lparr>log_persisted_bitmap := m\<rparr>" using T(2) by blast
  show ?thesis using inv jobs a T(1) unfolding copying_inv_def by (auto simp: c')
qed

lemma drop_job_inv:
  assumes "copying_inv c S P F" and "i < length (rx_jobs c)" and "j = rx_jobs c ! i"
  obtains a where "a \<in> S" "ca_seqn a = mfa_seqn j" "ca_fsync_ack_addr a = mfa_fsync_ack_addr j"
    "copying_inv (drop_job i c) S P F" "open_seqn (mfa_seqn j) (drop_job i c) P F"
    "\<forall>j' \<in> set (rx_jobs (drop_job i c)). mfa_seqn j' \<noteq> mfa_seqn j"
proof -
  have split: "rx_jobs c = take i (rx_jobs c) @ j # drop (Suc i) (rx_jobs c)"
    unfolding assms(3) by (rule id_take_nth_drop [OF assms(2)])
  have "j \<in> set (rx_jobs c)" using assms(2,3) by simp
  then obtain a where a: "a \<in> S" "ca_seqn a = mfa_seqn j" "ca_fsync_ack_addr a = mfa_fsync_ack_addr j" "mfa_seqn j \<notin> P \<union> F"
    using assms(1) unfolding copying_inv_def by blast
  have dj: "distinct (map mfa_seqn (take i (rx_jobs c) @ j # drop (Suc i) (rx_jobs c)))"
    using assms(1) unfolding copying_inv_def by (subst split [symmetric]) simp
  have sub: "set (rx_jobs (drop_job i c)) \<subseteq> set (rx_jobs c)"
    by (auto simp: drop_job_def dest: in_set_takeD in_set_dropD)
  have f: "log_persisted_bitmap (drop_job i c) = log_persisted_bitmap c"
    "log_persisted_bitmap_start_seqn (drop_job i c) = log_persisted_bitmap_start_seqn c"
    "rx_effects (drop_job i c) = rx_effects c" "rx_peer_base_addr (drop_job i c) = rx_peer_base_addr c"
    "rx_jobs (drop_job i c) = take i (rx_jobs c) @ drop (Suc i) (rx_jobs c)" by (simp_all add: drop_job_def)
  have "distinct (map mfa_seqn (rx_jobs (drop_job i c)))" "\<forall>j' \<in> set (rx_jobs (drop_job i c)). mfa_seqn j' \<noteq> mfa_seqn j"
    unfolding f(5) using dj by (auto simp del: image_iff) (metis imageI)+
  moreover have "copying_inv (drop_job i c) S P F"
    using assms(1) sub calculation(1) unfolding copying_inv_def bitmap_inv_def f(1-4) by (meson subsetD)
  moreover have "open_seqn (mfa_seqn j) (drop_job i c) P F"
    using assms(1) a unfolding copying_inv_def open_seqn_def f(2) by metis
  ultimately show thesis using that a by blast
qed

lemma copy_parts:
  "copy_log_to_last_replica_bg a c = Done (ok, c') \<Longrightarrow>
   \<exists>c3. start_fsync_ack a (after_write a c) = Done (ok, c3) \<and> quiet c3 c'"
  by (auto simp: copy_log_to_last_replica_bg_def after_write_def Let_def run_map_Done_iff quiet_def emit_def no_acks_def)

lemma start_fsync_ack_True:
  "start_fsync_ack a c = Done (True, c3) \<Longrightarrow>
   \<exists>c'. all_previous_log_persisted_bits_set (ca_seqn a) c = Done (True, c') \<and>
     c3 = send_fsync_ack (ca_libfs_id a) (ca_fsync_ack_addr a) c'"
  by (auto simp: start_fsync_ack_def run_bind_Done_iff split: if_splits)

lemma start_fsync_ack_False:
  "start_fsync_ack a c = Done (False, c3) \<Longrightarrow>
   c3 = c\<lparr>rx_jobs := rx_jobs c @ [\<lparr>mfa_libfs_id = nx_libfs_id (rx_nic c), mfa_seqn = ca_seqn a,
          mfa_fsync = ca_fsync a, mfa_fsync_ack_addr = ca_fsync_ack_addr a\<rparr>]\<rparr>"
  by (auto simp: start_fsync_ack_def run_bind_Done_iff dest: all_previous_False split: if_splits)

lemma queued_inv:
  assumes "copying_inv c S P F" and "a \<in> S" and "open_seqn (ca_seqn a) c P F"
    and "\<forall>j \<in> set (rx_jobs c). mfa_seqn j \<noteq> ca_seqn a" and "start_fsync_ack a c = Done (False, c')"
  shows "copying_inv c' S P F"
  using assms(1-4) unfolding start_fsync_ack_False [OF assms(5)] copying_inv_def bitmap_inv_def open_seqn_def by auto

lemma copying_invariant: "copying c S P F \<Longrightarrow> copying_inv c S P F"
proof (induction rule: copying.induct)
  case (start c)
  have "bit_at (replicate n 0) i = False" if "i < 64 * n" for i n
  proof -
    have "i div 64 < n" using that by (simp add: less_mult_imp_div_less mult.commute)
    then show ?thesis by (simp add: bit_at_def)
  qed
  then have "{i. i < n \<and> bit_at (replicate k 0) i} = {}" if "n \<le> 64 * k" for n k using that by auto
  with start show ?case
    by (auto simp: fresh_rep_ctx_def copying_inv_def bitmap_inv_def recorded_def bits_before_def acks_ok_def)
next
  case (copy_acked c S P F a c')
  note W = after_write_inv [OF copy_acked.IH copy_acked.hyps(2)]
  obtain c3 c4 where c: "quiet c3 c'" "all_previous_log_persisted_bits_set (ca_seqn a) (after_write a c) = Done (True, c4)"
    "c3 = send_fsync_ack (ca_libfs_id a) (ca_fsync_ack_addr a) c4"
    using copy_parts [OF copy_acked.hyps(3)] start_fsync_ack_True by blast
  show ?case using quiet_inv [OF ack_inv [OF W(1) _ refl W(2,3) c(2)]] c(1,3) by blast
next
  case (copy_queued c S P F a c')
  note W = after_write_inv [OF copy_queued.IH copy_queued.hyps(2)]
  obtain c3 where c: "start_fsync_ack a (after_write a c) = Done (False, c3)" "quiet c3 c'"
    using copy_parts [OF copy_queued.hyps(3)] by blast
  show ?case using quiet_inv [OF queued_inv [OF W(1) _ W(2,3) c(1)] c(2)] by blast
next
  case (job_ack c S P F i j c')
  obtain a where a: "a \<in> S" "ca_seqn a = mfa_seqn j" "ca_fsync_ack_addr a = mfa_fsync_ack_addr j"
    "copying_inv (drop_job i c) S P F" "open_seqn (mfa_seqn j) (drop_job i c) P F"
    "\<forall>j' \<in> set (rx_jobs (drop_job i c)). mfa_seqn j' \<noteq> mfa_seqn j"
    using drop_job_inv [OF job_ack.IH job_ack.hyps(2,3)] by blast
  obtain c4 where c: "all_previous_log_persisted_bits_set (mfa_seqn j) (drop_job i c) = Done (True, c4)"
    "c' = send_fsync_ack (mfa_libfs_id j) (mfa_fsync_ack_addr j) c4"
    using job_ack.hyps(4,5) by (auto simp: manage_fsync_ack_def run_bind_Done_iff split: if_splits)
  show ?case using ack_inv [OF a(4,1,2,5,6) c(1)] unfolding c(2) a(3) by blast
next
  case (job_bit c S P F i j c')
  obtain a where a: "a \<in> S" "ca_seqn a = mfa_seqn j"
    "copying_inv (drop_job i c) S P F" "open_seqn (mfa_seqn j) (drop_job i c) P F"
    "\<forall>j' \<in> set (rx_jobs (drop_job i c)). mfa_seqn j' \<noteq> mfa_seqn j"
    using drop_job_inv [OF job_bit.IH job_bit.hyps(2,3)] by blast
  have "set_log_persisted_bit (mfa_seqn j) (drop_job i c) = Done c'"
    using job_bit.hyps(4,5) by (auto simp: manage_fsync_ack_def split: if_splits)
  then show ?case by (rule bit_inv [OF a(3,1,2,4,5)])
next
  case (local_copy c S P F a c')
  show ?case by (rule quiet_inv [OF local_copy.IH local_copy_quiet [OF local_copy.hyps(2)]])
next
  case (free_buf c S P F b c')
  show ?case by (rule quiet_inv [OF free_buf.IH free_buf_quiet [OF free_buf.hyps(2)]])
qed

text \<open>C12. An fsync is acknowledged only after everything before it is on the last replica. In every
  interleaving of copies and of the work items of the thread pool, if the trace contains an
  acknowledgement, then it belongs to a copied request, and for every sequence number up to
  that of the request the write of that log group to the NVM of the last replica comes earlier
  in the trace. This holds although the bitmap shift drops or misplaces bits: no prefix of
  the bitmap ever has more bits set than groups are persisted.\<close>

theorem fsync_ack_after_replication:
  assumes "copying c S P F" and "i < length (rx_effects c)" and "rx_effects c ! i = Fsync_ack l ad"
  shows "\<exists>a \<in> S. ca_fsync_ack_addr a = ad \<and>
    (\<forall>p \<in> {1..ca_seqn a}. \<exists>b \<in> S. ca_seqn b = p \<and> replica_write (rx_peer_base_addr c) b \<in> set (take i (rx_effects c)))"
  using copying_invariant [OF assms(1)] assms(2,3) unfolding copying_inv_def acks_ok_def replicated_def by blast

section \<open>Lost bits\<close>





lemma fresh_bits: "fresh_rep_ctx c \<Longrightarrow> i < 64 * length (log_persisted_bitmap c) \<Longrightarrow> \<not> bit_at (log_persisted_bitmap c) i"
  by (auto simp: fresh_rep_ctx_def bit_at_def less_mult_imp_div_less mult.commute)


section \<open>A concrete run\<close>

definition demo_rep :: rep_ctx where
  "demo_rep = \<lparr>rx_nic = demo_nic, log_persisted_bitmap = replicate (BITS_TO_LONGS COPY_NEXT_BITMAP_SIZE_IN_BIT) 0,
     log_persisted_bitmap_start_seqn = 1, rx_host_base_addr = 0, rx_peer_base_addr = 0, rx_begin = 0, rx_size = 131072,
     rx_persist_rdma_read = False, rx_persist_clflush = False, rx_flags = (\<lambda>_. False), rx_jobs = [],
     rx_free_jobs = [], rx_effects = []\<rparr>"

definition demo_fsync :: copy_arg where
  "demo_fsync = \<lparr>ca_libfs_id = 0, ca_seqn = 1, ca_log_buf = 0, ca_log_size = 4096, ca_orig_log_size = 4096,
     ca_start_blknr = 2, ca_copy_log_done_p = 0, ca_fsync = True, ca_fsync_ack_addr = 8\<rparr>"

lemma demo_longs: "BITS_TO_LONGS COPY_NEXT_BITMAP_SIZE_IN_BIT = 16384" "BITS_TO_LONGS 9 = 1"
  by (simp_all add: COPY_NEXT_BITMAP_SIZE_IN_BIT_def BITS_TO_LONGS_def)

lemma first_fsync_ok:
  assumes "log_persisted_bitmap_start_seqn c = 1" and "length (log_persisted_bitmap c) = 16384"
  shows "\<exists>c'. all_previous_log_persisted_bits_set 1 c = Done (True, c') \<and> rx_effects c' = rx_effects c \<and> log_persisted_bitmap_start_seqn c' = 2"
proof -
  have "bitmap_weight (log_persisted_bitmap c) 0 = 0" by (simp add: bitmap_weight_def)
  then show ?thesis using assms demo_longs(2)
    by (simp add: all_previous_log_persisted_bits_set_def Let_def sub_w_def cast_w_def add_w_def signed_w_def)
qed

lemma demo_copy:
  "\<exists>c'. copy_log_to_last_replica_bg demo_fsync demo_rep = Done (True, c') \<and> rx_effects c' ! 1 = Fsync_ack 0 8 \<and> 1 < length (rx_effects c')"
proof -
  have w: "after_write demo_fsync demo_rep = demo_rep\<lparr>rx_effects := [Nvm_write 1 0 8192 4096]\<rparr>"
    by (simp add: after_write_def emit_def demo_fsync_def demo_rep_def nvm_copy_effects_def persist_log_effects_def Let_def
        log_addr_def add_w_def cast_w_def g_block_size_shift_def)
  obtain c1 where "all_previous_log_persisted_bits_set 1 (after_write demo_fsync demo_rep) = Done (True, c1)"
    "rx_effects c1 = rx_effects (after_write demo_fsync demo_rep)"
    using first_fsync_ok [of "after_write demo_fsync demo_rep"] unfolding w by (auto simp: demo_rep_def demo_longs)
  moreover have "ca_seqn demo_fsync = 1" "ca_fsync demo_fsync" "ca_fsync_ack_addr demo_fsync = 8" "ca_libfs_id demo_fsync = 0"
    by (simp_all add: demo_fsync_def)
  ultimately show ?thesis
    unfolding copy_log_to_last_replica_bg_def Let_def after_write_def [unfolded Let_def, symmetric] start_fsync_ack_def
    by (simp add: w send_fsync_ack_def emit_def)
qed

theorem fsync_ack_after_replication_witness:
  "\<exists>c' a. copying c' {demo_fsync} {} {1} \<and> rx_effects c' ! 1 = Fsync_ack 0 8 \<and> a \<in> {demo_fsync} \<and>
     replica_write (rx_peer_base_addr c') a \<in> set (take 1 (rx_effects c'))"
proof -
  obtain c' where c': "copy_log_to_last_replica_bg demo_fsync demo_rep = Done (True, c')" "rx_effects c' ! 1 = Fsync_ack 0 8"
    "1 < length (rx_effects c')" using demo_copy by blast
  have "copying demo_rep {} {} {}" by (rule copying.start) (simp add: fresh_rep_ctx_def demo_rep_def)
  moreover have "new_request demo_fsync demo_rep {}" by (simp add: new_request_def demo_fsync_def demo_rep_def)
  ultimately have "copying c' {demo_fsync} {} {ca_seqn demo_fsync}" using c'(1) by (rule copying.copy_acked)
  then have r: "copying c' {demo_fsync} {} {1}" by (simp add: demo_fsync_def)
  from fsync_ack_after_replication [OF r c'(3,2)] r c'(2) show ?thesis by (auto simp: demo_fsync_def)
qed


end
