(* ===== verification/Slots.thy ===== *)
theory Slots
  imports Bitmap
begin

text \<open>
  Allocating numbered slots from a map of used ones.

  The contract between the bitmaps and the code that hands out inode numbers and read cache
  slots: what a search promises, and what claiming and releasing a slot changes. The lemmas on
  repeated allocation are proved once from the contract; the bitmaps of the theory
  Bitmap, with \<open>find_next_zero_bit\<close>, \<open>bitmap_set\<close> and \<open>bitmap_clear\<close>, satisfy it.
\<close>

section \<open>Repeated allocation\<close>

fun take_slots :: "('m \<Rightarrow> nat) \<Rightarrow> ('m \<Rightarrow> nat \<Rightarrow> 'm) \<Rightarrow> nat \<Rightarrow> 'm \<Rightarrow> nat list \<times> 'm" where
  "take_slots search claim 0 m = ([], m)"
| "take_slots search claim (Suc n) m =
     (let i = search m; (is, m') = take_slots search claim n (claim m i) in (i # is, m'))"

definition free_slots :: "('m \<Rightarrow> nat \<Rightarrow> bool) \<Rightarrow> 'm \<Rightarrow> nat \<Rightarrow> nat \<Rightarrow> nat set" where
  "free_slots used m lo w = {i. lo \<le> i \<and> i < w \<and> \<not> used m i}"

locale slot_map =
  fixes used :: "'m \<Rightarrow> nat \<Rightarrow> bool" and cap :: "'m \<Rightarrow> nat" and find_free :: "'m \<Rightarrow> nat \<Rightarrow> nat \<Rightarrow> nat"
    and claim :: "'m \<Rightarrow> nat \<Rightarrow> 'm" and release :: "'m \<Rightarrow> nat \<Rightarrow> 'm"
  assumes find_free: "lo \<le> hi \<Longrightarrow> first_from (\<lambda>i. \<not> used m i) lo hi (find_free m hi lo)"
    and used_claim: "i < cap m \<Longrightarrow> used (claim m i) j \<longleftrightarrow> j = i \<or> used m j"
    and used_release: "i < cap m \<Longrightarrow> used (release m i) j \<longleftrightarrow> j \<noteq> i \<and> used m j"
    and cap_claim: "i < cap m \<Longrightarrow> cap (claim m i) = cap m"
    and cap_release: "i < cap m \<Longrightarrow> cap (release m i) = cap m"
begin

lemma find_in_window:
  assumes "lo \<le> hi" and "w \<le> hi" and "free_slots used m lo w \<noteq> {}"
  shows "find_free m hi lo \<in> free_slots used m lo w"
proof -
  obtain i where "lo \<le> i" "i < w" "\<not> used m i" using assms(3) by (auto simp: free_slots_def)
  then have "find_free m hi lo \<le> i" using find_free [OF assms(1), of m] by (auto simp: first_from_def not_le)
  then show ?thesis using find_free [OF assms(1), of m] \<open>i < w\<close> assms(2) by (auto simp: first_from_def free_slots_def)
qed

lemma find_outside_window:
  assumes "lo \<le> w" and "w \<le> hi" and "free_slots used m lo w = {}"
  shows "w \<le> find_free m hi lo"
  using find_free [of lo hi m] assms by (force simp: first_from_def free_slots_def not_le)

lemma find_full:
  assumes "lo \<le> hi" and "free_slots used m lo hi = {}"
  shows "find_free m hi lo = hi"
  using find_outside_window [OF assms(1) order_refl assms(2)] find_free [OF assms(1), of m] by (simp add: first_from_def)

lemma free_claim: "i < cap m \<Longrightarrow> free_slots used (claim m i) lo w = free_slots used m lo w - {i}"
  by (auto simp: free_slots_def used_claim)

text \<open>A released slot is found again, or one below it.\<close>

lemma find_released:
  assumes "lo \<le> i" and "i < hi" and "i < cap m"
  shows "find_free (release m i) hi lo \<le> i"
  using find_free [of lo hi "release m i"] assms by (auto simp: first_from_def used_release not_le)

lemma take_slots_fresh:
  assumes "lo \<le> hi" and "w \<le> hi" and "hi \<le> cap m" and "n \<le> card (free_slots used m lo w)"
    and "take_slots (\<lambda>m. find_free m hi lo) claim n m = (is, m')"
  shows "distinct is \<and> length is = n \<and> set is \<subseteq> free_slots used m lo w \<and> cap m' = cap m \<and>
    (\<forall>j. used m' j \<longleftrightarrow> used m j \<or> j \<in> set is)"
  using assms(3-5)
proof (induction n arbitrary: m "is")
  case (Suc n)
  let ?i = "find_free m hi lo"
  have fin: "finite (free_slots used m lo w)" by (simp add: free_slots_def)
  have "free_slots used m lo w \<noteq> {}" using Suc.prems(2) by auto
  then have i: "?i \<in> free_slots used m lo w" by (rule find_in_window [OF assms(1,2)])
  have c: "?i < cap m" using i Suc.prems(1) assms(2) by (simp add: free_slots_def)
  obtain js where js: "take_slots (\<lambda>m. find_free m hi lo) claim n (claim m ?i) = (js, m')" "is = ?i # js"
    using Suc.prems(3) by (auto simp: Let_def split: prod.splits)
  have "n \<le> card (free_slots used (claim m ?i) lo w)"
    using Suc.prems(2) fin i by (simp add: free_claim [OF c])
  from Suc.IH [OF _ this js(1)] i c js(2) Suc.prems(1) show ?case
    by (auto simp: cap_claim free_claim used_claim)
qed simp

end

interpretation bm: slot_map bit_at "\<lambda>m. 64 * length m" find_next_zero_bit "\<lambda>m i. bitmap_set m i 1" "\<lambda>m i. bitmap_clear m i 1"
proof unfold_locales
  fix i j and m :: bitmap
  assume i: "i < 64 * length m"
  then have le: "i + 1 \<le> 64 * length m" by simp
  show "bit_at (bitmap_set m i 1) j \<longleftrightarrow> j = i \<or> bit_at m j" using bitmap_set_spec(2) [OF le, of j] by auto
  show "bit_at (bitmap_clear m i 1) j \<longleftrightarrow> j \<noteq> i \<and> bit_at m j" using bitmap_clear_spec(2) [OF le, of j] by auto
  show "64 * length (bitmap_set m i 1) = 64 * length m" using bitmap_set_spec(1) [OF le] by simp
  show "64 * length (bitmap_clear m i 1) = 64 * length m" using bitmap_clear_spec(1) [OF le] by simp
qed (rule find_next_zero_bit_spec)

end
