(* ===== verification/Inodes.thy ===== *)
theory Inodes
  imports Txn Slots
begin

text \<open>
  In-memory inodes of a LibFS process: numbers, allocation, deletion, truncation.

  Models \<open>ialloc\<close>, \<open>icreate\<close>, \<open>idealloc\<close>, \<open>iupdate\<close>, \<open>iget\<close>, \<open>ilock\<close>, \<open>iunlock\<close>, \<open>iput\<close>,
  \<open>iunlockput\<close>, \<open>itrunc\<close>, \<open>stati\<close>, \<open>read_ondisk_inode\<close>, \<open>read_root_inode\<close> and the bitmap part
  of \<open>read_superblock\<close> of \<open>libfs/src/filesystem/fs.c\<close>, in the \<open>DISTRIBUTED\<close> build. An inode
  pointer is an inode number that the inode cache maps to the inode. Mutexes are left out, only
  their busy flag is kept; the cache of directory entries of an inode is not modelled.

  Inode numbers come from a bitmap, through the contract of the theory Slots.
\<close>

section \<open>Operations\<close>

definition DI_VALID :: byte where "DI_VALID = 0x1"
definition NINODES :: nat where "NINODES = 300000"
definition MAX_LIBFS_PROCESSES :: nat where "MAX_LIBFS_PROCESSES = 8"
definition ROOTINO :: nat where "ROOTINO = 1"

definition read_ondisk_inode :: "nat \<Rightarrow> libfs \<Rightarrow> dinode" where
  "read_ondisk_inode inum s = ondisk_inodes s inum"

definition sync_inode_from_dinode :: "inode \<Rightarrow> dinode \<Rightarrow> inode" where
  "sync_inode_from_dinode ip dip = ip\<lparr>i_dinode := dip, i_dinode_flags := or (i_dinode_flags ip) DI_VALID\<rparr>"

definition lock_inode :: "inode \<Rightarrow> inode" where
  "lock_inode ip = ip\<lparr>i_flags := or (i_flags ip) I_BUSY\<rparr>"

definition unlock_inode :: "inode \<Rightarrow> inode" where
  "unlock_inode ip = ip\<lparr>i_flags := flag_clear (i_flags ip) I_BUSY\<rparr>"

definition put_inode :: "inode \<Rightarrow> libfs \<Rightarrow> libfs" where
  "put_inode ip s = s\<lparr>icache := (icache s)(i_inum ip \<mapsto> ip)\<rparr>"

definition with_inode :: "nat \<Rightarrow> libfs \<Rightarrow> (inode \<Rightarrow> 'a run) \<Rightarrow> 'a run" where
  "with_inode inum s f = (case icache s inum of None \<Rightarrow> Failed (NullDeref ''ip'') | Some ip \<Rightarrow> f ip)"

definition ilock :: "nat \<Rightarrow> libfs \<Rightarrow> libfs run" where
  "ilock inum s = with_inode inum s (\<lambda>ip. Done (put_inode (lock_inode ip) s))"

definition iunlock :: "nat \<Rightarrow> libfs \<Rightarrow> libfs run" where
  "iunlock inum s = with_inode inum s (\<lambda>ip. Done (put_inode (unlock_inode ip) s))"

definition iput :: "nat \<Rightarrow> libfs \<Rightarrow> libfs run" where
  "iput inum s = with_inode inum s (\<lambda>ip. Done (put_inode (ip\<lparr>i_ref := i_ref ip - 1\<rparr>) s))"

definition iunlockput :: "nat \<Rightarrow> libfs \<Rightarrow> libfs run" where
  "iunlockput inum s = run_bind (iunlock inum s) (iput inum)"

definition ialloc :: "nat \<Rightarrow> dinode \<Rightarrow> libfs \<Rightarrow> libfs run" where
  "ialloc inum dip s =
     (let (ip, ic) = (case icache_find inum (icache s) of Some ip \<Rightarrow> (ip, icache s)
                      | None \<Rightarrow> icache_alloc_add inum (icache s));
          ip1 = lock_inode ip;
          ip2 = (if flag_set (i_flags ip1) I_DELETING then ip1\<lparr>i_dinode := zero_dinode, i_inum := inum\<rparr>
                 else sync_inode_from_dinode ip1 dip);
          ip3 = ip2\<lparr>i_flags := I_VALID, i_ref := 1, i_n_fcache_entries := 0, i_fcache_hash := Some Map.empty\<rparr>
      in if inum \<ge> 64 * length (s_inode_bitmap s) then Failed (OutOfBounds ''s_inode_bitmap'')
         else Done (s\<lparr>icache := ic(inum \<mapsto> ip3), s_inode_bitmap := bitmap_set (s_inode_bitmap s) inum 1\<rparr>))"

text \<open>The first number of the slice of a process.\<close>

definition slice_start :: "nat \<Rightarrow> nat" where
  "slice_start self_id = self_id * NINODES div MAX_LIBFS_PROCESSES"

definition icreate :: "nat \<Rightarrow> nat \<Rightarrow> nat \<Rightarrow> libfs \<Rightarrow> (nat \<times> libfs) run" where
  "icreate ninodes self_id ty s =
     (let inum = find_next_zero_bit (s_inode_bitmap s) ninodes (slice_start self_id)
      in run_map (\<lambda>s'. (inum, s')) (ialloc inum (setup_ondisk_inode ty) s))"

definition idealloc :: "nat \<Rightarrow> libfs \<Rightarrow> libfs run" where
  "idealloc inum s = with_inode inum s (\<lambda>ip0.
     let ip = lock_inode ip0
     in mlfs_assert (i_ref ip < 2) ''i_ref < 2''
          (Done (put_inode (unlock_inode (ip\<lparr>i_flags := or (flag_clear (i_flags ip) I_BUSY) I_DELETING,
             i_dinode := (i_dinode ip)\<lparr>di_size := 0, di_itype := 0\<rparr>\<rparr>)) s)))"

definition iupdate :: "nat \<Rightarrow> libfs \<Rightarrow> libfs run" where
  "iupdate inum s = with_inode inum s (\<lambda>ip.
     mlfs_assert (\<not> flag_set (i_flags ip) I_DELETING) ''!(flags & I_DELETING)''
       (if \<not> flag_set (i_dinode_flags ip) DI_VALID then Failed (Panic ''embedded _dinode is invalid'')
        else let ip' = ip\<lparr>i_dinode := (i_dinode ip)\<lparr>di_mtime := now s, di_atime := now s\<rparr>\<rparr>
             in run_map (\<lambda>lm. (put_inode ip' s)\<lparr>lhm := lm\<rparr>)
                  (add_to_loghdr (fl_size (fslog s)) L_TYPE_INODE_UPDATE inum 0 DINODE_SIZE [] (lhm s))))"

definition iget :: "nat \<Rightarrow> libfs \<Rightarrow> (nat option \<times> libfs) run" where
  "iget inum s =
     (case icache_find inum (icache s) of
        Some ip \<Rightarrow>
          if flag_set (i_flags ip) I_VALID \<and> flag_set (i_flags ip) I_DELETING then Done (None, s)
          else Done (Some inum, put_inode (ip\<lparr>i_ref := i_ref ip + 1\<rparr>) s)
      | None \<Rightarrow> run_bind (ialloc inum (read_ondisk_inode inum s) s)
                  (\<lambda>s1. run_map (\<lambda>s2. (Some inum, s2)) (iunlock inum s1)))"

text \<open>
  \<open>itrunc\<close> stores the new length before it compares it with \<open>ip->size\<close>. The loop visits the
  blocks \<open>0\<close> to \<open>ip->size >> 12\<close>.
\<close>

fun trunc_loop :: "nat list \<Rightarrow> inode \<Rightarrow> inode run" where
  "trunc_loop [] ip = Done ip"
| "trunc_loop (key # keys) ip =
     (case fcache_find key ip of
        (Some b, ip1) \<Rightarrow> if fcb_is_data_cached b then run_bind (fcache_del b ip1) (trunc_loop keys) else trunc_loop keys ip1
      | (None, ip1) \<Rightarrow> trunc_loop keys ip1)"

definition itrunc :: "nat \<Rightarrow> nat \<Rightarrow> libfs \<Rightarrow> libfs run" where
  "itrunc inum len s = with_inode inum s (\<lambda>ip.
     run_bind (iupdate inum (put_inode (ip\<lparr>i_dinode := (i_dinode ip)\<lparr>di_size := len\<rparr>\<rparr>) s)) (\<lambda>s1.
     with_inode inum s1 (\<lambda>ip1.
       if len = 0 then run_map (\<lambda>ip2. put_inode ip2 s1) (fcache_del_all ip1)
       else if len < di_size (i_dinode ip1)
       then run_map (\<lambda>ip2. put_inode ip2 s1) (trunc_loop [0..<Suc (di_size (i_dinode ip1) div 2 ^ g_block_size_shift)] ip1)
       else Done s1)))"

record stat =
  st_ino :: nat
  st_is_dir :: bool
  st_nlink :: nat
  st_size :: nat
  st_blksize :: nat
  st_blocks :: nat
  st_mtime :: nat
  st_ctime :: nat
  st_atime :: nat

definition stati :: "nat \<Rightarrow> libfs \<Rightarrow> stat run" where
  "stati inum s = with_inode inum s (\<lambda>ip. let d = i_dinode ip in
     Done \<lparr>st_ino = i_inum ip, st_is_dir = (di_itype d = T_DIR), st_nlink = di_nlink d, st_size = di_size d,
       st_blksize = g_block_size_bytes, st_blocks = di_size d div 512,
       st_mtime = di_mtime d, st_ctime = di_ctime d, st_atime = di_atime d\<rparr>)"

text \<open>The bitmap that \<open>read_superblock\<close> sets up.\<close>

definition init_inode_bitmap :: "nat \<Rightarrow> (nat \<Rightarrow> dinode) \<Rightarrow> bitmap" where
  "init_inode_bitmap ninodes ondisk =
     foldl (\<lambda>m inum. if di_itype (ondisk inum) \<noteq> 0 then bitmap_set m inum 1 else m)
       (replicate (BITS_TO_LONGS ninodes) 0) [1..<ninodes]"

definition read_root_inode :: "libfs \<Rightarrow> libfs run" where
  "read_root_inode s =
     (let d = read_ondisk_inode ROOTINO s
      in mlfs_assert (di_itype d = T_DIR) ''itype == T_DIR'' (run_bind (ialloc ROOTINO d s) (iunlock ROOTINO)))"

section \<open>Slices\<close>

fun icreates :: "nat \<Rightarrow> nat \<Rightarrow> nat list \<Rightarrow> libfs \<Rightarrow> (nat list \<times> libfs) run" where
  "icreates ninodes self_id [] s = Done ([], s)"
| "icreates ninodes self_id (ty # tys) s =
     run_bind (icreate ninodes self_id ty s) (\<lambda>(inum, s1).
       run_map (\<lambda>(inums, s2). (inum # inums, s2)) (icreates ninodes self_id tys s1))"

definition slice :: "nat \<Rightarrow> nat set" where
  "slice self_id = {slice_start self_id..<slice_start (Suc self_id)}"

abbreviation slice_free :: "nat \<Rightarrow> libfs \<Rightarrow> nat set" where
  "slice_free self_id s \<equiv> free_slots bit_at (s_inode_bitmap s) (slice_start self_id) (slice_start (Suc self_id))"

lemma slice_mono: "a \<le> b \<Longrightarrow> slice_start a \<le> slice_start b"
  by (simp add: slice_start_def div_le_mono)

lemma slices_disjoint: "a \<noteq> b \<Longrightarrow> slice a \<inter> slice b = {}"
proof (induction a b rule: linorder_wlog)
  case (le a b)
  then have "slice_start (Suc a) \<le> slice_start b" by (intro slice_mono) simp
  then show ?case by (auto simp: slice_def)
qed (simp add: Int_commute)

lemma ialloc_Done:
  assumes "inum < 64 * length (s_inode_bitmap s)"
  shows "\<exists>s'. ialloc inum dip s = Done s' \<and> s_inode_bitmap s' = bitmap_set (s_inode_bitmap s) inum 1"
  using assms by (simp add: ialloc_def Let_def split: prod.splits)

lemma icreates_slots:
  assumes "slice_start (Suc self_id) \<le> ninodes" and "ninodes \<le> 64 * length (s_inode_bitmap s)"
    and "length tys \<le> card (slice_free self_id s)"
  shows "\<exists>inums s'. icreates ninodes self_id tys s = Done (inums, s') \<and>
    take_slots (\<lambda>m. find_next_zero_bit m ninodes (slice_start self_id)) (\<lambda>m i. bitmap_set m i 1) (length tys) (s_inode_bitmap s) =
      (inums, s_inode_bitmap s')"
  using assms(2,3)
proof (induction tys arbitrary: s)
  case (Cons ty tys)
  let ?m = "s_inode_bitmap s" and ?lo = "slice_start self_id" and ?w = "slice_start (Suc self_id)"
  let ?i = "find_next_zero_bit ?m ninodes ?lo"
  have lo: "?lo \<le> ninodes" using assms(1) slice_mono [of self_id "Suc self_id"] by simp
  have ne: "slice_free self_id s \<noteq> {}" using Cons.prems(2) by auto
  have i: "?i \<in> slice_free self_id s" by (rule bm.find_in_window [OF lo assms(1) ne])
  then have c: "?i < 64 * length ?m" using Cons.prems(1) assms(1) by (simp add: free_slots_def)
  obtain s1 where s1: "ialloc ?i (setup_ondisk_inode ty) s = Done s1" "s_inode_bitmap s1 = bitmap_set ?m ?i 1"
    using ialloc_Done [OF c] by blast
  have "finite (slice_free self_id s)" by (simp add: free_slots_def)
  then have "length tys \<le> card (slice_free self_id s1)"
    using Cons.prems(2) i unfolding s1(2) bm.free_claim [OF c] by simp
  moreover have "ninodes \<le> 64 * length (s_inode_bitmap s1)" unfolding s1(2) bm.cap_claim [OF c] by (rule Cons.prems(1))
  ultimately obtain inums s' where "icreates ninodes self_id tys s1 = Done (inums, s')"
    "take_slots (\<lambda>m. find_next_zero_bit m ninodes ?lo) (\<lambda>m i. bitmap_set m i 1) (length tys) (s_inode_bitmap s1) = (inums, s_inode_bitmap s')"
    using Cons.IH by blast
  then show ?case using s1 by (simp add: icreate_def Let_def)
qed simp

text \<open>C17. Two processes never create the same inode number while their slices last. Each process
  searches its own copy of the inode bitmap from the start of its slice. If both have at least
  as many free numbers in their slices as they create inodes, every creation succeeds, the numbers
  of a process are distinct, free before, and in its slice, and so the two lists have no number
  in common.\<close>

theorem icreate_slices_disjoint:
  assumes "self1 \<noteq> self2" and "slice_start (Suc self1) \<le> ninodes" and "slice_start (Suc self2) \<le> ninodes"
    and "ninodes \<le> 64 * length (s_inode_bitmap s1)" and "ninodes \<le> 64 * length (s_inode_bitmap s2)"
    and "length tys1 \<le> card (slice_free self1 s1)" and "length tys2 \<le> card (slice_free self2 s2)"
  shows "\<exists>is1 is2 s1' s2'. icreates ninodes self1 tys1 s1 = Done (is1, s1') \<and> icreates ninodes self2 tys2 s2 = Done (is2, s2') \<and>
    distinct is1 \<and> distinct is2 \<and> set is1 \<subseteq> slice_free self1 s1 \<and> set is2 \<subseteq> slice_free self2 s2 \<and> set is1 \<inter> set is2 = {}"
proof -
  have one: "\<exists>is s'. icreates ninodes p tys s = Done (is, s') \<and> distinct is \<and> set is \<subseteq> slice_free p s"
    if h: "slice_start (Suc p) \<le> ninodes" "ninodes \<le> 64 * length (s_inode_bitmap s)" "length tys \<le> card (slice_free p s)" for p s tys
  proof -
    have lo: "slice_start p \<le> ninodes" using h(1) slice_mono [of p "Suc p"] by simp
    obtain "is" s' where r: "icreates ninodes p tys s = Done (is, s')"
      "take_slots (\<lambda>m. find_next_zero_bit m ninodes (slice_start p)) (\<lambda>m i. bitmap_set m i 1) (length tys) (s_inode_bitmap s) = (is, s_inode_bitmap s')"
      using icreates_slots [OF h] by blast
    then show ?thesis using bm.take_slots_fresh [OF lo h(1,2,3) r(2)] by blast
  qed
  obtain is1 s1' where r1: "icreates ninodes self1 tys1 s1 = Done (is1, s1')" "distinct is1" "set is1 \<subseteq> slice_free self1 s1"
    using one [OF assms(2,4,6)] by blast
  obtain is2 s2' where r2: "icreates ninodes self2 tys2 s2 = Done (is2, s2')" "distinct is2" "set is2 \<subseteq> slice_free self2 s2"
    using one [OF assms(3,5,7)] by blast
  have "slice_free self1 s1 \<subseteq> slice self1" "slice_free self2 s2 \<subseteq> slice self2" by (auto simp: free_slots_def slice_def)
  then have "set is1 \<inter> set is2 = {}" using r1(3) r2(3) slices_disjoint [OF assms(1)] by blast
  with r1 r2 show ?thesis by blast
qed

text \<open>C37. A process whose slice is used up takes a number that belongs to another process. The
  search of \<open>icreate\<close> does not stop at the end of the slice, and its result is not checked: with
  no free number in the slice the new inode gets a number behind it, and with no free number
  at all behind the start of the slice it gets the number of inodes of the file system, for
  which there is no inode on disk.\<close>

theorem icreate_leaves_slice:
  assumes "slice_start (Suc self_id) \<le> ninodes" and "ninodes < 64 * length (s_inode_bitmap s)" and "slice_free self_id s = {}"
  shows "\<exists>inum s'. icreate ninodes self_id ty s = Done (inum, s') \<and> slice_start (Suc self_id) \<le> inum \<and>
    (free_slots bit_at (s_inode_bitmap s) (slice_start self_id) ninodes = {} \<longrightarrow> inum = ninodes)"
proof -
  let ?i = "find_next_zero_bit (s_inode_bitmap s) ninodes (slice_start self_id)"
  have lo: "slice_start self_id \<le> slice_start (Suc self_id)" "slice_start self_id \<le> ninodes"
    using assms(1) slice_mono [of self_id "Suc self_id"] by simp_all
  have "?i \<le> ninodes" using bm.find_free [OF lo(2), of "s_inode_bitmap s"] by (simp add: first_from_def)
  then have "\<exists>s'. icreate ninodes self_id ty s = Done (?i, s')"
    using ialloc_Done [of ?i s "setup_ondisk_inode ty"] assms(2) by (auto simp: icreate_def Let_def)
  moreover have "slice_start (Suc self_id) \<le> ?i" by (rule bm.find_outside_window [OF lo(1) assms(1,3)])
  ultimately show ?thesis using bm.find_full [OF lo(2)] by blast
qed

lemma find_beyond: "nbits \<le> start \<Longrightarrow> find_next_zero_bit m nbits start = nbits"
  by (simp add: find_next_zero_bit_def find_next_bit_inv_def)

text \<open>C18. Processes with an identifier from \<open>MAX_LIBFS_PROCESSES\<close> on create all their inodes with
  one and the same number. Identifiers are shared with the kernel processes, which are
  registered first (\<open>g_n_nodes\<close> of them), so these are all processes from the third on in a
  cluster of three nodes with SmartNICs. Their slice starts behind the last inode, the search
  returns the number of inodes each time, and that number has no inode on disk.\<close>

theorem icreate_high_ids_collide:
  assumes "MAX_LIBFS_PROCESSES \<le> self_id" and "NINODES < 64 * length (s_inode_bitmap s)"
  shows "\<exists>s'. icreates NINODES self_id tys s = Done (replicate (length tys) NINODES, s')"
  using assms(2)
proof (induction tys arbitrary: s)
  case (Cons ty tys)
  have "NINODES \<le> slice_start self_id" using assms(1) by (simp add: slice_start_def MAX_LIBFS_PROCESSES_def NINODES_def)
  then have f: "find_next_zero_bit (s_inode_bitmap s) NINODES (slice_start self_id) = NINODES" by (rule find_beyond)
  obtain s1 where s1: "ialloc NINODES (setup_ondisk_inode ty) s = Done s1" "s_inode_bitmap s1 = bitmap_set (s_inode_bitmap s) NINODES 1"
    using ialloc_Done [OF Cons.prems] by blast
  have "NINODES < 64 * length (s_inode_bitmap s1)" unfolding s1(2) bm.cap_claim [OF Cons.prems] by (rule Cons.prems)
  from Cons.IH [OF this] show ?case using s1(1) by (auto simp: icreate_def f Let_def)
qed simp

section \<open>Truncation\<close>

lemma iupdate_Done:
  assumes "iupdate inum s = Done s'" and "icache s inum = Some ip" and "i_inum ip = inum"
  obtains lm where "s' = (put_inode (ip\<lparr>i_dinode := (i_dinode ip)\<lparr>di_mtime := now s, di_atime := now s\<rparr>\<rparr>) s)\<lparr>lhm := lm\<rparr>"
  using assms by (auto simp: iupdate_def with_inode_def mlfs_assert_def Let_def run_map_Done_iff split: if_splits)

text \<open>C36. Truncating a file to a non-zero length leaves its cached blocks in place. The new length is
  stored before it is compared with the old one, so that the loop that drops cached blocks
  is dead code: whatever the old size, the file cache of the inode is unchanged, and reading
  beyond the new end after growing the file again finds the old data.\<close>

theorem itrunc_keeps_cache:
  assumes "itrunc inum len s = Done s'" and "len \<noteq> 0" and "icache s inum = Some ip" and "i_inum ip = inum"
  shows "\<exists>ip'. icache s' inum = Some ip' \<and> di_size (i_dinode ip') = len \<and>
    i_fcache_hash ip' = i_fcache_hash ip \<and> i_n_fcache_entries ip' = i_n_fcache_entries ip"
proof -
  let ?ip = "ip\<lparr>i_dinode := (i_dinode ip)\<lparr>di_size := len\<rparr>\<rparr>"
  let ?s = "put_inode ?ip s"
  have ic: "icache ?s inum = Some ?ip" "i_inum ?ip = inum" using assms(4) by (simp_all add: put_inode_def)
  obtain s1 where s1: "iupdate inum ?s = Done s1"
    "with_inode inum s1 (\<lambda>ip1. if len = 0 then run_map (\<lambda>ip2. put_inode ip2 s1) (fcache_del_all ip1)
       else if len < di_size (i_dinode ip1)
       then run_map (\<lambda>ip2. put_inode ip2 s1) (trunc_loop [0..<Suc (di_size (i_dinode ip1) div 2 ^ g_block_size_shift)] ip1)
       else Done s1) = Done s'"
    using assms(1,3) by (auto simp: itrunc_def with_inode_def run_bind_Done_iff)
  obtain lm where "s1 = (put_inode (?ip\<lparr>i_dinode := (i_dinode ?ip)\<lparr>di_mtime := now ?s, di_atime := now ?s\<rparr>\<rparr>) ?s)\<lparr>lhm := lm\<rparr>"
    by (rule iupdate_Done [OF s1(1) ic])
  then show ?thesis using s1(2) assms(2,4) by (auto simp: put_inode_def with_inode_def)
qed

section \<open>Well-formed inodes\<close>

text \<open>
  A cached inode is filed under its number, its embedded inode is valid, and if it is in use, its
  number is marked in the bitmap.
\<close>

definition inode_ok :: "bitmap \<Rightarrow> nat \<Rightarrow> inode \<Rightarrow> bool" where
  "inode_ok m n ip \<longleftrightarrow> i_inum ip = n \<and> flag_set (i_dinode_flags ip) DI_VALID \<and> n < 64 * length m \<and>
     (flag_set (i_flags ip) I_VALID \<longrightarrow> bit_at m n)"

definition inode_wf :: "libfs \<Rightarrow> bool" where
  "inode_wf s \<longleftrightarrow> (\<forall>n ip. icache s n = Some ip \<longrightarrow> inode_ok (s_inode_bitmap s) n ip)"

text \<open>One operation on inodes, or one step of the log that touches them.\<close>

inductive inode_step :: "libfs \<Rightarrow> libfs \<Rightarrow> bool" where
  create: "icreate ninodes self_id ty s = Done (inum, s') \<Longrightarrow> inode_step s s'"
| root: "read_root_inode s = Done s' \<Longrightarrow> inode_step s s'"
| get: "iget inum s = Done (r, s') \<Longrightarrow> inode_step s s'"
| lock: "ilock inum s = Done s' \<Longrightarrow> inode_step s s'"
| unlock: "iunlock inum s = Done s' \<Longrightarrow> inode_step s s'"
| put: "iput inum s = Done s' \<Longrightarrow> inode_step s s'"
| unlockput: "iunlockput inum s = Done s' \<Longrightarrow> inode_step s s'"
| update: "iupdate inum s = Done s' \<Longrightarrow> inode_step s s'"
| trunc: "itrunc inum len s = Done s' \<Longrightarrow> inode_step s s'"
| dealloc: "idealloc inum s = Done s' \<Longrightarrow> inode_step s s'"
| persist: "persist_log_blocks s = Done s' \<Longrightarrow> inode_step s s'"
| digest: "handle_digest_response r s = Done s' \<Longrightarrow> inode_step s s'"

lemma flag_set_or [simp]: "flag_set (or a b) f \<longleftrightarrow> flag_set a f \<or> flag_set b f"
  by (simp add: flag_set_def bit.conj_disj_distrib2 or_eq_0_iff)

lemma flag_set_clear: "flag_set (flag_clear a b) f \<Longrightarrow> flag_set a f"
  by (auto simp: flag_set_def flag_clear_def and.assoc and.left_commute [of a])

lemma flags_distinct [simp]:
  "flag_set DI_VALID DI_VALID" "\<not> flag_set I_BUSY I_VALID" "\<not> flag_set I_DELETING I_VALID" "flag_set I_VALID I_VALID"
  "\<not> flag_set I_BUSY I_DELETING" "\<not> flag_set 0 f"
  by (simp_all add: flag_set_def DI_VALID_def I_BUSY_def I_DELETING_def I_VALID_def)

text \<open>The parts of an inode the invariant is about.\<close>

definition same_core :: "inode \<Rightarrow> inode \<Rightarrow> bool" where
  "same_core ip ip' \<longleftrightarrow> i_inum ip' = i_inum ip \<and> i_dinode_flags ip' = i_dinode_flags ip \<and>
     (flag_set (i_flags ip') I_VALID \<longrightarrow> flag_set (i_flags ip) I_VALID)"

lemma inode_ok_core: "inode_ok m n ip \<Longrightarrow> same_core ip ip' \<Longrightarrow> inode_ok m n ip'"
  by (simp add: inode_ok_def same_core_def)

lemma same_core_trans: "same_core a b \<Longrightarrow> same_core b c \<Longrightarrow> same_core a c"
  by (simp add: same_core_def)

lemma wf_upd:
  assumes "inode_wf s" and "icache s n = Some ip" and "same_core ip ip'"
    and "icache s' = (icache s)(n \<mapsto> ip')" and "s_inode_bitmap s' = s_inode_bitmap s"
  shows "inode_wf s'"
  using assms inode_ok_core [of "s_inode_bitmap s" n ip ip'] by (auto simp: inode_wf_def)

lemma wf_same:
  "inode_wf s \<Longrightarrow> icache s' = icache s \<Longrightarrow> s_inode_bitmap s' = s_inode_bitmap s \<Longrightarrow> inode_wf s'"
  by (simp add: inode_wf_def)

lemma wf_put:
  assumes "inode_wf s" and "icache s n = Some ip" and "same_core ip ip'"
  shows "inode_wf (put_inode ip' s)"
proof (rule wf_upd [OF assms])
  have "i_inum ip' = n" using assms by (auto simp: inode_wf_def inode_ok_def same_core_def)
  then show "icache (put_inode ip' s) = (icache s)(n \<mapsto> ip')" by (simp add: put_inode_def)
qed (simp add: put_inode_def)

lemma wf_ialloc:
  assumes "inode_wf s" and "ialloc inum dip s = Done s'"
  shows "inode_wf s'"
proof -
  have c: "inum < 64 * length (s_inode_bitmap s)" using assms(2) by (simp add: ialloc_def Let_def split: prod.splits if_splits)
  let ?ip = "the (icache s' inum)"
  have ip: "icache s' = (icache s)(inum \<mapsto> ?ip) \<and> s_inode_bitmap s' = bitmap_set (s_inode_bitmap s) inum 1 \<and>
    i_inum ?ip = inum \<and> flag_set (i_dinode_flags ?ip) DI_VALID"
  proof (cases "icache s inum")
    case None
    then show ?thesis using assms(2)
      by (auto simp: ialloc_def Let_def icache_find_def icache_alloc_add_def lock_inode_def sync_inode_from_dinode_def split: if_splits)
  next
    case (Some ip)
    then have "i_inum ip = inum" "flag_set (i_dinode_flags ip) DI_VALID" using assms(1) by (auto simp: inode_wf_def inode_ok_def)
    then show ?thesis using assms(2) Some
      by (auto simp: ialloc_def Let_def icache_find_def lock_inode_def sync_inode_from_dinode_def split: if_splits)
  qed
  have "inode_ok (s_inode_bitmap s') n jp" if "icache s' n = Some jp" for n jp
  proof (cases "n = inum")
    case True
    then show ?thesis using that ip c bm.cap_claim [OF c] bm.used_claim [OF c] by (simp add: inode_ok_def)
  next
    case False
    have "icache s n = Some jp" using that False ip by (metis fun_upd_other)
    then have "inode_ok (s_inode_bitmap s) n jp" using assms(1) by (simp add: inode_wf_def)
    then show ?thesis using ip bm.cap_claim [OF c] bm.used_claim [OF c] by (simp add: inode_ok_def)
  qed
  then show ?thesis by (simp add: inode_wf_def)
qed

lemma core_refl [simp]: "same_core ip ip" by (simp add: same_core_def)

lemma core_fcache [simp]:
  "same_core ip (ip\<lparr>i_fcache_hash := h\<rparr>)" "same_core ip (ip\<lparr>i_n_fcache_entries := k\<rparr>)"
  "same_core ip (ip\<lparr>i_fcache_hash := h, i_n_fcache_entries := k\<rparr>)" "same_core ip (ip\<lparr>i_dinode := d\<rparr>)"
  "same_core ip (fcache_set key b ip)" "same_core ip (fcache_init ip)" "same_core ip (lock_inode ip)"
  by (simp_all add: same_core_def fcache_set_def fcache_init_def lock_inode_def split: option.splits)

lemma core_unlock [simp]: "same_core ip (unlock_inode ip)"
  by (auto simp: same_core_def unlock_inode_def dest: flag_set_clear)

lemma core_find: "fcache_find key ip = (r, ip') \<Longrightarrow> same_core ip ip'"
  by (auto simp: fcache_find_def Let_def)

lemma core_alloc_add: "fcache_alloc_add key ip = (b, ip') \<Longrightarrow> same_core ip ip'"
  by (auto simp: fcache_alloc_add_def Let_def fcache_set_def same_core_def)

lemma core_del: "fcache_del b ip = Done ip' \<Longrightarrow> same_core ip ip'"
  by (auto simp: fcache_del_def split: option.splits)

lemma core_del_all: "fcache_del_all ip = Done ip' \<Longrightarrow> same_core ip ip'"
  by (auto simp: fcache_del_all_def split: option.splits)

lemma core_patch: "fcache_patch av na key blk off sz ip = Done ip' \<Longrightarrow> same_core ip ip'"
proof -
  assume a: "fcache_patch av na key blk off sz ip = Done ip'"
  obtain fb ip1 where f: "fcache_find key ip = (fb, ip1)" by fastforce
  from a f obtain ip2 b where "ip' = fcache_set key b ip2" "ip2 = ip1 \<or> (\<exists>b. fcache_alloc_add key ip1 = (b, ip2))"
    by (auto simp: fcache_patch_def Let_def run_bind_Done_iff run_map_Done_iff split: option.splits prod.splits)
  then show ?thesis using core_find [OF f] core_alloc_add same_core_trans core_fcache(5) by metis
qed

lemma core_overwrite: "same_core ip (fcache_overwrite av key blk ip)"
proof -
  obtain fb ip1 where f: "fcache_find key ip = (fb, ip1)" by fastforce
  obtain b ip2 where g: "fcache_alloc_add key ip1 = (b, ip2)" by fastforce
  from f g obtain jp c where "fcache_overwrite av key blk ip = fcache_set key c jp" "jp = ip1 \<or> jp = ip2"
    by (cases fb) (auto simp: fcache_overwrite_def Let_def)
  then show ?thesis using core_find [OF f] core_alloc_add [OF g] same_core_trans core_fcache(5) by metis
qed

lemma core_overwrite_range: "same_core ip (fcache_overwrite_range av off blk nr ip)"
proof -
  have "same_core ip (fold (\<lambda>k. fcache_overwrite av (f k) (g k)) ks ip)" for ks f g
    by (induction ks arbitrary: ip) (auto intro: same_core_trans core_overwrite)
  then show ?thesis by (simp add: fcache_overwrite_range_def)
qed

lemma core_trunc: "trunc_loop keys ip = Done ip' \<Longrightarrow> same_core ip ip'"
proof (induction keys arbitrary: ip)
  case (Cons key keys)
  obtain fb ip1 where f: "fcache_find key ip = (fb, ip1)" by fastforce
  with Cons.prems obtain ip2 where "trunc_loop keys ip2 = Done ip'" "ip2 = ip1 \<or> (\<exists>b. fcache_del b ip1 = Done ip2)"
    by (auto simp: run_bind_Done_iff split: option.splits if_splits)
  then show ?case using Cons.IH core_del core_find [OF f] same_core_trans by metis
qed simp

lemma wf_persist_inode:
  assumes "inode_wf s" and "persist_log_inode idx h s = Done s'"
  shows "inode_wf s'"
proof -
  let ?n = "lh_inode_no h ! idx" and ?m = "s_inode_bitmap s"
  obtain ip where ip: "icache s ?n = Some ip" using assms(2)
    by (auto simp: persist_log_inode_def Let_def mlfs_assert_def icache_find_def take_pos_def upd_hdr_def split: option.splits if_splits)
  have ok: "inode_ok ?m ?n ip" using assms(1) ip by (simp add: inode_wf_def)
  then have c: "?n < 64 * length ?m" "i_inum ip = ?n" by (simp_all add: inode_ok_def)
  show ?thesis
  proof (cases "flag_set (i_flags ip) I_DELETING")
    case True
    then have s': "icache s' = (icache s)(?n \<mapsto> ip\<lparr>i_flags := flag_clear (i_flags ip) I_VALID\<rparr>)" "s_inode_bitmap s' = bitmap_clear ?m ?n 1"
      using assms(2) ip c(2)
      by (auto simp: persist_log_inode_def Let_def mlfs_assert_def icache_find_def take_pos_def upd_hdr_def mlfs_write_def split: if_splits)
    have "\<not> flag_set (flag_clear (i_flags ip) I_VALID) I_VALID" by (simp add: flag_set_def flag_clear_def and.assoc)
    then show ?thesis using assms(1) ok c(1) bm.cap_release [OF c(1)] bm.used_release [OF c(1)]
      unfolding inode_wf_def inode_ok_def s' by auto
  next
    case False
    then have "icache s' = icache s" "s_inode_bitmap s' = ?m" using assms(2) ip
      by (auto simp: persist_log_inode_def Let_def mlfs_assert_def icache_find_def take_pos_def upd_hdr_def mlfs_write_def split: if_splits)
    then show ?thesis by (rule wf_same [OF assms(1)])
  qed
qed

lemma wf_persist_file:
  assumes "inode_wf s" and "persist_log_file idx k h s = Done s'"
  shows "inode_wf s'"
proof -
  let ?n = "lh_inode_no h ! idx"
  obtain ip where ip: "icache s ?n = Some ip" using assms(2) by (auto simp: persist_log_file_def Let_def icache_find_def split: option.splits)
  then have "\<exists>ip'. same_core ip ip' \<and> icache s' = (icache s)(?n \<mapsto> ip') \<and> s_inode_bitmap s' = s_inode_bitmap s" using assms(2)
    by (auto simp: persist_log_file_def Let_def icache_find_def run_bind_Done_iff mlfs_assert_def take_pos_def upd_hdr_def mlfs_write_def
        split: if_splits dest: core_patch intro: core_overwrite_range)
  then show ?thesis using wf_upd [OF assms(1) ip] by blast
qed

lemma wf_persist_loop: "persist_loop ts i k h s = Done s' \<Longrightarrow> inode_wf s \<Longrightarrow> inode_wf s'"
proof (induction ts i k h s rule: persist_loop.induct)
  case (2 t ts i k h s)
  then show ?case by (cases t) (auto simp: run_bind_Done_iff dest: wf_persist_inode wf_persist_file)
qed simp

lemma wf_with:
  assumes "inode_wf s" and "with_inode n s (\<lambda>ip. Done (put_inode (f ip) s)) = Done s'" and "\<And>ip. same_core ip (f ip)"
  shows "inode_wf s'"
  using assms wf_put [OF assms(1)] by (auto simp: with_inode_def split: option.splits)

lemma wf_ilock: "inode_wf s \<Longrightarrow> ilock n s = Done s' \<Longrightarrow> inode_wf s'"
  unfolding ilock_def by (erule wf_with, assumption) simp

lemma wf_iunlock: "inode_wf s \<Longrightarrow> iunlock n s = Done s' \<Longrightarrow> inode_wf s'"
  unfolding iunlock_def by (erule wf_with, assumption) simp

lemma wf_iput: "inode_wf s \<Longrightarrow> iput n s = Done s' \<Longrightarrow> inode_wf s'"
  unfolding iput_def by (erule wf_with, assumption) (simp add: same_core_def)

lemma wf_iupdate:
  assumes "inode_wf s" and "iupdate n s = Done s'"
  shows "inode_wf s'"
proof -
  obtain ip where ip: "icache s n = Some ip" using assms(2) by (auto simp: iupdate_def with_inode_def split: option.splits)
  then have "i_inum ip = n" using assms(1) by (simp add: inode_wf_def inode_ok_def)
  from iupdate_Done [OF assms(2) ip this] obtain lm d where "s' = (put_inode (ip\<lparr>i_dinode := d\<rparr>) s)\<lparr>lhm := lm\<rparr>" by metis
  then show ?thesis using wf_same [OF wf_put [OF assms(1) ip core_fcache(4) [of ip d]], of s'] by simp
qed

lemma wf_itrunc:
  assumes "inode_wf s" and "itrunc n len s = Done s'"
  shows "inode_wf s'"
proof -
  obtain ip where ip: "icache s n = Some ip" using assms(2) by (auto simp: itrunc_def with_inode_def split: option.splits)
  let ?s = "put_inode (ip\<lparr>i_dinode := (i_dinode ip)\<lparr>di_size := len\<rparr>\<rparr>) s"
  from assms(2) ip obtain s1 where "iupdate n ?s = Done s1"
    "with_inode n s1 (\<lambda>ip1. if len = 0 then run_map (\<lambda>ip2. put_inode ip2 s1) (fcache_del_all ip1)
       else if len < di_size (i_dinode ip1)
       then run_map (\<lambda>ip2. put_inode ip2 s1) (trunc_loop [0..<Suc (di_size (i_dinode ip1) div 2 ^ g_block_size_shift)] ip1)
       else Done s1) = Done s'"
    by (auto simp: itrunc_def with_inode_def run_bind_Done_iff)
  moreover from this have w: "inode_wf s1" using wf_iupdate wf_put [OF assms(1) ip core_fcache(4)] by blast
  ultimately show ?thesis
    by (auto simp: with_inode_def run_map_Done_iff simp del: upt_Suc split: option.splits if_splits
        dest: core_del_all core_trunc intro: wf_put [OF w])
qed

lemma wf_idealloc:
  assumes "inode_wf s" and "idealloc n s = Done s'"
  shows "inode_wf s'"
proof -
  let ?f = "\<lambda>ip0. let ip = lock_inode ip0 in unlock_inode (ip\<lparr>i_flags := or (flag_clear (i_flags ip) I_BUSY) I_DELETING,
     i_dinode := (i_dinode ip)\<lparr>di_size := 0, di_itype := 0\<rparr>\<rparr>)"
  have "with_inode n s (\<lambda>ip. Done (put_inode (?f ip) s)) = Done s'"
    using assms(2) by (auto simp: idealloc_def with_inode_def Let_def mlfs_assert_def split: option.splits if_splits)
  moreover have "same_core ip (?f ip)" for ip
    by (auto simp: same_core_def lock_inode_def unlock_inode_def Let_def dest!: flag_set_clear)
  ultimately show ?thesis by (rule wf_with [OF assms(1)])
qed

lemma wf_digest:
  assumes "inode_wf s" and "handle_digest_response r s = Done s'"
  shows "inode_wf s'"
proof -
  let ?f = "\<lambda>ip. if flag_set (i_flags ip) I_DELETING then ip else sync_inode_ext_tree (ondisk_inodes s) ip"
  have "icache s' = (\<lambda>n. map_option ?f (icache s n))" "s_inode_bitmap s' = s_inode_bitmap s"
    using assms(2) by (auto simp: handle_digest_response_def Let_def sync_all_inode_ext_trees_def reset_publish_meta_def
        write_log_superblock_def mlfs_write_def cong: if_cong split: option.splits if_splits)
  moreover have "same_core ip (?f ip)" for ip by (auto simp: same_core_def sync_inode_ext_tree_def dest!: flag_set_clear)
  ultimately show ?thesis using assms(1) inode_ok_core by (fastforce simp: inode_wf_def)
qed

lemma wf_step: "inode_step s s' \<Longrightarrow> inode_wf s \<Longrightarrow> inode_wf s'"
proof (induction rule: inode_step.induct)
  case (create ninodes self_id ty s inum s')
  then show ?case by (auto simp: icreate_def Let_def run_map_Done_iff intro: wf_ialloc)
next
  case (root s s')
  then show ?case
    by (auto simp: read_root_inode_def Let_def mlfs_assert_def run_bind_Done_iff split: if_splits intro: wf_iunlock wf_ialloc)
next
  case (get inum s r s')
  have "same_core ip (ip\<lparr>i_ref := k\<rparr>)" for ip k by (simp add: same_core_def)
  then show ?case using get wf_put [OF get(2)]
    by (auto simp: iget_def icache_find_def run_bind_Done_iff run_map_Done_iff split: option.splits if_splits
        intro: wf_iunlock wf_ialloc)
qed (auto simp: persist_log_blocks_def iunlockput_def run_bind_Done_iff split: option.splits
      intro: wf_ilock wf_iunlock wf_iput wf_iupdate wf_itrunc wf_idealloc wf_digest wf_persist_loop)

text \<open>C16. Cached inodes stay well formed through every sequence of inode operations, commits and digest
  responses: each is filed under its own number, its embedded inode is valid, and a number in use is
  marked in the bitmap. Hence \<open>icreate\<close> never hands out the number of an inode in use, unless
  it has run out of numbers.\<close>

theorem inode_wf_reachable:
  assumes "inode_step\<^sup>*\<^sup>* s s'" and "inode_wf s"
  shows "inode_wf s' \<and> (\<forall>ninodes self_id ty inum s''. icreate ninodes self_id ty s' = Done (inum, s'') \<and> slice_start self_id \<le> ninodes \<and>
    inum < ninodes \<longrightarrow> (\<forall>ip. icache s' inum = Some ip \<longrightarrow> \<not> flag_set (i_flags ip) I_VALID))"
proof -
  have wf: "inode_wf s'" using assms by (induction rule: rtranclp_induct) (auto intro: wf_step)
  have "\<not> flag_set (i_flags ip) I_VALID"
    if "icreate ninodes self_id ty s' = Done (inum, s'')" "slice_start self_id \<le> ninodes" "inum < ninodes" "icache s' inum = Some ip"
    for ninodes self_id ty inum s'' ip
  proof -
    have "inum = find_next_zero_bit (s_inode_bitmap s') ninodes (slice_start self_id)"
      using that(1) by (simp add: icreate_def Let_def run_map_Done_iff)
    then have "\<not> bit_at (s_inode_bitmap s') inum" using bm.find_free [OF that(2), of "s_inode_bitmap s'"] that(3) by (simp add: first_from_def)
    then show ?thesis using wf that(4) by (auto simp: inode_wf_def inode_ok_def)
  qed
  with wf show ?thesis by blast
qed

section \<open>A concrete file system\<close>

definition demo_fs :: libfs where
  "demo_fs = demo_init\<lparr>icache := Map.empty, s_inode_bitmap := replicate (BITS_TO_LONGS NINODES) 0\<rparr>"

definition demo_full :: libfs where
  "demo_full = demo_fs\<lparr>s_inode_bitmap := replicate (BITS_TO_LONGS NINODES) (not 0)\<rparr>"

lemma free_slots_replicate:
  assumes "w \<le> 64 * n"
  shows "free_slots bit_at (replicate n 0) lo w = {lo..<w}" "free_slots bit_at (replicate n (not 0)) lo w = {}"
proof -
  have "bit_at (replicate n x) i \<longleftrightarrow> bit x (i mod 64)" if "i < w" for i and x :: "64 word"
  proof -
    have "i div 64 < n" using that assms by (simp add: less_mult_imp_div_less mult.commute)
    then show ?thesis by (simp add: bit_at_def)
  qed
  then show "free_slots bit_at (replicate n 0) lo w = {lo..<w}" "free_slots bit_at (replicate n (not 0)) lo w = {}"
    by (auto simp: free_slots_def bit_simps)
qed

lemma demo_fs_bitmap: "length (s_inode_bitmap demo_fs) = 4688" "length (s_inode_bitmap demo_full) = 4688"
  by (simp_all add: demo_fs_def demo_full_def BITS_TO_LONGS_def NINODES_def)

lemma demo_slice_free:
  assumes "slice_start (Suc p) \<le> NINODES"
  shows "slice_free p demo_fs = slice p" "slice_free p demo_full = {}"
    "free_slots bit_at (s_inode_bitmap demo_full) (slice_start p) NINODES = {}"
proof -
  have n: "BITS_TO_LONGS NINODES = 4688" "NINODES \<le> 64 * 4688" by (simp_all add: BITS_TO_LONGS_def NINODES_def)
  have w: "slice_start (Suc p) \<le> 64 * 4688" using assms n(2) by (rule order_trans)
  show "slice_free p demo_fs = slice p" "slice_free p demo_full = {}"
    "free_slots bit_at (s_inode_bitmap demo_full) (slice_start p) NINODES = {}"
    using free_slots_replicate [OF w] free_slots_replicate [OF n(2)] n(1) by (simp_all add: demo_fs_def demo_full_def slice_def)
qed

lemma slice_card: "card (slice 6) = 37500" "card (slice 7) = 37500" "slice_start 7 \<le> NINODES" "slice_start 8 \<le> NINODES"
  by (simp_all add: slice_def slice_start_def NINODES_def MAX_LIBFS_PROCESSES_def)

theorem icreate_slices_disjoint_witness:
  "\<exists>is1 is2 s1' s2'. icreates NINODES 6 [T_FILE, T_DIR] demo_fs = Done (is1, s1') \<and> icreates NINODES 7 [T_FILE] demo_fs = Done (is2, s2') \<and>
    distinct is1 \<and> set is1 \<inter> set is2 = {}"
  using icreate_slices_disjoint [of 6 7 NINODES demo_fs demo_fs "[T_FILE, T_DIR]" "[T_FILE]"] demo_slice_free(1) [of 6] demo_slice_free(1) [of 7]
    slice_card demo_fs_bitmap by (auto simp: NINODES_def)

theorem icreate_leaves_slice_witness: "\<exists>s'. icreate NINODES 6 T_FILE demo_full = Done (NINODES, s')"
  using icreate_leaves_slice [of 6 NINODES demo_full T_FILE] demo_slice_free(2,3) [of 6] slice_card(3) demo_fs_bitmap
  by (auto simp: NINODES_def)

theorem icreate_high_ids_collide_witness: "\<exists>s'. icreates NINODES 8 [T_FILE, T_DIR] demo_fs = Done ([NINODES, NINODES], s')"
  using icreate_high_ids_collide [of 8 demo_fs "[T_FILE, T_DIR]"] demo_fs_bitmap by (auto simp: NINODES_def MAX_LIBFS_PROCESSES_def)

lemma demo_init_fields: "icache demo_init = [7 \<mapsto> demo_inode 7]" "lhm demo_init = zero_loghdr_meta"
  "0 < fl_size (fslog demo_init)"
  by (simp_all add: demo_simps)

lemma demo_init_itrunc: "\<exists>s'. itrunc 7 100 demo_init = Done s'"
  by (simp add: itrunc_def with_inode_def demo_init_fields demo_inode_def put_inode_def iupdate_def mlfs_assert_def flag_set_def
      DI_VALID_def I_VALID_def I_DELETING_def add_to_loghdr_def zero_loghdr_meta_def zero_loghdr_def g_params Let_def)

theorem itrunc_keeps_cache_witness:
  "\<exists>s' ip'. itrunc 7 100 demo_init = Done s' \<and> icache s' 7 = Some ip' \<and> i_fcache_hash ip' = i_fcache_hash (demo_inode 7)"
proof -
  obtain s' where "itrunc 7 100 demo_init = Done s'" using demo_init_itrunc by blast
  then show ?thesis using itrunc_keeps_cache [of 7 100 demo_init s' "demo_inode 7"] demo_init_fields(1) by (auto simp: demo_inode_def)
qed

theorem inode_wf_reachable_witness:
  "\<exists>inum s'. icreate NINODES 6 T_FILE demo_fs = Done (inum, s') \<and> inode_step\<^sup>*\<^sup>* demo_fs s' \<and> inode_wf s'"
proof -
  obtain inum s' where c: "icreate NINODES 6 T_FILE demo_fs = Done (inum, s')"
    using icreates_slots [of 6 NINODES demo_fs "[T_FILE]"] demo_slice_free(1) [of 6] slice_card demo_fs_bitmap
    by (auto simp: NINODES_def run_bind_Done_iff)
  then have "inode_step\<^sup>*\<^sup>* demo_fs s'" by (intro r_into_rtranclp inode_step.create)
  moreover have "inode_wf demo_fs" by (simp add: inode_wf_def demo_fs_def)
  ultimately show ?thesis using inode_wf_reachable c by blast
qed

text \<open>The bitmap that \<open>read_superblock\<close> builds marks exactly the inodes in use on disk, number 0 apart,
  which it never marks.\<close>

theorem init_inode_bitmap_bits:
  assumes "i < ninodes"
  shows "bit_at (init_inode_bitmap ninodes ondisk) i \<longleftrightarrow> i \<noteq> 0 \<and> di_itype (ondisk i) \<noteq> 0"
proof -
  let ?step = "\<lambda>m inum. if di_itype (ondisk inum) \<noteq> 0 then bitmap_set m inum 1 else m"
  have fold: "bit_at (foldl ?step m js) i \<longleftrightarrow> bit_at m i \<or> i \<in> set js \<and> di_itype (ondisk i) \<noteq> 0"
    if "\<forall>j \<in> set js. j < 64 * length m" for m js using that
  proof (induction js arbitrary: m)
    case (Cons j js)
    have c: "j < 64 * length m" using Cons.prems by simp
    have "length (?step m j) = length m" using bm.cap_claim [OF c] by simp
    then have "bit_at (foldl ?step (?step m j) js) i \<longleftrightarrow> bit_at (?step m j) i \<or> i \<in> set js \<and> di_itype (ondisk i) \<noteq> 0"
      using Cons by simp
    moreover have "bit_at (?step m j) i \<longleftrightarrow> bit_at m i \<or> i = j \<and> di_itype (ondisk i) \<noteq> 0" using bm.used_claim [OF c, of i] by auto
    ultimately show ?case by (simp only: foldl_Cons list.set insert_iff) blast
  qed simp
  let ?m = "replicate (BITS_TO_LONGS ninodes) (0 :: 64 word)"
  have "i \<in> free_slots bit_at ?m 0 ninodes" unfolding free_slots_replicate(1) [OF longs_cover(1)] using assms by simp
  then have "\<not> bit_at ?m i" by (simp add: free_slots_def)
  moreover have "\<forall>j \<in> set [1..<ninodes]. j < 64 * length ?m" using longs_cover(1) [of ninodes] by auto
  ultimately show ?thesis using fold [of "[1..<ninodes]" ?m] assms by (auto simp: init_inode_bitmap_def)
qed

theorem init_inode_bitmap_bits_witness:
  "bit_at (init_inode_bitmap 70 (\<lambda>n. if n = 1 then setup_ondisk_inode T_DIR else zero_dinode)) 1"
  using init_inode_bitmap_bits [of 1 70 "\<lambda>n. if n = 1 then setup_ondisk_inode T_DIR else zero_dinode"]
  by (simp add: setup_ondisk_inode_def T_DIR_def zero_dinode_def)

end
