(* ===== verification/Digest.thy ===== *)
theory Digest
  imports HostMemcpy Inodes
begin

text \<open>
  Publishing a log group: coalescing its operations and applying them to the inodes.

  Models \<open>digest_replay_and_optimize\<close>, \<open>digest_log_from_replay_list\<close>, \<open>digest_each_log_entries\<close>,
  \<open>digest_inode\<close>, \<open>digest_file\<close>, \<open>digest_unlink\<close> and \<open>get_blk_cnt_from_length\<close> of
  \<open>kernfs/digest.c\<close>, \<open>digest_logs\<close> of \<open>kernfs/nic/build_memcpy_list.c\<close>, and \<open>ialloc\<close> and \<open>iget\<close> of
  \<open>kernfs/inode.c\<close>, with the flags \<open>DIGEST_OPT\<close> and \<open>DIGEST_OPT_MERGE_WRITES\<close> and the option
  \<open>digest_opt_host_memcpy\<close>: data is not copied here, but entered in a list of copies for the host.

  Extent trees are not modelled: what the code asks of them, \<open>mlfs_ext_get_blocks\<close>,
  \<open>mlfs_ext_truncate\<close> and the initialisation of a tree, are functions on an arbitrary state, given
  as an argument. The hash tables of the replay list index the items of its list, so
  that a lookup is a search of the list. Statistics, locks and migration are left out.
\<close>

section \<open>State\<close>

text \<open>
  \<open>get_blocks inum m_lblk m_len\<close> returns the number of blocks and the first physical block,
  \<open>ext_truncate inum start end\<close> an error code.
\<close>

record 'e ext_ops =
  get_blocks :: "nat \<Rightarrow> nat \<Rightarrow> nat \<Rightarrow> 'e \<Rightarrow> int \<times> nat \<times> 'e"
  ext_truncate :: "nat \<Rightarrow> nat \<Rightarrow> nat \<Rightarrow> 'e \<Rightarrow> int \<times> 'e"
  ext_tree_init :: "nat \<Rightarrow> 'e \<Rightarrow> 'e"

text \<open>
  The KernFS; \<open>kf_dirty\<close> is the tree of dirty inodes of the LibFS whose log is digested,
  \<open>kf_memcpy\<close> the list of copies, with room for \<open>kf_memcpy_cap\<close> entries.
\<close>

record 'e kernfs =
  kf_icache :: icache
  kf_ondisk :: "nat \<Rightarrow> dinode"
  kf_ninodes :: nat
  kf_ext :: 'e
  kf_dirty :: "nat set"
  kf_versions :: "nat \<Rightarrow> nat"
  kf_map_base :: nat
  kf_memcpy :: "memcpy_meta list"
  kf_memcpy_cap :: nat

definition mlfs_mark_inode_dirty :: "nat \<Rightarrow> 'e kernfs \<Rightarrow> 'e kernfs" where
  "mlfs_mark_inode_dirty inum k = k\<lparr>kf_dirty := insert inum (kf_dirty k)\<rparr>"

definition put_kinode :: "nat \<Rightarrow> inode \<Rightarrow> 'e kernfs \<Rightarrow> 'e kernfs" where
  "put_kinode inum ip k = k\<lparr>kf_icache := (kf_icache k)(inum \<mapsto> ip)\<rparr>"

definition set_size :: "nat \<Rightarrow> inode \<Rightarrow> inode" where
  "set_size sz ip = ip\<lparr>i_dinode := (i_dinode ip)\<lparr>di_size := sz\<rparr>\<rparr>"

abbreviation isize :: "inode \<Rightarrow> nat" where "isize ip \<equiv> di_size (i_dinode ip)"
abbreviation itype :: "inode \<Rightarrow> nat" where "itype ip \<equiv> di_itype (i_dinode ip)"

section \<open>Inodes of the KernFS\<close>

definition kernfs_iget :: "nat \<Rightarrow> 'e kernfs \<Rightarrow> inode" where
  "kernfs_iget inum k = (case icache_find inum (kf_icache k) of
     Some ip \<Rightarrow> ip\<lparr>i_ref := i_ref ip + 1\<rparr> | None \<Rightarrow> fst (icache_alloc_add inum (kf_icache k)))"

text \<open>
  \<open>ialloc\<close> returns the number of the inode, which differs from the argument only for the argument 0.
  An inode in the cache gets another reference in both branches of the code.
\<close>

definition kernfs_ialloc :: "nat \<Rightarrow> nat \<Rightarrow> 'e kernfs \<Rightarrow> (nat \<times> 'e kernfs) run" where
  "kernfs_ialloc ty inode_nr k =
     (if inode_nr = 0
      then case find (\<lambda>n. di_itype (kf_ondisk k n) = 0) [1..<kf_ninodes k] of
             None \<Rightarrow> Failed (Panic ''ialloc: no inodes'')
           | Some inum \<Rightarrow>
               let ip = sync_inode_from_dinode (kernfs_iget inum k) (zero_dinode\<lparr>di_itype := ty\<rparr>)
               in Done (inum, put_kinode inum (ip\<lparr>i_flags := or (i_flags ip) I_VALID, i_dinode := (i_dinode ip)\<lparr>di_nlink := 1\<rparr>\<rparr>) k)
      else let ip = kernfs_iget inode_nr k;
               dip = (if di_itype (kf_ondisk k inode_nr) = 0 then zero_dinode\<lparr>di_itype := ty\<rparr> else kf_ondisk k inode_nr);
               ip1 = (if flag_set (i_flags ip) I_VALID then ip
                      else let ip' = sync_inode_from_dinode ip dip in ip'\<lparr>i_flags := or (i_flags ip') I_VALID\<rparr>)
           in Done (inode_nr, put_kinode inode_nr (ip1\<lparr>i_dinode := (i_dinode ip1)\<lparr>di_nlink := 1\<rparr>\<rparr>) k))"

section \<open>Applying one operation\<close>

text \<open>\<open>log\<close> is the inode that a log block holds.\<close>

definition reuse_deleting :: "dinode \<Rightarrow> inode \<Rightarrow> inode" where
  "reuse_deleting src ip =
     (if flag_set (i_flags ip) I_DELETING
      then ip\<lparr>i_flags := or (flag_clear (i_flags ip) I_DELETING) I_VALID, i_dinode := (i_dinode ip)\<lparr>di_itype := di_itype src\<rparr>\<rparr>
      else ip)"

definition digest_inode :: "'e ext_ops \<Rightarrow> (nat \<Rightarrow> dinode) \<Rightarrow> nat \<Rightarrow> nat \<Rightarrow> 'e kernfs \<Rightarrow> 'e kernfs run" where
  "digest_inode ops log inum blknr k =
     (let src = log blknr in
      run_bind (case icache_find inum (kf_icache k) of Some ip \<Rightarrow> Done (inum, k) | None \<Rightarrow> kernfs_ialloc (di_itype src) inum k)
        (\<lambda>(m, k1). case icache_find m (kf_icache k1) of
           None \<Rightarrow> Failed (Assertion ''inode'')
         | Some ip0 \<Rightarrow>
             let ip = reuse_deleting src ip0;
                 e1 = (if itype ip = T_FILE \<or> itype ip = T_DIR then ext_tree_init ops m (kf_ext k1) else kf_ext k1);
                 start_blk = di_size src div g_block_size_bytes + (if di_size src mod g_block_size_bytes \<noteq> 0 then 1 else 0);
                 end_blk = isize ip div g_block_size_bytes;
                 (ret, e2) = (if itype ip = T_FILE \<and> di_size src < isize ip
                              then ext_truncate ops m (cast32 start_blk) (cast32 end_blk) e1 else (0, e1))
             in mlfs_assert (ret = 0) ''!ret''
                  (Done (mlfs_mark_inode_dirty m (put_kinode m (set_size (di_size src) ip) (k1\<lparr>kf_ext := e2\<rparr>))))))"

definition get_blk_cnt_from_length :: "nat \<Rightarrow> nat" where
  "get_blk_cnt_from_length len =
     (if len < g_block_size_bytes then 1
      else len div g_block_size_bytes + (if len mod g_block_size_bytes \<noteq> 0 then 1 else 0))"

definition add_memcpy_meta_to_array :: "memcpy_meta \<Rightarrow> 'e kernfs \<Rightarrow> 'e kernfs run" where
  "add_memcpy_meta_to_array m k =
     (if length (kf_memcpy k) < kf_memcpy_cap k then Done (k\<lparr>kf_memcpy := kf_memcpy k @ [m]\<rparr>) else Failed (OutOfBounds ''memcpy_meta_list''))"

definition g_root_dev :: nat where "g_root_dev = 1"

text \<open>
  The loop over the blocks of an operation, with \<open>rest = nr_blocks - nr_digested_blocks\<close>. The first
  assertion on the number of blocks compares it as an unsigned number, so that it also fails for an error code.
\<close>

function digest_blocks :: "'e ext_ops \<Rightarrow> nat \<Rightarrow> nat \<Rightarrow> nat \<Rightarrow> nat \<Rightarrow> 'e kernfs \<Rightarrow> 'e kernfs run" where
  "digest_blocks ops inum cur_offset data rest k =
     (if rest = 0 then Done k
      else if cur_offset mod g_block_size_bytes \<noteq> 0 then Failed (Assertion ''cur_offset aligned'')
      else let (got, pblk, e') = get_blocks ops inum (cast32 (cur_offset div g_block_size_bytes)) rest (kf_ext k) in
           if pblk = 0 then Failed (Assertion ''m_pblk != 0'')
           else if got < 0 \<or> got > int rest then Failed (Assertion ''nr_block_get <= rest'')
           else if got = 0 then Failed (Assertion ''nr_block_get > 0'')
           else run_bind (add_memcpy_meta_to_array \<lparr>mm_is_single_blk = False, mm_to_dev = g_root_dev, mm_blk_nr = pblk, mm_data = data,
                    mm_size = cast32 (nat got * g_block_size_bytes), mm_offset_in_blk = 0\<rparr> (k\<lparr>kf_ext := e'\<rparr>))
                  (digest_blocks ops inum (add64 cur_offset (nat got * g_block_size_bytes)) (add64 data (nat got * g_block_size_bytes))
                     (rest - nat got)))"
  by pat_completeness auto

termination
  by (relation "measure (\<lambda>(ops, inum, cur_offset, data, rest, k). rest)") (auto simp: nat_less_iff)

declare digest_blocks.simps [simp del]

text \<open>The inode of a file, read from disk if it is not cached.\<close>

definition file_inode :: "nat \<Rightarrow> 'e kernfs \<Rightarrow> inode run" where
  "file_inode inum k = (case icache_find inum (kf_icache k) of
     Some ip \<Rightarrow> Done ip
   | None \<Rightarrow> let dip = kf_ondisk k inum
             in mlfs_assert (di_itype dip \<noteq> 0) ''itype != 0'' (Done (sync_inode_from_dinode (fst (icache_alloc_add inum (kf_icache k))) dip)))"

text \<open>
  The size is compared and stored a second time at the end of the function, where it is no longer smaller.
\<close>

definition digest_file :: "'e ext_ops \<Rightarrow> nat \<Rightarrow> nat \<Rightarrow> nat \<Rightarrow> nat \<Rightarrow> 'e kernfs \<Rightarrow> 'e kernfs run" where
  "digest_file ops inum offset len blknr k =
     (let nr_blocks = get_blk_cnt_from_length len;
          data = add64 (kf_map_base k) (blknr * g_block_size_bytes);
          off_in_blk = offset mod g_block_size_bytes in
      run_bind (file_inode inum k) (\<lambda>ip.
        let k1 = (if isize ip < add64 offset len
                  then mlfs_mark_inode_dirty inum (put_kinode inum (set_size (add64 offset len) ip) k) else put_kinode inum ip k)
        in if len < g_block_size_bytes \<or> off_in_blk \<noteq> 0
           then let l = min len (g_block_size_bytes - off_in_blk);
                    (ret, pblk, e') = get_blocks ops inum (cast32 (offset div g_block_size_bytes)) 1 (kf_ext k1)
                in run_bind (add_memcpy_meta_to_array \<lparr>mm_is_single_blk = True, mm_to_dev = g_root_dev, mm_blk_nr = pblk,
                       mm_data = add64 data off_in_blk, mm_size = l, mm_offset_in_blk = off_in_blk\<rparr> (k1\<lparr>kf_ext := e'\<rparr>))
                     (digest_blocks ops inum (add64 offset l) (add64 data l) (nr_blocks - 1))
           else digest_blocks ops inum offset data nr_blocks k1))"

definition digest_unlink :: "'e ext_ops \<Rightarrow> nat \<Rightarrow> 'e kernfs \<Rightarrow> 'e kernfs run" where
  "digest_unlink ops inum k =
     (let ip = (case icache_find inum (kf_icache k) of Some ip \<Rightarrow> ip
                | None \<Rightarrow> sync_inode_from_dinode (fst (icache_alloc_add inum (kf_icache k))) (kf_ondisk k inum));
          last_blk = cast32 (isize ip div g_block_size_bytes);
          (ret, e') = (if isize ip > 0 then ext_truncate ops inum 0 (if last_blk = 0 then last_blk else last_blk - 1) (kf_ext k)
                       else (0, kf_ext k))
      in mlfs_assert (ret = 0) ''!ret''
           (Done (mlfs_mark_inode_dirty inum (put_kinode inum (ip\<lparr>i_dinode := zero_dinode, i_flags := I_DELETING\<rparr>) (k\<lparr>kf_ext := e'\<rparr>)))))"

section \<open>The replay list\<close>

text \<open>An item has the inode number and the version of the inode number, which counts its creations.\<close>

type_synonym replay_key = "nat \<times> nat"

record f_iovec =
  fi_offset :: nat
  fi_length :: nat
  fi_blknr :: nat

datatype replay_item =
    NTYPE_I (item_key: replay_key) (i_blknr: nat) (i_create: bool)
  | NTYPE_F (item_key: replay_key) (f_iovecs: "f_iovec list")
  | NTYPE_U (item_key: replay_key)

type_synonym replay = "(nat \<Rightarrow> nat) \<times> replay_item list"

definition is_i :: "replay_key \<Rightarrow> replay_item \<Rightarrow> bool" where
  "is_i key it \<longleftrightarrow> (case it of NTYPE_I k _ _ \<Rightarrow> k = key | _ \<Rightarrow> False)"

definition is_f :: "replay_key \<Rightarrow> replay_item \<Rightarrow> bool" where
  "is_f key it \<longleftrightarrow> (case it of NTYPE_F k _ \<Rightarrow> k = key | _ \<Rightarrow> False)"

definition is_created :: "replay_key \<Rightarrow> replay_item \<Rightarrow> bool" where
  "is_created key it \<longleftrightarrow> (case it of NTYPE_I k _ c \<Rightarrow> k = key \<and> c | _ \<Rightarrow> False)"

definition set_blknr :: "nat \<Rightarrow> replay_item \<Rightarrow> replay_item" where
  "set_blknr b it = (case it of NTYPE_I k _ c \<Rightarrow> NTYPE_I k b c | _ \<Rightarrow> it)"

definition add_iovec :: "f_iovec \<Rightarrow> replay_item \<Rightarrow> replay_item" where
  "add_iovec iv it = (case it of NTYPE_F k ivs \<Rightarrow> NTYPE_F k (ivs @ [iv]) | _ \<Rightarrow> it)"

text \<open>A lookup in a hash table finds one item.\<close>

fun update_first :: "('a \<Rightarrow> bool) \<Rightarrow> ('a \<Rightarrow> 'a) \<Rightarrow> 'a list \<Rightarrow> 'a list" where
  "update_first p f [] = []"
| "update_first p f (x # xs) = (if p x then f x # xs else x # update_first p f xs)"

fun remove_first :: "('a \<Rightarrow> bool) \<Rightarrow> 'a list \<Rightarrow> 'a list" where
  "remove_first p [] = []"
| "remove_first p (x # xs) = (if p x then xs else x # remove_first p xs)"

definition replay_inode :: "bool \<Rightarrow> nat \<Rightarrow> nat \<Rightarrow> replay \<Rightarrow> replay" where
  "replay_inode create inum blknr = (\<lambda>(vt, l).
     let vt' = (if create then vt(inum := add16 (vt inum) 1) else vt);
         key = (inum, vt' inum);
         l1 = (if list_ex (is_i key) l then l else l @ [NTYPE_I key 0 create])
     in (vt', update_first (is_i key) (set_blknr blknr) l1))"

definition replay_file :: "nat \<Rightarrow> f_iovec \<Rightarrow> replay \<Rightarrow> replay" where
  "replay_file inum iv = (\<lambda>(vt, l).
     let key = (inum, vt inum);
         l1 = (if list_ex (is_f key) l then l else l @ [NTYPE_F key []])
     in (vt, update_first (is_f key) (add_iovec iv) l1))"

definition replay_unlink :: "nat \<Rightarrow> replay \<Rightarrow> replay" where
  "replay_unlink inum = (\<lambda>(vt, l).
     let key = (inum, vt inum);
         l1 = (if list_ex (is_created key) l then remove_first (is_i key) l else l @ [NTYPE_U key])
     in (vt, remove_first (is_f key) l1))"

text \<open>One entry of a log header at block \<open>hdr_blkno\<close>; the version table has \<open>NINODES\<close> elements.\<close>

definition replay_entry :: "nat \<Rightarrow> logheader \<Rightarrow> nat \<Rightarrow> replay \<Rightarrow> replay run" where
  "replay_entry hdr_blkno h i st =
     (let inum = lh_inode_no h ! i; blknr = add64 (lh_blocks h ! i) hdr_blkno;
          iv = \<lparr>fi_offset = lh_data h ! i, fi_length = lh_length h ! i, fi_blknr = blknr\<rparr> in
      if g_max_blocks_per_operation \<le> i then Failed (OutOfBounds ''loghdr'')
      else if lh_type h ! i = L_TYPE_ALLOC \<or> lh_type h ! i = L_TYPE_INVALID then Failed (Panic ''unsupported type of operation'')
      else if NINODES \<le> inum then Failed (OutOfBounds ''inode_version_table'')
      else Done (case lh_type h ! i of
             L_TYPE_INODE_CREATE \<Rightarrow> replay_inode True inum blknr st
           | L_TYPE_INODE_UPDATE \<Rightarrow> replay_inode False inum blknr st
           | L_TYPE_UNLINK \<Rightarrow> replay_unlink inum st
           | _ \<Rightarrow> replay_file inum iv st))"

primrec run_fold :: "('a \<Rightarrow> 's \<Rightarrow> 's run) \<Rightarrow> 'a list \<Rightarrow> 's \<Rightarrow> 's run" where
  "run_fold f [] s = Done s"
| "run_fold f (x # xs) s = run_bind (f x s) (run_fold f xs)"

definition digest_replay_and_optimize :: "nat \<Rightarrow> logheader \<Rightarrow> replay \<Rightarrow> replay run" where
  "digest_replay_and_optimize hdr_blkno h = run_fold (replay_entry hdr_blkno h) [0..<lh_n h]"

definition digest_item :: "'e ext_ops \<Rightarrow> (nat \<Rightarrow> dinode) \<Rightarrow> replay_item \<Rightarrow> 'e kernfs \<Rightarrow> 'e kernfs run" where
  "digest_item ops log it = (case it of
     NTYPE_I (inum, ver) blknr create \<Rightarrow> digest_inode ops log inum blknr
   | NTYPE_F (inum, ver) ivs \<Rightarrow> run_fold (\<lambda>iv. digest_file ops inum (fi_offset iv) (fi_length iv) (fi_blknr iv)) ivs
   | NTYPE_U (inum, ver) \<Rightarrow> digest_unlink ops inum)"

definition digest_log_from_replay_list :: "'e ext_ops \<Rightarrow> (nat \<Rightarrow> dinode) \<Rightarrow> replay_item list \<Rightarrow> 'e kernfs \<Rightarrow> 'e kernfs run" where
  "digest_log_from_replay_list ops log = run_fold (digest_item ops log)"

text \<open>The log headers of a group, the first of them at block \<open>blknr\<close> of the log.\<close>

primrec digest_headers :: "logheader list \<Rightarrow> nat \<Rightarrow> replay \<Rightarrow> replay run" where
  "digest_headers [] blknr st = Done st"
| "digest_headers (h # hs) blknr st =
     (if lh_inuse h \<noteq> LH_COMMIT_MAGIC
      then mlfs_assert (lh_inuse h = 0) ''inuse == 0'' (Failed (Panic ''inuse != LH_COMMIT_MAGIC''))
      else run_bind (digest_replay_and_optimize blknr h st) (digest_headers hs (add64 blknr (lh_nr_log_blocks h))))"

definition digest_logs :: "'e ext_ops \<Rightarrow> (nat \<Rightarrow> dinode) \<Rightarrow> nat \<Rightarrow> nat \<Rightarrow> logheader list \<Rightarrow> 'e kernfs \<Rightarrow> (nat \<times> 'e kernfs) run" where
  "digest_logs ops log n_hdrs start_blknr loghdr_buf k =
     (if length loghdr_buf < n_hdrs then Failed (OutOfBounds ''loghdr_buf'')
      else run_bind (digest_headers (take n_hdrs loghdr_buf) start_blknr (kf_versions k, []))
             (\<lambda>(vt, l). run_map (Pair n_hdrs) (digest_log_from_replay_list ops log l (k\<lparr>kf_versions := vt\<rparr>))))"

section \<open>What the entries of a group ask for\<close>

text \<open>
  The specification: each entry changes the size and the type of one inode, in the order of the log.
  Type 0 is a free inode.
\<close>

datatype dig_op = E_inode bool nat nat | E_file nat f_iovec | E_unlink nat

definition op_inum :: "dig_op \<Rightarrow> nat" where
  "op_inum e = (case e of E_inode _ n _ \<Rightarrow> n | E_file n _ \<Rightarrow> n | E_unlink n \<Rightarrow> n)"

definition entry_op :: "nat \<Rightarrow> logheader \<Rightarrow> nat \<Rightarrow> dig_op" where
  "entry_op hdr_blkno h i =
     (let inum = lh_inode_no h ! i; blknr = add64 (lh_blocks h ! i) hdr_blkno in
      case lh_type h ! i of
        L_TYPE_INODE_CREATE \<Rightarrow> E_inode True inum blknr
      | L_TYPE_INODE_UPDATE \<Rightarrow> E_inode False inum blknr
      | L_TYPE_UNLINK \<Rightarrow> E_unlink inum
      | _ \<Rightarrow> E_file inum \<lparr>fi_offset = lh_data h ! i, fi_length = lh_length h ! i, fi_blknr = blknr\<rparr>)"

primrec group_ops :: "logheader list \<Rightarrow> nat \<Rightarrow> dig_op list" where
  "group_ops [] blknr = []"
| "group_ops (h # hs) blknr = map (entry_op blknr h) [0..<lh_n h] @ group_ops hs (add64 blknr (lh_nr_log_blocks h))"

type_synonym iview = "nat \<times> nat"

definition iov_end :: "f_iovec \<Rightarrow> nat" where
  "iov_end iv = add64 (fi_offset iv) (fi_length iv)"

definition view_inode :: "dinode \<Rightarrow> iview \<Rightarrow> iview" where
  "view_inode d x = (di_size d, if snd x = 0 then di_itype d else snd x)"

definition view_file :: "f_iovec \<Rightarrow> iview \<Rightarrow> iview" where
  "view_file iv x = (max (fst x) (iov_end iv), snd x)"

definition view_op :: "(nat \<Rightarrow> dinode) \<Rightarrow> dig_op \<Rightarrow> iview \<Rightarrow> iview" where
  "view_op log e x = (case e of E_inode _ _ b \<Rightarrow> view_inode (log b) x | E_file _ iv \<Rightarrow> view_file iv x | E_unlink _ \<Rightarrow> (0, 0))"

definition view_item :: "(nat \<Rightarrow> dinode) \<Rightarrow> replay_item \<Rightarrow> iview \<Rightarrow> iview" where
  "view_item log it x = (case it of NTYPE_I _ b _ \<Rightarrow> view_inode (log b) x | NTYPE_F _ ivs \<Rightarrow> fold view_file ivs x | NTYPE_U _ \<Rightarrow> (0, 0))"

text \<open>
  The operations of one inode are consistent with its type: it is created when it is free, and
  otherwise changed only when it is not.
\<close>

fun wf_ops :: "(nat \<Rightarrow> dinode) \<Rightarrow> nat \<Rightarrow> dig_op list \<Rightarrow> bool" where
  "wf_ops log ty [] \<longleftrightarrow> True"
| "wf_ops log ty (E_inode cr n b # es) \<longleftrightarrow>
     (if cr then ty = 0 \<and> di_itype (log b) \<noteq> 0 else ty \<noteq> 0 \<and> di_itype (log b) = ty) \<and> wf_ops log (di_itype (log b)) es"
| "wf_ops log ty (E_file n iv # es) \<longleftrightarrow> ty \<noteq> 0 \<and> wf_ops log ty es"
| "wf_ops log ty (E_unlink n # es) \<longleftrightarrow> ty \<noteq> 0 \<and> wf_ops log 0 es"

text \<open>
  The size in the last record of the inode before it is unlinked, and the condition under which
  coalescing is correct: no data of an inode ends behind that size.
\<close>

fun last_size :: "(nat \<Rightarrow> dinode) \<Rightarrow> nat option \<Rightarrow> dig_op list \<Rightarrow> nat option" where
  "last_size log c [] = c"
| "last_size log c (E_inode cr n b # es) = last_size log (Some (di_size (log b))) es"
| "last_size log c (E_file n iv # es) = last_size log c es"
| "last_size log c (E_unlink n # es) = None"

definition below :: "f_iovec \<Rightarrow> nat option \<Rightarrow> bool" where
  "below iv c \<longleftrightarrow> (case c of None \<Rightarrow> True | Some s \<Rightarrow> iov_end iv \<le> s)"

fun covered :: "(nat \<Rightarrow> dinode) \<Rightarrow> nat option \<Rightarrow> dig_op list \<Rightarrow> bool" where
  "covered log c [] \<longleftrightarrow> True"
| "covered log c (E_inode cr n b # es) \<longleftrightarrow> covered log (Some (di_size (log b))) es"
| "covered log c (E_file n iv # es) \<longleftrightarrow> below iv (last_size log c es) \<and> covered log c es"
| "covered log c (E_unlink n # es) \<longleftrightarrow> covered log None es"

fun creates :: "dig_op list \<Rightarrow> nat" where
  "creates [] = 0"
| "creates (E_inode cr n b # es) = (if cr then 1 else 0) + creates es"
| "creates (E_file n iv # es) = creates es"
| "creates (E_unlink n # es) = creates es"

text \<open>The data that is still there at the end: that written since the last unlink.\<close>

definition kept_op :: "dig_op \<Rightarrow> f_iovec list \<Rightarrow> f_iovec list" where
  "kept_op e ivs = (case e of E_inode _ _ _ \<Rightarrow> ivs | E_file _ iv \<Rightarrow> ivs @ [iv] | E_unlink _ \<Rightarrow> [])"

definition item_iovs :: "replay_item \<Rightarrow> f_iovec list" where
  "item_iovs it = (case it of NTYPE_F _ ivs \<Rightarrow> ivs | _ \<Rightarrow> [])"

section \<open>Coalescing\<close>

definition replay_op :: "dig_op \<Rightarrow> replay \<Rightarrow> replay" where
  "replay_op e = (case e of E_inode cr n b \<Rightarrow> replay_inode cr n b | E_file n iv \<Rightarrow> replay_file n iv | E_unlink n \<Rightarrow> replay_unlink n)"

lemmas replay_defs = replay_op_def replay_inode_def replay_file_def replay_unlink_def
lemmas item_defs = is_i_def is_f_def is_created_def set_blknr_def add_iovec_def

lemma list_ex_filter_imp: "(\<And>x. p x \<Longrightarrow> q x) \<Longrightarrow> list_ex p (filter q xs) = list_ex p xs"
  by (induction xs) auto

lemma update_first_filter:
  "(\<And>x. p x \<Longrightarrow> q x) \<Longrightarrow> (\<And>x. p x \<Longrightarrow> q (f x)) \<Longrightarrow> update_first p f (filter q xs) = filter q (update_first p f xs)"
  by (induction xs) auto

lemma update_first_filter_out:
  "(\<And>x. p x \<Longrightarrow> \<not> q x) \<Longrightarrow> (\<And>x. p x \<Longrightarrow> \<not> q (f x)) \<Longrightarrow> filter q (update_first p f xs) = filter q xs"
  by (induction xs) auto

lemma remove_first_filter: "(\<And>x. p x \<Longrightarrow> q x) \<Longrightarrow> remove_first p (filter q xs) = filter q (remove_first p xs)"
  by (induction xs) auto

lemma remove_first_filter_out: "(\<And>x. p x \<Longrightarrow> \<not> q x) \<Longrightarrow> filter q (remove_first p xs) = filter q xs"
  by (induction xs) auto

lemma update_first_append: "\<not> list_ex p xs \<Longrightarrow> update_first p f (xs @ ys) = xs @ update_first p f ys"
  by (induction xs) auto

lemma remove_first_append: "\<not> list_ex p xs \<Longrightarrow> remove_first p (xs @ ys) = xs @ remove_first p ys"
  by (induction xs) auto

text \<open>The items of one inode depend only on the entries of that inode.\<close>

definition of_inum :: "nat \<Rightarrow> replay_item list \<Rightarrow> replay_item list" where
  "of_inum n = filter (\<lambda>it. fst (item_key it) = n)"

lemma is_key: "is_i key it \<Longrightarrow> item_key it = key" "is_f key it \<Longrightarrow> item_key it = key" "is_created key it \<Longrightarrow> item_key it = key"
  by (auto simp: item_defs split: replay_item.splits)

lemma set_key [simp]: "item_key (set_blknr b it) = item_key it" "item_key (add_iovec iv it) = item_key it"
  by (auto simp: item_defs split: replay_item.splits)

lemma of_inum_simps [simp]:
  "of_inum n [] = []"
  "of_inum n (l @ l') = of_inum n l @ of_inum n l'"
  "of_inum n [it] = (if fst (item_key it) = n then [it] else [])"
  by (simp_all add: of_inum_def)

lemma of_inum_update [simp]:
  "of_inum n (update_first (is_i key) (set_blknr b) l) = (if fst key = n then update_first (is_i key) (set_blknr b) (of_inum n l) else of_inum n l)"
  "of_inum n (update_first (is_f key) (add_iovec iv) l) = (if fst key = n then update_first (is_f key) (add_iovec iv) (of_inum n l) else of_inum n l)"
  unfolding of_inum_def by (auto intro!: update_first_filter [symmetric] update_first_filter_out dest: is_key)

lemma of_inum_remove [simp]:
  "of_inum n (remove_first (is_i key) l) = (if fst key = n then remove_first (is_i key) (of_inum n l) else of_inum n l)"
  "of_inum n (remove_first (is_f key) l) = (if fst key = n then remove_first (is_f key) (of_inum n l) else of_inum n l)"
  unfolding of_inum_def by (auto intro!: remove_first_filter [symmetric] remove_first_filter_out dest: is_key)

lemma list_ex_of_inum [simp]:
  "list_ex (is_i (n, v)) (of_inum n l) = list_ex (is_i (n, v)) l"
  "list_ex (is_f (n, v)) (of_inum n l) = list_ex (is_f (n, v)) l"
  "list_ex (is_created (n, v)) (of_inum n l) = list_ex (is_created (n, v)) l"
  unfolding of_inum_def by (auto intro!: list_ex_filter_imp dest: is_key)

lemma replay_op_other:
  "op_inum e \<noteq> n \<Longrightarrow> of_inum n (snd (replay_op e (vt, l))) = of_inum n l \<and> fst (replay_op e (vt, l)) n = vt n"
  by (cases e) (simp_all add: replay_defs op_inum_def Let_def)

lemma replay_op_same:
  "op_inum e = n \<Longrightarrow> of_inum n (snd (replay_op e (vt, l))) = snd (replay_op e (vt, of_inum n l)) \<and>
     fst (replay_op e (vt, l)) = fst (replay_op e (vt, of_inum n l))"
  by (cases e) (simp_all add: replay_defs op_inum_def Let_def)

text \<open>The version table enters only through the version of the inode.\<close>

lemma replay_op_vt:
  "op_inum e = n \<Longrightarrow> vt n = vt' n \<Longrightarrow> snd (replay_op e (vt, l)) = snd (replay_op e (vt', l)) \<and>
     fst (replay_op e (vt, l)) n = fst (replay_op e (vt', l)) n"
  by (cases e) (simp_all add: replay_defs op_inum_def Let_def)

lemma replay_fold_of_inum:
  "vt n = vt' n \<Longrightarrow>
   of_inum n (snd (fold replay_op es (vt, l))) = snd (fold replay_op (filter (\<lambda>e. op_inum e = n) es) (vt', of_inum n l))"
proof (induction es arbitrary: vt vt' l)
  case Nil
  then show ?case by simp
next
  case (Cons e es)
  show ?case
  proof (cases "op_inum e = n")
    case True
    obtain vt1 l1 where 1: "replay_op e (vt, l) = (vt1, l1)" by fastforce
    obtain vt2 l2 where 2: "replay_op e (vt', of_inum n l) = (vt2, l2)" by fastforce
    have "of_inum n l1 = l2" "vt1 n = vt2 n"
      using replay_op_same [OF True, of vt l] replay_op_vt [of e n vt vt' "of_inum n l", OF True Cons.prems] 1 2 by simp_all
    with Cons.IH [of vt1 vt2 l1] True 1 2 show ?thesis by simp
  next
    case False
    obtain vt1 l1 where 1: "replay_op e (vt, l) = (vt1, l1)" by fastforce
    with replay_op_other [OF False, of vt l] Cons.prems have "of_inum n l1 = of_inum n l" "vt1 n = vt' n" by simp_all
    with Cons.IH [of vt1 vt' l1] False 1 show ?thesis by simp
  qed
qed

text \<open>
  The items of the current version of an inode: its record \<open>mi\<close>, if there is one, and its data, if
  there is any, in the order in which they came first.
\<close>

definition shape :: "replay_key \<Rightarrow> (nat \<times> bool) option \<Rightarrow> f_iovec list \<Rightarrow> bool \<Rightarrow> replay_item list" where
  "shape key mi ivs ifirst =
     (let is = (case mi of None \<Rightarrow> [] | Some (b, c) \<Rightarrow> [NTYPE_I key b c]);
          fs = (if ivs = [] then [] else [NTYPE_F key ivs])
      in if ifirst then is @ fs else fs @ is)"

definition fresh :: "replay_key \<Rightarrow> replay_item list \<Rightarrow> bool" where
  "fresh key l \<longleftrightarrow> (\<forall>it \<in> set l. item_key it \<noteq> key)"

lemma fresh_no_item [simp]:
  "fresh key l \<Longrightarrow> \<not> list_ex (is_i key) l" "fresh key l \<Longrightarrow> \<not> list_ex (is_f key) l" "fresh key l \<Longrightarrow> \<not> list_ex (is_created key) l"
  by (auto simp: fresh_def list_ex_iff dest: is_key)

lemma is_simps [simp]:
  "is_i key (NTYPE_I k b c) \<longleftrightarrow> k = key" "\<not> is_i key (NTYPE_F k ivs)" "\<not> is_i key (NTYPE_U k)"
  "is_f key (NTYPE_F k ivs) \<longleftrightarrow> k = key" "\<not> is_f key (NTYPE_I k b c)" "\<not> is_f key (NTYPE_U k)"
  "is_created key (NTYPE_I k b c) \<longleftrightarrow> k = key \<and> c" "\<not> is_created key (NTYPE_F k ivs)" "\<not> is_created key (NTYPE_U k)"
  "set_blknr b (NTYPE_I k b' c) = NTYPE_I k b c" "add_iovec iv (NTYPE_F k ivs) = NTYPE_F k (ivs @ [iv])"
  by (simp_all add: item_defs)

lemma replay_file_shape:
  "fresh (n, vt n) P \<Longrightarrow> replay_op (E_file n iv) (vt, P @ shape (n, vt n) mi ivs f) =
     (vt, P @ shape (n, vt n) mi (ivs @ [iv]) (if ivs = [] then True else f))"
  by (auto simp: replay_defs shape_def Let_def update_first_append split: option.splits)

lemma replay_update_shape:
  "fresh (n, vt n) P \<Longrightarrow> replay_op (E_inode False n b) (vt, P @ shape (n, vt n) mi ivs f) =
     (vt, P @ shape (n, vt n) (Some (b, case mi of None \<Rightarrow> False | Some (_, c) \<Rightarrow> c)) ivs
       (case mi of None \<Rightarrow> ivs = [] | Some _ \<Rightarrow> f))"
  by (auto simp: replay_defs shape_def Let_def update_first_append split: option.splits)

lemma replay_create_shape:
  "fresh (n, add16 (vt n) 1) P \<Longrightarrow> replay_op (E_inode True n b) (vt, P) =
     (vt(n := add16 (vt n) 1), P @ shape (n, add16 (vt n) 1) (Some (b, True)) [] True)"
  by (auto simp: replay_defs shape_def Let_def update_first_append)

lemma replay_unlink_shape:
  "fresh (n, vt n) P \<Longrightarrow> replay_op (E_unlink n) (vt, P @ shape (n, vt n) mi ivs f) =
     (vt, if (\<exists>b. mi = Some (b, True)) then P else P @ shape (n, vt n) mi [] True @ [NTYPE_U (n, vt n)])"
  by (auto simp: replay_defs shape_def Let_def remove_first_append split: option.splits)

lemma item_iovs_simps [simp]: "item_iovs (NTYPE_I k b c) = []" "item_iovs (NTYPE_F k ivs) = ivs" "item_iovs (NTYPE_U k) = []"
  by (simp_all add: item_iovs_def)

lemma view_item_simps [simp]:
  "view_item log (NTYPE_I k b c) = view_inode (log b)" "view_item log (NTYPE_F k ivs) = fold view_file ivs"
  "view_item log (NTYPE_U k) x = (0, 0)"
  by (simp_all add: view_item_def fun_eq_iff)

primrec items_ok :: "(nat \<Rightarrow> dinode) \<Rightarrow> replay_item list \<Rightarrow> iview \<Rightarrow> bool" where
  "items_ok log [] x \<longleftrightarrow> True"
| "items_ok log (it # l) x \<longleftrightarrow> (item_iovs it \<noteq> [] \<longrightarrow> snd x \<noteq> 0) \<and> items_ok log l (view_item log it x)"

lemma items_ok_append: "items_ok log (l @ l') x \<longleftrightarrow> items_ok log l x \<and> items_ok log l' (fold (view_item log) l x)"
  by (induction l arbitrary: x) auto

lemma items_ok_no_data: "concat (map item_iovs l) = [] \<Longrightarrow> items_ok log l x"
  by (induction l arbitrary: x) auto

definition sound :: "(nat \<Rightarrow> dinode) \<Rightarrow> iview \<Rightarrow> dig_op list \<Rightarrow> replay \<Rightarrow> iview \<Rightarrow> f_iovec list \<Rightarrow> bool" where
  "sound log a0 es st x ivs \<longleftrightarrow>
     (let l = snd (fold replay_op es st) in
      fold (view_item log) l a0 = fold (view_op log) es x \<and> items_ok log l a0 \<and> concat (map item_iovs l) = fold kept_op es ivs)"

lemma sound_Cons: "sound log a0 (e # es) st x ivs = sound log a0 es (replay_op e st) (view_op log e x) (kept_op e ivs)"
  by (simp add: sound_def)

definition old_items :: "nat \<Rightarrow> nat \<Rightarrow> nat \<Rightarrow> replay_item list \<Rightarrow> bool" where
  "old_items n v0 c P \<longleftrightarrow> (\<forall>it \<in> set P. \<exists>i < c. item_key it = (n, (v0 + i) mod 2 ^ 16)) \<and> concat (map item_iovs P) = []"

definition dead_inv :: "(nat \<Rightarrow> dinode) \<Rightarrow> iview \<Rightarrow> nat \<Rightarrow> nat \<Rightarrow> nat \<Rightarrow> replay_item list \<Rightarrow> bool" where
  "dead_inv log a0 n v0 c P \<longleftrightarrow> old_items n v0 (Suc c) P \<and> fold (view_item log) P a0 = (0, 0)"

definition live_inv :: "(nat \<Rightarrow> dinode) \<Rightarrow> iview \<Rightarrow> nat \<Rightarrow> nat \<Rightarrow> nat \<Rightarrow> replay_item list \<Rightarrow>
    (nat \<times> bool) option \<Rightarrow> f_iovec list \<Rightarrow> bool \<Rightarrow> iview \<Rightarrow> bool" where
  "live_inv log a0 n v0 c P mi ivs f x \<longleftrightarrow> old_items n v0 c P \<and> snd x \<noteq> 0 \<and>
     (let b = fold (view_item log) P a0 in
      case mi of None \<Rightarrow> x = fold view_file ivs b
      | Some (blk, cr) \<Rightarrow> di_itype (log blk) = snd x \<and> (if cr then b = (0, 0) \<and> f else snd b = snd x) \<and>
          di_size (log blk) \<le> fst x \<and> (fst x = di_size (log blk) \<or> fst x \<in> iov_end ` set ivs))"

lemma mod_versions_distinct:
  assumes "i < c" and "c < 2 ^ 16"
  shows "(v0 + i) mod 2 ^ 16 \<noteq> (v0 + c) mod (2 ^ 16 :: nat)"
proof
  assume "(v0 + i) mod 2 ^ 16 = (v0 + c) mod (2 ^ 16 :: nat)"
  then have "(2 ^ 16 :: nat) dvd (v0 + c) - (v0 + i)" using assms(1) by (metis mod_eq_dvd_iff_nat nat_add_left_cancel_le less_imp_le)
  moreover have "(v0 + c) - (v0 + i) = c - i" by simp
  ultimately show False using assms by (metis dvd_imp_le less_imp_diff_less not_less zero_less_diff)
qed

lemma old_items_fresh: "old_items n v0 c P \<Longrightarrow> c < 2 ^ 16 \<Longrightarrow> fresh (n, (v0 + c) mod 2 ^ 16) P"
  unfolding old_items_def fresh_def using mod_versions_distinct by fastforce

lemma snd_fold_view_file [simp]: "snd (fold view_file ivs x) = snd x"
  by (induction ivs arbitrary: x) (simp_all add: view_file_def)

lemma fst_fold_view_file_le: "\<forall>iv \<in> set ivs. iov_end iv \<le> s \<Longrightarrow> fst x \<le> s \<Longrightarrow> fst (fold view_file ivs x) \<le> s"
  by (induction ivs arbitrary: x) (simp_all add: view_file_def)

lemma fst_fold_view_file_ge: "fst x \<le> fst (fold view_file ivs x)"
proof (induction ivs arbitrary: x)
  case (Cons iv ivs)
  from Cons [of "view_file iv x"] show ?case by (simp add: view_file_def)
qed simp

lemma live_inv_file:
  "live_inv log a0 n v0 c P mi ivs f x \<Longrightarrow>
     live_inv log a0 n v0 c P mi (ivs @ [iv]) (if ivs = [] then True else f) (view_file iv x)"
  by (auto simp: live_inv_def Let_def view_file_def max_def prod_eq_iff split: option.splits if_splits)

lemma live_inv_update:
  "live_inv log a0 n v0 c P mi ivs f x \<Longrightarrow> di_itype (log b) = snd x \<Longrightarrow>
     live_inv log a0 n v0 c P (Some (b, case mi of None \<Rightarrow> False | Some (_, c) \<Rightarrow> c)) ivs
       (case mi of None \<Rightarrow> ivs = [] | Some _ \<Rightarrow> f) (view_inode (log b) x)"
  by (auto simp: live_inv_def Let_def view_inode_def split: option.splits if_splits)

lemma live_inv_create:
  "dead_inv log a0 n v0 c P \<Longrightarrow> di_itype (log b) \<noteq> 0 \<Longrightarrow>
     live_inv log a0 n v0 (Suc c) P (Some (b, True)) [] True (view_inode (log b) (0, 0))"
  by (simp add: live_inv_def dead_inv_def view_inode_def)

lemma dead_inv_unlink:
  assumes "live_inv log a0 n v0 c P mi ivs f x"
  shows "dead_inv log a0 n v0 c
     (if (\<exists>b. mi = Some (b, True)) then P else P @ shape (n, (v0 + c) mod 2 ^ 16) mi [] True @ [NTYPE_U (n, (v0 + c) mod 2 ^ 16)])"
proof -
  have old: "old_items n v0 c P" using assms by (simp add: live_inv_def)
  then have P: "old_items n v0 (Suc c) P" unfolding old_items_def using less_SucI by blast
  have Q: "old_items n v0 (Suc c) (shape (n, (v0 + c) mod 2 ^ 16) mi [] True @ [NTYPE_U (n, (v0 + c) mod 2 ^ 16)])"
    by (auto simp: old_items_def shape_def item_iovs_def split: option.splits)
  have PQ: "old_items n v0 (Suc c) (P @ shape (n, (v0 + c) mod 2 ^ 16) mi [] True @ [NTYPE_U (n, (v0 + c) mod 2 ^ 16)])"
    using P Q unfolding old_items_def by auto
  show ?thesis
  proof (cases "\<exists>b. mi = Some (b, True)")
    case True
    with assms P show ?thesis by (auto simp: dead_inv_def live_inv_def Let_def)
  next
    case False
    with PQ show ?thesis by (simp add: dead_inv_def view_item_def)
  qed
qed

lemma live_inv_sound:
  assumes inv: "live_inv log a0 n v0 c P mi ivs f x"
    and cov: "\<forall>iv \<in> set ivs. below iv (map_option (\<lambda>(b, _). di_size (log b)) mi)"
  shows "sound log a0 [] (vt, P @ shape key mi ivs f) x ivs"
proof -
  let ?b = "fold (view_item log) P a0"
  have P: "concat (map item_iovs P) = []" and x: "snd x \<noteq> 0" using inv by (simp_all add: live_inv_def old_items_def)
  show ?thesis
  proof (cases mi)
    case None
    then have "x = fold view_file ivs ?b" using inv by (simp add: live_inv_def)
    then show ?thesis using x None
      by (simp add: sound_def Let_def items_ok_append items_ok_no_data [OF P] P shape_def)
  next
    case (Some m)
    then obtain blk cr where m: "mi = Some (blk, cr)" by fastforce
    have *: "di_itype (log blk) = snd x" "if cr then ?b = (0, 0) \<and> f else snd ?b = snd x" "di_size (log blk) \<le> fst x"
      "fst x = di_size (log blk) \<or> fst x \<in> iov_end ` set ivs"
      using inv m by (simp_all add: live_inv_def Let_def)
    have ends: "\<forall>iv \<in> set ivs. iov_end iv \<le> di_size (log blk)" using cov m by (simp add: below_def)
    with * have fx: "fst x = di_size (log blk)" by fastforce
    have ty: "snd (view_inode (log blk) ?b) = snd x" using * x by (auto simp: view_inode_def split: if_splits)
    have "fst (fold view_file ivs (view_inode (log blk) ?b)) = di_size (log blk)"
      using fst_fold_view_file_le [OF ends, of "view_inode (log blk) ?b"] fst_fold_view_file_ge [of "view_inode (log blk) ?b" ivs]
      by (simp add: view_inode_def)
    then have 1: "fold view_file ivs (view_inode (log blk) ?b) = x" using fx ty by (simp add: prod_eq_iff)
    have 2: "view_inode (log blk) (fold view_file ivs ?b) = x" if "\<not> f"
      using that * x fx by (auto simp: view_inode_def prod_eq_iff split: if_splits)
    have 3: "view_inode (log blk) ?b = x" using fx ty by (simp add: prod_eq_iff view_inode_def)
    have 4: "snd ?b \<noteq> 0" if "\<not> f" using that * x by (auto split: if_splits)
    show ?thesis using x m 1 2 3 4 ty
      by (cases f) (simp_all add: sound_def Let_def items_ok_append items_ok_no_data [OF P] P shape_def)
  qed
qed

text \<open>
  Coalescing the operations of one inode: while it is free, and while it exists.
\<close>

lemma coalesce_sim:
  assumes "vt n = (v0 + c) mod 2 ^ 16" and "c + creates es < 2 ^ 16" and "\<forall>e \<in> set es. op_inum e = n"
  shows dead_sim: "dead_inv log a0 n v0 c P \<Longrightarrow> wf_ops log 0 es \<Longrightarrow> covered log None es \<Longrightarrow> sound log a0 es (vt, P) (0, 0) []"
    and live_sim: "live_inv log a0 n v0 c P mi ivs f x \<Longrightarrow> wf_ops log (snd x) es \<Longrightarrow>
      covered log (map_option (\<lambda>(b, _). di_size (log b)) mi) es \<Longrightarrow>
      \<forall>iv \<in> set ivs. below iv (last_size log (map_option (\<lambda>(b, _). di_size (log b)) mi) es) \<Longrightarrow>
      sound log a0 es (vt, P @ shape (n, vt n) mi ivs f) x ivs"
  using assms
proof (induction es arbitrary: vt c P mi ivs f x)
  case Nil
  case 1
  then show ?case by (auto simp: sound_def dead_inv_def old_items_def items_ok_no_data)
next
  case Nil
  case 2
  then show ?case by (intro live_inv_sound) simp_all
next
  case (Cons e es)
  case 1
  then obtain b where e: "e = E_inode True n b" by (cases e) (auto simp: op_inum_def split: if_splits)
  have v: "add16 (vt n) 1 = (v0 + Suc c) mod 2 ^ 16" using 1(4) by (simp add: add_w_def mod_simps)
  then have v': "(vt(n := add16 (vt n) 1)) n = (v0 + Suc c) mod 2 ^ 16" by (simp only: fun_upd_same)
  have c: "Suc c + creates es < 2 ^ 16" using 1(5) e by simp
  have fr: "fresh (n, add16 (vt n) 1) P"
    using old_items_fresh [of n v0 "Suc c" P] 1(1) c v by (simp add: dead_inv_def)
  have ty: "di_itype (log b) \<noteq> 0" "snd (view_inode (log b) (0, 0)) = di_itype (log b)"
    using 1(2) e by (simp_all add: view_inode_def)
  have "sound log a0 es (vt(n := add16 (vt n) 1), P @ shape (n, (vt(n := add16 (vt n) 1)) n) (Some (b, True)) [] True)
      (view_inode (log b) (0, 0)) []"
    using 1 e c by (intro Cons.IH(2) [where vt = "vt(n := add16 (vt n) 1)", OF live_inv_create [OF 1(1) ty(1)] _ _ _ v']) (simp_all add: ty)
  then show ?case using replay_create_shape [where vt = vt, OF fr] e by (simp add: sound_Cons view_op_def kept_op_def)
next
  case (Cons e es)
  case 2
  have fr: "fresh (n, vt n) P"
    using old_items_fresh [of n v0 c P] 2(1,5,6) by (simp add: live_inv_def)
  have c: "c + creates es < 2 ^ 16" using 2(6) by (cases e) (auto split: if_splits)
  have ns: "\<forall>e \<in> set es. op_inum e = n" "op_inum e = n" using 2(7) by simp_all
  show ?case
  proof (cases e)
    case (E_inode cr m b)
    with 2 ns have e: "e = E_inode False n b" "di_itype (log b) = snd x" by (auto simp: op_inum_def live_inv_def split: if_splits)
    have nz: "snd x \<noteq> 0" using 2(1) by (simp add: live_inv_def)
    note Cons.IH(2) [where vt = vt, OF live_inv_update [where b = b, OF 2(1) e(2)] _ _ _ 2(5) c ns(1)]
    then have "sound log a0 es (vt, P @ shape (n, vt n) (Some (b, case mi of None \<Rightarrow> False | Some (_, c) \<Rightarrow> c)) ivs
        (case mi of None \<Rightarrow> ivs = [] | Some _ \<Rightarrow> f)) (view_inode (log b) x) ivs"
      using 2(2,3,4) e(2) nz unfolding e(1) by (simp add: view_inode_def)
    then show ?thesis by (simp only: sound_Cons e(1) view_op_def kept_op_def dig_op.case replay_update_shape [where vt = vt, OF fr])
  next
    case (E_file m iv)
    with ns have e: "e = E_file n iv" by (simp add: op_inum_def)
    note Cons.IH(2) [where vt = vt, OF live_inv_file [OF 2(1), of iv] _ _ _ 2(5) c ns(1)]
    then have "sound log a0 es (vt, P @ shape (n, vt n) mi (ivs @ [iv]) (if ivs = [] then True else f)) (view_file iv x) (ivs @ [iv])"
      using 2(2,3,4) unfolding e by (simp add: view_file_def)
    then show ?thesis by (simp only: sound_Cons e view_op_def kept_op_def dig_op.case replay_file_shape [where vt = vt, OF fr])
  next
    case (E_unlink m)
    with ns have e: "e = E_unlink n" by (simp add: op_inum_def)
    note Cons.IH(1) [where vt = vt, OF dead_inv_unlink [OF 2(1)] _ _ 2(5) c ns(1)]
    then have "sound log a0 es (vt, if (\<exists>b. mi = Some (b, True)) then P else P @ shape (n, vt n) mi [] True @ [NTYPE_U (n, vt n)]) (0, 0) []"
      using 2(2,3) unfolding e 2(5) by simp
    then show ?thesis by (simp only: sound_Cons e view_op_def kept_op_def dig_op.case replay_unlink_shape [where vt = vt, OF fr])
  qed
qed

text \<open>
  The condition on the operations of one inode, which has size and type \<open>a0\<close> before them.
\<close>

definition safe_ops :: "(nat \<Rightarrow> dinode) \<Rightarrow> iview \<Rightarrow> dig_op list \<Rightarrow> bool" where
  "safe_ops log a0 es \<longleftrightarrow> wf_ops log (snd a0) es \<and> covered log None es \<and> creates es < 2 ^ 16"

lemma coalesce_sound:
  assumes safe: "safe_ops log a0 es" and "vt n < 2 ^ 16" and "\<forall>e \<in> set es. op_inum e = n" and free: "snd a0 = 0 \<Longrightarrow> a0 = (0, 0)"
  shows "sound log a0 es (vt, []) a0 []"
proof (cases "snd a0 = 0")
  case True
  have "dead_inv log a0 n (vt n) 0 []" using free True by (simp add: dead_inv_def old_items_def)
  from dead_sim [OF _ _ assms(3) this, of vt] show ?thesis using assms True free by (simp add: safe_ops_def)
next
  case False
  have "live_inv log a0 n (vt n) 0 [] None [] True a0" using False by (simp add: live_inv_def old_items_def)
  from live_sim [OF _ _ assms(3) this, of vt] show ?thesis using assms False by (simp add: safe_ops_def shape_def)
qed

end
