(* ===== verification/DigestApply.thy ===== *)
theory DigestApply
  imports Digest
begin

text \<open>
  Publishing a log group, continued: what applying the replay list of the theory Digest does to the
  inodes and to the list of copies for the host.
\<close>

section \<open>Applying the items\<close>

text \<open>
  What the digest relies on in the extent trees. \<open>lookup e inum lblk\<close> is the physical block of a block of a file.
  \<^item> \<open>mlfs_ext_get_blocks\<close> with a creating flag returns between one and \<open>m_len\<close> blocks, allocated contiguously, and moves no other block.
  \<^item> \<open>mlfs_ext_truncate\<close> frees the blocks from \<open>start\<close> to \<open>end\<close>, both included, and succeeds.
\<close>

definition ext_laws :: "'e ext_ops \<Rightarrow> ('e \<Rightarrow> nat \<Rightarrow> nat \<Rightarrow> nat option) \<Rightarrow> bool" where
  "ext_laws ops lookup \<longleftrightarrow>
     (\<forall>inum lblk len e. 0 < len \<longrightarrow> (case get_blocks ops inum lblk len e of (got, pblk, e') \<Rightarrow>
        0 < got \<and> got \<le> int len \<and> pblk \<noteq> 0 \<and> (\<forall>j < nat got. lookup e' inum (lblk + j) = Some (pblk + j)) \<and>
        (\<forall>n b p. lookup e n b = Some p \<longrightarrow> lookup e' n b = Some p))) \<and>
     (\<forall>inum a b e. case ext_truncate ops inum a b e of (ret, e') \<Rightarrow>
        ret = 0 \<and> (\<forall>n c. lookup e' n c = (if n = inum \<and> a \<le> c \<and> c \<le> b then None else lookup e n c)))"

lemma ext_laws_get:
  assumes "ext_laws ops lookup" and "0 < len" and "get_blocks ops inum lblk len e = (got, pblk, e')"
  shows "0 < got" "got \<le> int len" "pblk \<noteq> 0" "j < nat got \<Longrightarrow> lookup e' inum (lblk + j) = Some (pblk + j)"
    "lookup e n b = Some p \<Longrightarrow> lookup e' n b = Some p"
proof -
  have "case get_blocks ops inum lblk len e of (got, pblk, e') \<Rightarrow>
      0 < got \<and> got \<le> int len \<and> pblk \<noteq> 0 \<and> (\<forall>j < nat got. lookup e' inum (lblk + j) = Some (pblk + j)) \<and>
      (\<forall>n b p. lookup e n b = Some p \<longrightarrow> lookup e' n b = Some p)"
    by (rule assms(1) [unfolded ext_laws_def, THEN conjunct1, THEN spec [of _ inum], THEN spec [of _ lblk], THEN spec [of _ len],
          THEN spec [of _ e], THEN mp, OF assms(2)])
  then show "0 < got" "got \<le> int len" "pblk \<noteq> 0" "j < nat got \<Longrightarrow> lookup e' inum (lblk + j) = Some (pblk + j)"
    "lookup e n b = Some p \<Longrightarrow> lookup e' n b = Some p"
    unfolding assms(3) prod.case by simp_all
qed

lemma ext_laws_truncate:
  assumes "ext_laws ops lookup" and "ext_truncate ops inum a b e = (ret, e')"
  shows "ret = 0" "lookup e' n c = (if n = inum \<and> a \<le> c \<and> c \<le> b then None else lookup e n c)"
proof -
  have "case ext_truncate ops inum a b e of (ret, e') \<Rightarrow>
      ret = 0 \<and> (\<forall>n c. lookup e' n c = (if n = inum \<and> a \<le> c \<and> c \<le> b then None else lookup e n c))"
    by (rule assms(1) [unfolded ext_laws_def, THEN conjunct2, THEN spec [of _ inum], THEN spec [of _ a], THEN spec [of _ b], THEN spec [of _ e]])
  then show "ret = 0" "lookup e' n c = (if n = inum \<and> a \<le> c \<and> c \<le> b then None else lookup e n c)"
    unfolding assms(2) prod.case by simp_all
qed

lemma ext_laws_truncate_ok: "ext_laws ops lookup \<Longrightarrow> fst (ext_truncate ops inum a b e) = 0"
  by (cases "ext_truncate ops inum a b e") (simp add: ext_laws_truncate(1))

text \<open>The size and the type of an inode, in the cache or on disk, and the invariant of the inodes.\<close>

definition kview :: "'e kernfs \<Rightarrow> nat \<Rightarrow> iview" where
  "kview k n = (case kf_icache k n of Some ip \<Rightarrow> (isize ip, itype ip) | None \<Rightarrow> (di_size (kf_ondisk k n), di_itype (kf_ondisk k n)))"

definition kinv :: "'e kernfs \<Rightarrow> bool" where
  "kinv k \<longleftrightarrow>
     (\<forall>n ip. kf_icache k n = Some ip \<longrightarrow> (flag_set (i_flags ip) I_DELETING \<longleftrightarrow> itype ip = 0) \<and> (itype ip = 0 \<longrightarrow> isize ip = 0)) \<and>
     (\<forall>n. di_itype (kf_ondisk k n) = 0 \<longrightarrow> di_size (kf_ondisk k n) = 0) \<and> (\<forall>n. kf_versions k n < 2 ^ 16)"

definition kstep :: "'e kernfs \<Rightarrow> nat \<Rightarrow> (iview \<Rightarrow> iview) \<Rightarrow> memcpy_meta list \<Rightarrow> 'e kernfs \<Rightarrow> bool" where
  "kstep k n g ms k' \<longleftrightarrow> kinv k' \<and> kview k' = (kview k)(n := g (kview k n)) \<and>
     kf_memcpy k' = kf_memcpy k @ ms \<and> kf_memcpy_cap k' = kf_memcpy_cap k"

lemma kview_update [simp]:
  "kview (k\<lparr>kf_ext := e\<rparr>) = kview k" "kview (k\<lparr>kf_dirty := d\<rparr>) = kview k" "kview (k\<lparr>kf_memcpy := ms\<rparr>) = kview k"
  "kview (k\<lparr>kf_versions := vt\<rparr>) = kview k" "kview (mlfs_mark_inode_dirty n k) = kview k"
  "kview (put_kinode n ip k) = (kview k)(n := (isize ip, itype ip))"
  by (simp_all add: kview_def mlfs_mark_inode_dirty_def put_kinode_def fun_eq_iff split: option.split)

lemma kinv_update [simp]:
  "kinv (k\<lparr>kf_ext := e\<rparr>) = kinv k" "kinv (k\<lparr>kf_dirty := d\<rparr>) = kinv k" "kinv (k\<lparr>kf_memcpy := ms\<rparr>) = kinv k"
  "kinv (mlfs_mark_inode_dirty n k) = kinv k"
  by (simp_all add: kinv_def mlfs_mark_inode_dirty_def)

lemma kinv_put:
  "kinv k \<Longrightarrow> (flag_set (i_flags ip) I_DELETING \<longleftrightarrow> itype ip = 0) \<Longrightarrow> (itype ip = 0 \<Longrightarrow> isize ip = 0) \<Longrightarrow> kinv (put_kinode n ip k)"
  by (simp add: kinv_def put_kinode_def)

lemma kinv_free: "kinv k \<Longrightarrow> snd (kview k n) = 0 \<Longrightarrow> kview k n = (0, 0)"
  by (auto simp: kinv_def kview_def split: option.splits)

lemma put_dirty_fields [simp]:
  "kf_icache (put_kinode n ip k) = (kf_icache k)(n \<mapsto> ip)" "kf_icache (mlfs_mark_inode_dirty n k) = kf_icache k"
  "kf_memcpy (put_kinode n ip k) = kf_memcpy k" "kf_memcpy (mlfs_mark_inode_dirty n k) = kf_memcpy k"
  "kf_memcpy_cap (put_kinode n ip k) = kf_memcpy_cap k" "kf_memcpy_cap (mlfs_mark_inode_dirty n k) = kf_memcpy_cap k"
  "kf_ext (put_kinode n ip k) = kf_ext k" "kf_ext (mlfs_mark_inode_dirty n k) = kf_ext k"
  by (simp_all add: put_kinode_def mlfs_mark_inode_dirty_def)

lemma set_size_simps [simp]: "isize (set_size sz ip) = sz" "itype (set_size sz ip) = itype ip" "i_flags (set_size sz ip) = i_flags ip"
  by (simp_all add: set_size_def)

lemma deleting_flags [simp]:
  "flag_set (or fl I_VALID) I_DELETING = flag_set fl I_DELETING" "\<not> flag_set (flag_clear fl I_DELETING) I_DELETING"
  "flag_set I_DELETING I_DELETING" "\<not> flag_set 0 I_DELETING" "\<not> flag_set 0 I_VALID" "\<not> flag_set I_VALID I_DELETING"
  by (simp_all add: flag_set_def flag_clear_def I_VALID_def I_DELETING_def bit.conj_disj_distrib2 and.assoc)

lemma kernfs_ialloc_uncached:
  assumes "kf_icache k inum = None" and "inum \<noteq> 0"
  shows "\<exists>ip. kernfs_ialloc ty inum k = Done (inum, put_kinode inum ip k) \<and> \<not> flag_set (i_flags ip) I_DELETING \<and>
     itype ip = (if di_itype (kf_ondisk k inum) = 0 then ty else di_itype (kf_ondisk k inum))"
proof -
  define dip where "dip = (if di_itype (kf_ondisk k inum) = 0 then zero_dinode\<lparr>di_itype := ty\<rparr> else kf_ondisk k inum)"
  have "kernfs_ialloc ty inum k = Done (inum, put_kinode inum \<lparr>i_dinode = dip\<lparr>di_nlink := 1\<rparr>, i_dinode_flags = DI_VALID, i_inum = inum,
      i_ref = 1, i_flags = I_VALID, i_fcache_hash = None, i_n_fcache_entries = 0\<rparr> k)"
    using assms unfolding dip_def
    by (simp add: kernfs_ialloc_def kernfs_iget_def icache_find_def icache_alloc_add_def sync_inode_from_dinode_def Let_def)
  then show ?thesis by (auto simp: dip_def)
qed

lemma reuse_deleting_simps:
  "isize (reuse_deleting src ip) = isize ip"
  "itype (reuse_deleting src ip) = (if flag_set (i_flags ip) I_DELETING then di_itype src else itype ip)"
  "\<not> flag_set (i_flags (reuse_deleting src ip)) I_DELETING"
  by (simp_all add: reuse_deleting_def)

text \<open>What \<open>digest_inode\<close> does with an inode of the cache.\<close>

lemma digest_inode_cached:
  assumes laws: "ext_laws ops lookup" and inv: "kinv k" and ip: "kf_icache k inum = Some ip" and ty: "di_itype (log b) \<noteq> 0"
  shows "\<exists>k'. digest_inode ops log inum b k = Done k' \<and> kstep k inum (view_inode (log b)) [] k'"
proof -
  let ?r = "reuse_deleting (log b) ip"
  define e1 where "e1 = (if itype ?r = T_FILE \<or> itype ?r = T_DIR then ext_tree_init ops inum (kf_ext k) else kf_ext k)"
  define t where "t = ext_truncate ops inum
    (cast32 (di_size (log b) div g_block_size_bytes + (if di_size (log b) mod g_block_size_bytes \<noteq> 0 then 1 else 0)))
    (cast32 (isize ?r div g_block_size_bytes)) e1"
  have t0: "fst t = 0" unfolding t_def by (rule ext_laws_truncate_ok [OF laws])
  have type: "itype ?r = (if itype ip = 0 then di_itype (log b) else itype ip)"
    using inv ip by (simp add: reuse_deleting_simps kinv_def)
  then have nz: "itype ?r \<noteq> 0" using ty by simp
  have "digest_inode ops log inum b k =
      Done (mlfs_mark_inode_dirty inum (put_kinode inum (set_size (di_size (log b)) ?r)
        (k\<lparr>kf_ext := snd (if itype ?r = T_FILE \<and> di_size (log b) < isize ?r then t else (0, e1))\<rparr>)))"
    unfolding digest_inode_def icache_find_def ip option.case Let_def run_bind_simps prod.case e1_def [symmetric] t_def [symmetric]
    using t0 by (simp add: case_prod_unfold)
  moreover have "kinv (put_kinode inum (set_size (di_size (log b)) ?r) (k\<lparr>kf_ext := e\<rparr>))" for e
    using inv nz by (intro kinv_put) (simp_all add: reuse_deleting_simps(3))
  moreover have "kview k inum = (isize ip, itype ip)" using ip by (simp add: kview_def)
  ultimately show ?thesis by (simp add: kstep_def view_inode_def type)
qed

lemma kview_uncached: "kf_icache k n = None \<Longrightarrow> kview k n = (di_size (kf_ondisk k n), di_itype (kf_ondisk k n))"
  by (simp add: kview_def)

lemma digest_inode_done:
  assumes laws: "ext_laws ops lookup" and inv: "kinv k" and "inum \<noteq> 0" and ty: "di_itype (log b) \<noteq> 0"
  shows "\<exists>k'. digest_inode ops log inum b k = Done k' \<and> kstep k inum (view_inode (log b)) [] k'"
proof (cases "kf_icache k inum")
  case (Some ip)
  with digest_inode_cached [where log = log and b = b, OF laws inv _ ty] show ?thesis by blast
next
  case None
  from kernfs_ialloc_uncached [OF None assms(3), of "di_itype (log b)"] obtain ip where
    ip: "kernfs_ialloc (di_itype (log b)) inum k = Done (inum, put_kinode inum ip k)" "\<not> flag_set (i_flags ip) I_DELETING"
      "itype ip = (if di_itype (kf_ondisk k inum) = 0 then di_itype (log b) else di_itype (kf_ondisk k inum))" by blast
  have inv1: "kinv (put_kinode inum ip k)" using inv ip ty by (intro kinv_put) (simp_all split: if_splits)
  have "digest_inode ops log inum b k = digest_inode ops log inum b (put_kinode inum ip k)"
    using None ip(1) by (simp add: digest_inode_def icache_find_def Let_def)
  with digest_inode_cached [where log = log and b = b, OF laws inv1 _ ty, of inum ip] obtain k' where
    k': "digest_inode ops log inum b k = Done k'" "kstep (put_kinode inum ip k) inum (view_inode (log b)) [] k'" by auto
  then have "kstep k inum (view_inode (log b)) [] k'"
    using ip(3) ty by (auto simp: kstep_def kview_uncached [OF None] view_inode_def)
  with k'(1) show ?thesis by blast
qed

lemma digest_unlink_done:
  assumes laws: "ext_laws ops lookup" and inv: "kinv k"
  shows "\<exists>k'. digest_unlink ops inum k = Done k' \<and> kstep k inum (\<lambda>_. (0, 0)) [] k'"
proof -
  define ip where "ip = (case icache_find inum (kf_icache k) of Some ip \<Rightarrow> ip
     | None \<Rightarrow> sync_inode_from_dinode (fst (icache_alloc_add inum (kf_icache k))) (kf_ondisk k inum))"
  define last where "last = cast32 (isize ip div g_block_size_bytes)"
  define t where "t = (if isize ip > 0 then ext_truncate ops inum 0 (if last = 0 then last else last - 1) (kf_ext k) else (0, kf_ext k))"
  have "fst t = 0" unfolding t_def by (simp add: ext_laws_truncate_ok [OF laws])
  then have "digest_unlink ops inum k =
      Done (mlfs_mark_inode_dirty inum (put_kinode inum (ip\<lparr>i_dinode := zero_dinode, i_flags := I_DELETING\<rparr>) (k\<lparr>kf_ext := snd t\<rparr>)))"
    unfolding digest_unlink_def ip_def [symmetric] Let_def last_def [symmetric] t_def [symmetric] by (simp add: case_prod_unfold)
  moreover have "kinv (put_kinode inum (ip\<lparr>i_dinode := zero_dinode, i_flags := I_DELETING\<rparr>) (k\<lparr>kf_ext := snd t\<rparr>))"
    using inv by (intro kinv_put) (simp_all add: zero_dinode_def)
  ultimately show ?thesis by (simp add: kstep_def zero_dinode_def)
qed

section \<open>Data\<close>

text \<open>
  An entry of the copy list moves the byte at address \<open>src\<close> of the log to byte \<open>dst\<close> of the device; the bytes of
  a range of a file are placed if each of them is moved to the block that the file has there.
\<close>

definition copies :: "memcpy_meta \<Rightarrow> nat \<Rightarrow> nat \<Rightarrow> bool" where
  "copies m src dst \<longleftrightarrow> mm_data m \<le> src \<and> src < mm_data m + mm_size m \<and>
     dst = mm_blk_nr m * g_block_size_bytes + mm_offset_in_blk m + (src - mm_data m)"

definition placed :: "('e \<Rightarrow> nat \<Rightarrow> nat \<Rightarrow> nat option) \<Rightarrow> 'e \<Rightarrow> nat \<Rightarrow> nat \<Rightarrow> nat \<Rightarrow> nat \<Rightarrow> memcpy_meta list \<Rightarrow> bool" where
  "placed lookup e inum off src len ms \<longleftrightarrow> (\<forall>i < len. \<exists>p. lookup e inum ((off + i) div g_block_size_bytes) = Some p \<and>
     (\<exists>m \<in> set ms. copies m (src + i) (p * g_block_size_bytes + (off + i) mod g_block_size_bytes)))"

lemma placed_append:
  assumes "placed lookup e inum off src a ms" and "placed lookup e inum (off + a) (src + a) b ms'"
  shows "placed lookup e inum off src (a + b) (ms @ ms')"
  unfolding placed_def
proof (intro allI impI)
  fix i assume i: "i < a + b"
  show "\<exists>p. lookup e inum ((off + i) div g_block_size_bytes) = Some p \<and>
      (\<exists>m \<in> set (ms @ ms'). copies m (src + i) (p * g_block_size_bytes + (off + i) mod g_block_size_bytes))"
  proof (cases "i < a")
    case True
    with assms(1) show ?thesis unfolding placed_def by fastforce
  next
    case False
    with i have "i - a < b" and "off + a + (i - a) = off + i" and "src + a + (i - a) = src + i" by simp_all
    with assms(2) show ?thesis unfolding placed_def by (metis Un_iff set_append)
  qed
qed

definition keeps_blocks :: "('e \<Rightarrow> nat \<Rightarrow> nat \<Rightarrow> nat option) \<Rightarrow> 'e \<Rightarrow> 'e \<Rightarrow> bool" where
  "keeps_blocks lookup e e' \<longleftrightarrow> (\<forall>n b p. lookup e n b = Some p \<longrightarrow> lookup e' n b = Some p)"

lemma keeps_blocks_trans: "keeps_blocks lookup a b \<Longrightarrow> keeps_blocks lookup b c \<Longrightarrow> keeps_blocks lookup a c"
  by (simp add: keeps_blocks_def)

lemma placed_keeps: "placed lookup e inum off src len ms \<Longrightarrow> keeps_blocks lookup e e' \<Longrightarrow> placed lookup e' inum off src len ms"
  unfolding placed_def keeps_blocks_def by meson

text \<open>A run of whole blocks, and a piece of one block.\<close>

lemma placed_blocks:
  assumes "\<And>j. j < g \<Longrightarrow> lookup e inum (off div g_block_size_bytes + j) = Some (pblk + j)" and "off mod g_block_size_bytes = 0"
    and "mm_blk_nr m = pblk" "mm_data m = src" "mm_offset_in_blk m = 0" "mm_size m = g * g_block_size_bytes"
  shows "placed lookup e inum off src (g * g_block_size_bytes) [m]"
  unfolding placed_def
proof (intro allI impI)
  fix i assume i: "i < g * g_block_size_bytes"
  let ?j = "i div g_block_size_bytes"
  have B: "0 < g_block_size_bytes" by (simp add: g_params)
  have "off = off div g_block_size_bytes * g_block_size_bytes" using assms(2) by (simp add: mult.commute mod_0_imp_dvd)
  then have oi: "(off + i) div g_block_size_bytes = off div g_block_size_bytes + ?j" "(off + i) mod g_block_size_bytes = i mod g_block_size_bytes"
    using B by (metis div_mult_self3 not_gr0, metis mod_mult_self3)
  have "?j < g" using i B by (simp add: less_mult_imp_div_less)
  then have "lookup e inum ((off + i) div g_block_size_bytes) = Some (pblk + ?j)" using assms(1) oi by simp
  moreover have "(pblk + ?j) * g_block_size_bytes + (off + i) mod g_block_size_bytes = pblk * g_block_size_bytes + i"
    using oi(2) by (simp add: add_mult_distrib)
  ultimately show "\<exists>p. lookup e inum ((off + i) div g_block_size_bytes) = Some p \<and>
      (\<exists>m \<in> set [m]. copies m (src + i) (p * g_block_size_bytes + (off + i) mod g_block_size_bytes))"
    using assms(3-6) i by (simp add: copies_def)
qed

lemma placed_piece:
  assumes "lookup e inum (off div g_block_size_bytes) = Some pblk" and "off mod g_block_size_bytes + l \<le> g_block_size_bytes"
    and "mm_blk_nr m = pblk" "mm_data m = src" "mm_offset_in_blk m = off mod g_block_size_bytes" "mm_size m = l"
  shows "placed lookup e inum off src l [m]"
  unfolding placed_def
proof (intro allI impI)
  fix i assume i: "i < l"
  have lt: "off mod g_block_size_bytes + i < g_block_size_bytes" using i assms(2) by simp
  have "off + i = off div g_block_size_bytes * g_block_size_bytes + (off mod g_block_size_bytes + i)" by simp
  then have oi: "(off + i) div g_block_size_bytes = off div g_block_size_bytes"
      "(off + i) mod g_block_size_bytes = off mod g_block_size_bytes + i"
    using lt by (metis add.right_neutral div_less div_mult_self3 gr_implies_not0, metis lt mod_add_left_eq mod_less)
  then show "\<exists>p. lookup e inum ((off + i) div g_block_size_bytes) = Some p \<and>
      (\<exists>m \<in> set [m]. copies m (src + i) (p * g_block_size_bytes + (off + i) mod g_block_size_bytes))"
    using assms i by (simp add: copies_def)
qed

text \<open>The offsets, addresses and sizes for which the arithmetic of the loop does not wrap.\<close>

definition in_range :: "nat \<Rightarrow> nat \<Rightarrow> nat \<Rightarrow> bool" where
  "in_range off src len \<longleftrightarrow> off + len < 2 ^ 44 \<and> src + len < 2 ^ 64 \<and> len < 2 ^ 32"

lemma digest_blocks_step:
  assumes "0 < rest" and "cur mod g_block_size_bytes = 0" and "length (kf_memcpy k) < kf_memcpy_cap k"
    and "get_blocks ops inum (cast32 (cur div g_block_size_bytes)) rest (kf_ext k) = (got, pblk, e')"
    and "0 < got" "got \<le> int rest" "pblk \<noteq> 0"
  shows "digest_blocks ops inum cur data rest k =
     digest_blocks ops inum (add64 cur (nat got * g_block_size_bytes)) (add64 data (nat got * g_block_size_bytes)) (rest - nat got)
       (k\<lparr>kf_ext := e', kf_memcpy := kf_memcpy k @ [\<lparr>mm_is_single_blk = False, mm_to_dev = g_root_dev, mm_blk_nr = pblk, mm_data = data,
          mm_size = cast32 (nat got * g_block_size_bytes), mm_offset_in_blk = 0\<rparr>]\<rparr>)"
  by (subst digest_blocks.simps) (use assms in \<open>simp add: add_memcpy_meta_to_array_def\<close>)

lemma add64_aligned: "cur mod g_block_size_bytes = 0 \<Longrightarrow> add64 cur (g * g_block_size_bytes) mod g_block_size_bytes = 0"
proof -
  assume "cur mod g_block_size_bytes = 0"
  then have "(cur + g * g_block_size_bytes) mod g_block_size_bytes = 0" by simp
  moreover have "g_block_size_bytes dvd 2 ^ 64" by (simp add: g_params)
  ultimately show ?thesis unfolding add_w_def by (simp add: mod_mod_cancel)
qed

lemma digest_blocks_done:
  assumes laws: "ext_laws ops lookup"
  shows "cur mod g_block_size_bytes = 0 \<Longrightarrow> length (kf_memcpy k) + rest \<le> kf_memcpy_cap k \<Longrightarrow>
    \<exists>e ms. digest_blocks ops inum cur data rest k = Done (k\<lparr>kf_ext := e, kf_memcpy := kf_memcpy k @ ms\<rparr>) \<and> length ms \<le> rest \<and>
      keeps_blocks lookup (kf_ext k) e \<and>
      (in_range cur data (rest * g_block_size_bytes) \<longrightarrow> placed lookup e inum cur data (rest * g_block_size_bytes) ms)"
proof (induction rest arbitrary: cur data k rule: less_induct)
  case (less rest)
  let ?B = g_block_size_bytes
  show ?case
  proof (cases "rest = 0")
    case True
    then show ?thesis
      by (intro exI [of _ "kf_ext k"] exI [of _ "[]"]) (simp add: digest_blocks.simps keeps_blocks_def placed_def)
  next
    case False
    obtain got pblk e1 where gb: "get_blocks ops inum (cast32 (cur div ?B)) rest (kf_ext k) = (got, pblk, e1)"
      by (metis prod_cases3)
    note law = ext_laws_get [OF laws _ gb]
    define m where "m = \<lparr>mm_is_single_blk = False, mm_to_dev = g_root_dev, mm_blk_nr = pblk, mm_data = data,
      mm_size = cast32 (nat got * ?B), mm_offset_in_blk = 0\<rparr>"
    define k1 where "k1 = k\<lparr>kf_ext := e1, kf_memcpy := kf_memcpy k @ [m]\<rparr>"
    define g where "g = nat got"
    have g: "0 < g" "g \<le> rest" using law False by (simp_all add: g_def)
    have step: "digest_blocks ops inum cur data rest k = digest_blocks ops inum (add64 cur (g * ?B)) (add64 data (g * ?B)) (rest - g) k1"
      using digest_blocks_step [OF _ less.prems(1) _ gb law(1,2,3)] False less.prems(2) unfolding m_def k1_def g_def by simp
    have "rest - g < rest" and "length (kf_memcpy k1) + (rest - g) \<le> kf_memcpy_cap k1" using g less.prems(2) by (simp_all add: k1_def)
    from less.IH [OF this(1) add64_aligned [OF less.prems(1)] this(2), of g "add64 data (g * ?B)"] obtain e ms where
      ih: "digest_blocks ops inum (add64 cur (g * ?B)) (add64 data (g * ?B)) (rest - g) k1 =
          Done (k1\<lparr>kf_ext := e, kf_memcpy := kf_memcpy k1 @ ms\<rparr>)" "length ms \<le> rest - g" "keeps_blocks lookup e1 e"
        "in_range (add64 cur (g * ?B)) (add64 data (g * ?B)) ((rest - g) * ?B) \<Longrightarrow>
          placed lookup e inum (add64 cur (g * ?B)) (add64 data (g * ?B)) ((rest - g) * ?B) ms"
      by (auto simp: k1_def)
    have keep: "keeps_blocks lookup (kf_ext k) e1" using law(5) False unfolding keeps_blocks_def by blast
    have "placed lookup e inum cur data (rest * ?B) (m # ms)" if r: "in_range cur data (rest * ?B)"
    proof -
      have split: "g * ?B + (rest - g) * ?B = rest * ?B" using g by (metis add_mult_distrib le_add_diff_inverse)
      have ids: "add64 cur (g * ?B) = cur + g * ?B" "add64 data (g * ?B) = data + g * ?B" "cast32 (g * ?B) = g * ?B"
        using r split unfolding in_range_def by (simp_all add: add_w_id cast_w_id)
      have "cur div ?B < 2 ^ 32" using r unfolding in_range_def by (simp add: g_params div_less_iff_less_mult)
      then have "placed lookup e1 inum cur data (g * ?B) [m]"
        using law(4) False less.prems(1) ids(3) by (intro placed_blocks [where pblk = pblk]) (simp_all add: m_def g_def cast_w_id)
      moreover have "placed lookup e inum (cur + g * ?B) (data + g * ?B) ((rest - g) * ?B) ms"
        using ih(4) r split unfolding ids in_range_def by simp
      ultimately show ?thesis using placed_append [of lookup e inum cur data "g * ?B" "[m]"] placed_keeps ih(3) split by fastforce
    qed
    moreover have "keeps_blocks lookup (kf_ext k) e" using keep ih(3) by (rule keeps_blocks_trans)
    ultimately show ?thesis using step ih(1,2) g by (intro exI [of _ e] exI [of _ "m # ms"]) (simp add: k1_def)
  qed
qed

lemma placed_mono: "placed lookup e inum off src len' ms \<Longrightarrow> len \<le> len' \<Longrightarrow> placed lookup e inum off src len ms"
  unfolding placed_def by simp

lemma file_inode_done:
  assumes inv: "kinv k" and live: "snd (kview k inum) \<noteq> 0"
  shows "\<exists>ip. file_inode inum k = Done ip \<and> (isize ip, itype ip) = kview k inum \<and> \<not> flag_set (i_flags ip) I_DELETING"
proof (cases "kf_icache k inum")
  case (Some ip)
  then show ?thesis using assms by (simp add: file_inode_def icache_find_def kview_def kinv_def)
next
  case None
  then show ?thesis using live
    by (simp add: file_inode_def icache_find_def icache_alloc_add_def sync_inode_from_dinode_def kview_def Let_def)
qed

definition file_grown :: "nat \<Rightarrow> nat \<Rightarrow> nat \<Rightarrow> inode \<Rightarrow> 'e kernfs \<Rightarrow> 'e kernfs" where
  "file_grown inum offset len ip k =
     (if isize ip < add64 offset len
      then mlfs_mark_inode_dirty inum (put_kinode inum (set_size (add64 offset len) ip) k) else put_kinode inum ip k)"

lemma file_grown_simps [simp]:
  "kf_memcpy (file_grown inum offset len ip k) = kf_memcpy k" "kf_memcpy_cap (file_grown inum offset len ip k) = kf_memcpy_cap k"
  "kf_ext (file_grown inum offset len ip k) = kf_ext k"
  by (simp_all add: file_grown_def)

lemma file_grown_kstep:
  assumes "kinv k" and "(isize ip, itype ip) = kview k inum" and "\<not> flag_set (i_flags ip) I_DELETING" and "itype ip \<noteq> 0"
  shows "kstep k inum (view_file \<lparr>fi_offset = offset, fi_length = len, fi_blknr = b\<rparr>) ms
     (file_grown inum offset len ip k\<lparr>kf_ext := e, kf_memcpy := kf_memcpy k @ ms\<rparr>)"
proof -
  have v: "fst (kview k inum) = isize ip" "snd (kview k inum) = itype ip" using assms(2) by (metis fst_conv, metis snd_conv)
  have "kinv (file_grown inum offset len ip k)" using assms by (auto simp: file_grown_def intro!: kinv_put)
  moreover have "kview (file_grown inum offset len ip k) =
      (kview k)(inum := view_file \<lparr>fi_offset = offset, fi_length = len, fi_blknr = b\<rparr> (kview k inum))"
    by (simp add: file_grown_def view_file_def iov_end_def v)
  ultimately show ?thesis by (simp add: kstep_def)
qed

text \<open>An operation of the log lies in one block, or begins at the start of a block.\<close>

definition iov_shape :: "nat \<Rightarrow> nat \<Rightarrow> bool" where
  "iov_shape offset len \<longleftrightarrow> offset mod g_block_size_bytes + len \<le> g_block_size_bytes \<or> offset mod g_block_size_bytes = 0"

definition file_source :: "nat \<Rightarrow> nat \<Rightarrow> nat \<Rightarrow> nat" where
  "file_source base offset blknr = base + blknr * g_block_size_bytes + offset mod g_block_size_bytes"

lemma blk_cnt_ge: "len \<le> get_blk_cnt_from_length len * g_block_size_bytes" "0 < get_blk_cnt_from_length len"
proof -
  have B: "0 < g_block_size_bytes" by (simp add: g_params)
  have "len \<le> len div g_block_size_bytes * g_block_size_bytes + (if len mod g_block_size_bytes \<noteq> 0 then g_block_size_bytes else 0)"
    using mod_less_divisor [OF B, of len] div_mult_mod_eq [of len g_block_size_bytes]
    by (split if_split) linarith
  then show "len \<le> get_blk_cnt_from_length len * g_block_size_bytes"
    unfolding get_blk_cnt_from_length_def by (simp add: add_mult_distrib split: if_splits)
  show "0 < get_blk_cnt_from_length len"
    unfolding get_blk_cnt_from_length_def using B by (auto simp: div_greater_zero_iff)
qed

lemma digest_file_done:
  assumes laws: "ext_laws ops lookup" and inv: "kinv k" and live: "snd (kview k inum) \<noteq> 0" and shape: "iov_shape offset len"
    and cap: "length (kf_memcpy k) + get_blk_cnt_from_length len \<le> kf_memcpy_cap k"
  shows "\<exists>k' ms. digest_file ops inum offset len b k = Done k' \<and>
     kstep k inum (view_file \<lparr>fi_offset = offset, fi_length = len, fi_blknr = b\<rparr>) ms k' \<and>
     length ms \<le> get_blk_cnt_from_length len \<and> keeps_blocks lookup (kf_ext k) (kf_ext k') \<and>
     (in_range offset (kf_map_base k + b * g_block_size_bytes) (get_blk_cnt_from_length len * g_block_size_bytes) \<longrightarrow>
      placed lookup (kf_ext k') inum offset (file_source (kf_map_base k) offset b) len ms)"
proof -
  let ?B = g_block_size_bytes and ?nr = "get_blk_cnt_from_length len" and ?o = "offset mod g_block_size_bytes"
  obtain ip where ip: "file_inode inum k = Done ip" "(isize ip, itype ip) = kview k inum" "\<not> flag_set (i_flags ip) I_DELETING"
    using file_inode_done [OF inv live] by blast
  with live have ty: "itype ip \<noteq> 0" by (metis snd_conv)
  define k1 where "k1 = file_grown inum offset len ip k"
  define data where "data = add64 (kf_map_base k) (b * ?B)"
  note kst = file_grown_kstep [OF inv ip(2,3) ty, of offset len b, folded k1_def]
  have k1: "kf_memcpy k1 = kf_memcpy k" "kf_memcpy_cap k1 = kf_memcpy_cap k" "kf_ext k1 = kf_ext k" by (simp_all add: k1_def)
  have df: "digest_file ops inum offset len b k =
      (if len < ?B \<or> ?o \<noteq> 0
       then let l = min len (?B - ?o); (ret, pblk, e') = get_blocks ops inum (cast32 (offset div ?B)) 1 (kf_ext k1)
            in run_bind (add_memcpy_meta_to_array \<lparr>mm_is_single_blk = True, mm_to_dev = g_root_dev, mm_blk_nr = pblk,
                   mm_data = add64 data ?o, mm_size = l, mm_offset_in_blk = ?o\<rparr> (k1\<lparr>kf_ext := e'\<rparr>))
                 (digest_blocks ops inum (add64 offset l) (add64 data l) (?nr - 1))
       else digest_blocks ops inum offset data ?nr k1)"
    unfolding digest_file_def Let_def ip(1) run_bind_simps file_grown_def [symmetric] k1_def data_def by (rule refl)
  have rng: "add64 data ?o = file_source (kf_map_base k) offset b" "data = kf_map_base k + b * ?B"
    if "in_range offset (kf_map_base k + b * ?B) (?nr * ?B)"
  proof -
    have "?o < ?B" "?B \<le> ?nr * ?B" using blk_cnt_ge(2) [of len] by (simp_all add: g_params)
    with that have lt: "kf_map_base k + b * ?B + ?o < 2 ^ 64" unfolding in_range_def by linarith
    then show data: "data = kf_map_base k + b * ?B" unfolding data_def by (simp add: add_w_id)
    show "add64 data ?o = file_source (kf_map_base k) offset b" unfolding data file_source_def by (rule add_w_id [OF lt])
  qed
  show ?thesis
  proof (cases "len < ?B \<or> ?o \<noteq> 0")
    case True
    then have l: "min len (?B - ?o) = len" "?o + len \<le> ?B" "?nr = 1"
      using shape unfolding iov_shape_def get_blk_cnt_from_length_def by (auto simp: g_params)
    obtain ret pblk e1 where gb: "get_blocks ops inum (cast32 (offset div ?B)) 1 (kf_ext k1) = (ret, pblk, e1)" by (metis prod_cases3)
    note law = ext_laws_get [OF laws zero_less_one gb]
    define m where "m = \<lparr>mm_is_single_blk = True, mm_to_dev = g_root_dev, mm_blk_nr = pblk,
      mm_data = add64 data ?o, mm_size = len, mm_offset_in_blk = ?o\<rparr>"
    have "digest_file ops inum offset len b k = Done (k1\<lparr>kf_ext := e1, kf_memcpy := kf_memcpy k @ [m]\<rparr>)"
      unfolding df if_P [OF True] Let_def gb prod.case l m_def
      using cap l(3) by (simp add: add_memcpy_meta_to_array_def k1 digest_blocks.simps)
    moreover have "keeps_blocks lookup (kf_ext k) e1" using law(5) k1(3) unfolding keeps_blocks_def by simp
    moreover have "placed lookup e1 inum offset (file_source (kf_map_base k) offset b) len [m]"
      if r: "in_range offset (kf_map_base k + b * ?B) (?nr * ?B)"
    proof -
      have "offset div ?B < 2 ^ 32" using r unfolding in_range_def by (simp add: g_params div_less_iff_less_mult)
      then have "lookup e1 inum (offset div ?B) = Some pblk" using law(1) law(4) [of 0] by (simp add: cast_w_id)
      from placed_piece [where lookup = lookup, OF this l(2)] show ?thesis using rng [OF r] by (simp add: m_def)
    qed
    ultimately show ?thesis using kst [of "[m]" e1] l(3)
      by (intro exI [of _ "k1\<lparr>kf_ext := e1, kf_memcpy := kf_memcpy k @ [m]\<rparr>"] exI [of _ "[m]"]) simp
  next
    case False
    then have o: "?o = 0" by simp
    obtain e ms where db: "digest_blocks ops inum offset data ?nr k1 = Done (k1\<lparr>kf_ext := e, kf_memcpy := kf_memcpy k @ ms\<rparr>)"
        "length ms \<le> ?nr" "keeps_blocks lookup (kf_ext k) e"
        "in_range offset data (?nr * ?B) \<longrightarrow> placed lookup e inum offset data (?nr * ?B) ms"
      using digest_blocks_done [OF laws o, of k1 ?nr inum data] cap k1 by auto
    have "placed lookup e inum offset (file_source (kf_map_base k) offset b) len ms"
      if r: "in_range offset (kf_map_base k + b * ?B) (?nr * ?B)"
      using db(4) r rng(2) [OF r] o placed_mono [OF _ blk_cnt_ge(1)] by (simp add: file_source_def)
    then show ?thesis using df False db(1,2,3) kst [of ms e]
      by (intro exI [of _ "k1\<lparr>kf_ext := e, kf_memcpy := kf_memcpy k @ ms\<rparr>"] exI [of _ ms]) simp
  qed
qed

section \<open>Groups\<close>

text \<open>Items and operations that can be applied, and the number of copies they need at most.\<close>

definition iovs_blks :: "f_iovec list \<Rightarrow> nat" where
  "iovs_blks ivs = sum_list (map (\<lambda>iv. get_blk_cnt_from_length (fi_length iv)) ivs)"

definition items_blks :: "replay_item list \<Rightarrow> nat" where
  "items_blks l = sum_list (map (\<lambda>it. iovs_blks (item_iovs it)) l)"

definition op_blks :: "dig_op \<Rightarrow> nat" where
  "op_blks e = (case e of E_file _ iv \<Rightarrow> get_blk_cnt_from_length (fi_length iv) | _ \<Rightarrow> 0)"

definition good_iov :: "f_iovec \<Rightarrow> bool" where
  "good_iov iv \<longleftrightarrow> iov_shape (fi_offset iv) (fi_length iv)"

definition good_item :: "(nat \<Rightarrow> dinode) \<Rightarrow> replay_item \<Rightarrow> bool" where
  "good_item log it \<longleftrightarrow> (case it of NTYPE_I (n, _) b _ \<Rightarrow> n \<noteq> 0 \<and> di_itype (log b) \<noteq> 0
     | NTYPE_F _ ivs \<Rightarrow> list_all good_iov ivs | NTYPE_U _ \<Rightarrow> True)"

definition good_op :: "(nat \<Rightarrow> dinode) \<Rightarrow> dig_op \<Rightarrow> bool" where
  "good_op log e \<longleftrightarrow> (case e of E_inode _ n b \<Rightarrow> n \<noteq> 0 \<and> di_itype (log b) \<noteq> 0 | E_file _ iv \<Rightarrow> good_iov iv | E_unlink _ \<Rightarrow> True)"

lemma iovs_blks_simps [simp]: "iovs_blks [] = 0" "iovs_blks (iv # ivs) = get_blk_cnt_from_length (fi_length iv) + iovs_blks ivs"
  "iovs_blks (ivs @ ivs') = iovs_blks ivs + iovs_blks ivs'"
  by (simp_all add: iovs_blks_def)

lemma items_blks_simps [simp]: "items_blks [] = 0" "items_blks (it # l) = iovs_blks (item_iovs it) + items_blks l"
  "items_blks (l @ l') = items_blks l + items_blks l'"
  by (simp_all add: items_blks_def)

lemma digest_iovs_done:
  assumes laws: "ext_laws ops lookup"
  shows "kinv k \<Longrightarrow> ivs \<noteq> [] \<longrightarrow> snd (kview k n) \<noteq> 0 \<Longrightarrow> list_all good_iov ivs \<Longrightarrow> length (kf_memcpy k) + iovs_blks ivs \<le> kf_memcpy_cap k \<Longrightarrow>
    \<exists>k' ms. run_fold (\<lambda>iv. digest_file ops n (fi_offset iv) (fi_length iv) (fi_blknr iv)) ivs k = Done k' \<and>
      kstep k n (fold view_file ivs) ms k' \<and> length ms \<le> iovs_blks ivs"
proof (induction ivs arbitrary: k)
  case Nil
  then show ?case by (intro exI [of _ k] exI [of _ "[]"]) (simp add: kstep_def)
next
  case (Cons iv ivs)
  have iv: "\<lparr>fi_offset = fi_offset iv, fi_length = fi_length iv, fi_blknr = fi_blknr iv\<rparr> = iv" by simp
  from Cons.prems have "iov_shape (fi_offset iv) (fi_length iv)" "snd (kview k n) \<noteq> 0"
    "length (kf_memcpy k) + get_blk_cnt_from_length (fi_length iv) \<le> kf_memcpy_cap k" by (simp_all add: good_iov_def)
  from digest_file_done [OF laws Cons.prems(1) this(2,1,3), of "fi_blknr iv"] iv obtain k1 ms1 where
    1: "digest_file ops n (fi_offset iv) (fi_length iv) (fi_blknr iv) k = Done k1" "kstep k n (view_file iv) ms1 k1"
      "length ms1 \<le> get_blk_cnt_from_length (fi_length iv)" by auto
  from 1(2) have "kinv k1" "snd (kview k1 n) = snd (kview k n)" by (simp_all add: kstep_def view_file_def)
  moreover have "length (kf_memcpy k1) + iovs_blks ivs \<le> kf_memcpy_cap k1" using Cons.prems(4) 1(2,3) by (simp add: kstep_def)
  ultimately obtain k2 ms2 where
    2: "run_fold (\<lambda>iv. digest_file ops n (fi_offset iv) (fi_length iv) (fi_blknr iv)) ivs k1 = Done k2"
      "kstep k1 n (fold view_file ivs) ms2 k2" "length ms2 \<le> iovs_blks ivs"
    using Cons.IH [of k1] Cons.prems by auto
  have "kstep k n (fold view_file (iv # ivs)) (ms1 @ ms2) k2" using 1(2) 2(2) by (simp add: kstep_def)
  then show ?case using 1 2 by (intro exI [of _ k2] exI [of _ "ms1 @ ms2"]) (simp add: comp_def)
qed

lemma digest_item_done:
  assumes laws: "ext_laws ops lookup" and inv: "kinv k" and good: "good_item log it"
    and live: "item_iovs it \<noteq> [] \<longrightarrow> snd (kview k (fst (item_key it))) \<noteq> 0"
    and cap: "length (kf_memcpy k) + iovs_blks (item_iovs it) \<le> kf_memcpy_cap k"
  shows "\<exists>k' ms. digest_item ops log it k = Done k' \<and> kstep k (fst (item_key it)) (view_item log it) ms k' \<and>
    length ms \<le> iovs_blks (item_iovs it)"
proof (cases it)
  case (NTYPE_I key b c)
  with digest_inode_done [OF laws inv, of "fst key" log b] good show ?thesis
    by (cases key) (auto simp: digest_item_def good_item_def)
next
  case (NTYPE_F key ivs)
  with digest_iovs_done [OF laws inv, of ivs "fst key"] good live cap show ?thesis
    by (cases key) (auto simp: digest_item_def good_item_def)
next
  case (NTYPE_U key)
  then have "view_item log it = (\<lambda>_. (0, 0))" by (simp add: fun_eq_iff)
  with NTYPE_U digest_unlink_done [OF laws inv, of "fst key"] show ?thesis
    by (cases key) (auto simp: digest_item_def)
qed

lemma of_inum_Cons [simp]: "of_inum n (it # l) = (if fst (item_key it) = n then it # of_inum n l else of_inum n l)"
  by (simp add: of_inum_def)

lemma digest_list_done:
  assumes laws: "ext_laws ops lookup"
  shows "kinv k \<Longrightarrow> list_all (good_item log) l \<Longrightarrow> \<forall>n. items_ok log (of_inum n l) (kview k n) \<Longrightarrow>
    length (kf_memcpy k) + items_blks l \<le> kf_memcpy_cap k \<Longrightarrow>
    \<exists>k'. digest_log_from_replay_list ops log l k = Done k' \<and> kinv k' \<and>
      (\<forall>n. kview k' n = fold (view_item log) (of_inum n l) (kview k n))"
proof (induction l arbitrary: k)
  case Nil
  then show ?case by (simp add: digest_log_from_replay_list_def)
next
  case (Cons it l)
  let ?n = "fst (item_key it)"
  have "item_iovs it \<noteq> [] \<longrightarrow> snd (kview k ?n) \<noteq> 0" using Cons.prems(3) [THEN spec, of ?n] by simp
  with digest_item_done [OF laws Cons.prems(1), of log it] Cons.prems(2,4) obtain k1 ms where
    1: "digest_item ops log it k = Done k1" "kstep k ?n (view_item log it) ms k1" "length ms \<le> iovs_blks (item_iovs it)" by auto
  have ok: "items_ok log (of_inum n l) (kview k1 n)" for n
    using Cons.prems(3) [THEN spec, of n] 1(2) by (auto simp: kstep_def split: if_splits)
  from 1(2,3) Cons.prems(2,4) ok Cons.IH [of k1] obtain k2 where
    2: "digest_log_from_replay_list ops log l k1 = Done k2" "kinv k2" "\<forall>n. kview k2 n = fold (view_item log) (of_inum n l) (kview k1 n)"
    by (auto simp: kstep_def)
  have "kview k2 n = fold (view_item log) (of_inum n (it # l)) (kview k n)" for n using 2(3) 1(2) by (simp add: kstep_def)
  then show ?case using 1(1) 2(1,2) by (simp add: digest_log_from_replay_list_def)
qed

text \<open>Coalescing keeps what the items need.\<close>

lemma list_all_update_first:
  "list_all q l \<Longrightarrow> (\<And>x. q x \<Longrightarrow> p x \<Longrightarrow> q (f x)) \<Longrightarrow> list_all q (update_first p f l)"
  by (induction l) auto

lemma list_all_remove_first: "list_all q l \<Longrightarrow> list_all q (remove_first p l)"
  by (induction l) auto

lemma update_first_new: "\<not> list_ex p l \<Longrightarrow> p x \<Longrightarrow> update_first p f (l @ [x]) = l @ [f x]"
  by (induction l) auto

lemma items_blks_update:
  "items_blks (update_first (is_f key) (add_iovec iv) l) \<le> items_blks l + get_blk_cnt_from_length (fi_length iv)"
  "items_blks (update_first (is_i key) (set_blknr b) l) = items_blks l"
  by (induction l) (auto simp: item_defs split: replay_item.splits)

lemma items_blks_remove: "items_blks (remove_first p l) \<le> items_blks l"
  by (induction l) auto

lemma replay_op_good: "list_all (good_item log) l \<Longrightarrow> good_op log e \<Longrightarrow> list_all (good_item log) (snd (replay_op e (vt, l)))"
  by (cases e) (auto simp: replay_defs Let_def update_first_new list_all_remove_first good_op_def good_item_def item_defs
      intro!: list_all_update_first split: replay_item.splits)

lemma replay_op_blks: "items_blks (snd (replay_op e (vt, l))) \<le> items_blks l + op_blks e"
proof (cases e)
  case (E_file n iv)
  then show ?thesis using items_blks_update(1) [of "(n, vt n)" iv l]
    by (auto simp: replay_defs Let_def op_blks_def update_first_new)
next
  case (E_unlink n)
  have "items_blks (remove_first (is_f key) l') \<le> items_blks l" if "items_blks l' \<le> items_blks l" for l' key
    using that items_blks_remove le_trans by blast
  then show ?thesis using E_unlink by (simp add: replay_defs Let_def op_blks_def items_blks_remove)
qed (auto simp: replay_defs Let_def op_blks_def items_blks_update)

lemma replay_op_versions: "\<forall>n. vt n < 2 ^ 16 \<Longrightarrow> fst (replay_op e (vt, l)) n < 2 ^ 16"
  using add_w_bound [of 16] by (cases e) (simp_all add: replay_defs Let_def)

lemma replay_fold_facts:
  "list_all (good_item log) l \<Longrightarrow> list_all (good_op log) es \<Longrightarrow> \<forall>n. vt n < 2 ^ 16 \<Longrightarrow>
   list_all (good_item log) (snd (fold replay_op es (vt, l))) \<and>
   items_blks (snd (fold replay_op es (vt, l))) \<le> items_blks l + sum_list (map op_blks es) \<and>
   (\<forall>n. fst (fold replay_op es (vt, l)) n < 2 ^ 16)"
proof (induction es arbitrary: vt l)
  case (Cons e es)
  obtain vt1 l1 where 1: "replay_op e (vt, l) = (vt1, l1)" by fastforce
  have "list_all (good_item log) l1" "items_blks l1 \<le> items_blks l + op_blks e" "\<forall>n. vt1 n < 2 ^ 16"
    using replay_op_good [OF Cons.prems(1), of e vt] replay_op_blks [of e vt l] replay_op_versions [OF Cons.prems(3), of e l] Cons.prems(2) 1
    by simp_all
  with Cons.IH [of l1 vt1] Cons.prems(2) 1 show ?case by fastforce
qed simp

text \<open>The headers of a group.\<close>

definition good_header :: "logheader \<Rightarrow> bool" where
  "good_header h \<longleftrightarrow> lh_inuse h = LH_COMMIT_MAGIC \<and> lh_n h \<le> g_max_blocks_per_operation \<and>
     list_all (\<lambda>i. committable (lh_type h ! i) \<and> lh_inode_no h ! i < NINODES) [0..<lh_n h]"

lemma run_fold_Done: "(\<And>x s. x \<in> set xs \<Longrightarrow> f x s = Done (g x s)) \<Longrightarrow> run_fold f xs s = Done (fold g xs s)"
  by (induction xs arbitrary: s) simp_all

lemma replay_entry_Done:
  "i < g_max_blocks_per_operation \<Longrightarrow> committable (lh_type h ! i) \<Longrightarrow> lh_inode_no h ! i < NINODES \<Longrightarrow>
   replay_entry blk h i st = Done (replay_op (entry_op blk h i) st)"
  by (cases "lh_type h ! i") (simp_all add: replay_entry_def entry_op_def replay_op_def committable_def Let_def)

lemma digest_headers_Done:
  "list_all good_header hs \<Longrightarrow> digest_headers hs blk st = Done (fold replay_op (group_ops hs blk) st)"
proof (induction hs arbitrary: blk st)
  case (Cons h hs)
  then have h: "good_header h" by simp
  have "digest_replay_and_optimize blk h st = Done (fold (\<lambda>i. replay_op (entry_op blk h i)) [0..<lh_n h] st)"
    unfolding digest_replay_and_optimize_def using h
    by (intro run_fold_Done replay_entry_Done) (auto simp: good_header_def list_all_iff)
  then show ?case using Cons h by (simp add: good_header_def fold_map comp_def)
qed simp

lemma digest_logs_items:
  assumes laws: "ext_laws ops lookup" and inv: "kinv k" and hdrs: "n_hdrs \<le> length hdrs" "list_all good_header (take n_hdrs hdrs)"
    and es: "es = group_ops (take n_hdrs hdrs) start" and good: "list_all (good_op log) es"
    and l: "l = snd (fold replay_op es (kf_versions k, []))"
    and ok: "\<forall>n. items_ok log (of_inum n l) (kview k n)"
    and cap: "length (kf_memcpy k) + sum_list (map op_blks es) \<le> kf_memcpy_cap k"
  shows "\<exists>k'. digest_logs ops log n_hdrs start hdrs k = Done (n_hdrs, k') \<and> kinv k' \<and>
     (\<forall>n. kview k' n = fold (view_item log) (of_inum n l) (kview k n))"
proof -
  define vt where "vt = fst (fold replay_op es (kf_versions k, []))"
  have vl: "fold replay_op es (kf_versions k, []) = (vt, l)" by (simp add: vt_def l)
  have v: "\<forall>n. kf_versions k n < 2 ^ 16" using inv by (simp add: kinv_def)
  from replay_fold_facts [of log "[]" es "kf_versions k", OF _ good v] vl
  have 1: "list_all (good_item log) l" "items_blks l \<le> sum_list (map op_blks es)" "\<forall>n. vt n < 2 ^ 16" by simp_all
  have "kinv (k\<lparr>kf_versions := vt\<rparr>)" using inv 1(3) by (simp add: kinv_def)
  from digest_list_done [OF laws this 1(1)] ok cap 1(2) obtain k' where
    k': "digest_log_from_replay_list ops log l (k\<lparr>kf_versions := vt\<rparr>) = Done k'" "kinv k'"
      "\<forall>n. kview k' n = fold (view_item log) (of_inum n l) (kview k n)" by auto
  then show ?thesis using hdrs digest_headers_Done [OF hdrs(2)] vl by (simp add: digest_logs_def es)
qed

lemma coalesced_inode:
  assumes "kinv k" and "safe_ops log (kview k n) (filter (\<lambda>e. op_inum e = n) es)"
  shows "sound log (kview k n) (filter (\<lambda>e. op_inum e = n) es) (kf_versions k, []) (kview k n) []"
  using assms by (intro coalesce_sound [where n = n] kinv_free) (simp_all add: kinv_def)

section \<open>Properties\<close>

text \<open>A model of the extent trees: the blocks of an inode that are mapped, each at the physical block one behind its own number.\<close>

definition demo_ext :: "(nat \<Rightarrow> nat \<Rightarrow> bool) ext_ops" where
  "demo_ext = \<lparr>get_blocks = \<lambda>inum lblk len e. (int len, Suc lblk, \<lambda>n b. e n b \<or> n = inum \<and> lblk \<le> b \<and> b < lblk + len),
     ext_truncate = \<lambda>inum a b e. (0, \<lambda>n c. e n c \<and> \<not> (n = inum \<and> a \<le> c \<and> c \<le> b)), ext_tree_init = \<lambda>inum e. e\<rparr>"

definition demo_lookup :: "(nat \<Rightarrow> nat \<Rightarrow> bool) \<Rightarrow> nat \<Rightarrow> nat \<Rightarrow> nat option" where
  "demo_lookup e n b = (if e n b then Some (Suc b) else None)"

lemma demo_ext_laws: "ext_laws demo_ext demo_lookup"
  by (simp add: ext_laws_def demo_ext_def demo_lookup_def)

definition demo_kernfs :: "(nat \<Rightarrow> nat \<Rightarrow> bool) kernfs" where
  "demo_kernfs = \<lparr>kf_icache = Map.empty, kf_ondisk = (\<lambda>_. zero_dinode), kf_ninodes = NINODES, kf_ext = (\<lambda>_ _. False), kf_dirty = {},
     kf_versions = (\<lambda>_. 0), kf_map_base = 0, kf_memcpy = [], kf_memcpy_cap = 10\<rparr>"

lemma demo_kernfs_inv: "kinv demo_kernfs"
  by (simp add: kinv_def demo_kernfs_def zero_dinode_def)

text \<open>A log in which block 1 and block 2 hold records of a file, of size 0 and of size \<open>sz\<close>.\<close>

definition demo_log :: "nat \<Rightarrow> nat \<Rightarrow> dinode" where
  "demo_log sz b = zero_dinode\<lparr>di_itype := T_FILE, di_size := if b = 2 then sz else 0\<rparr>"

text \<open>The header of a transaction that creates inode 5, writes 4096 bytes and updates the inode.\<close>

definition demo_header :: logheader where
  "demo_header = zero_loghdr\<lparr>lh_n := 3, lh_inuse := LH_COMMIT_MAGIC, lh_nr_log_blocks := 4,
     lh_type := [L_TYPE_INODE_CREATE, L_TYPE_FILE, L_TYPE_INODE_UPDATE, L_TYPE_INVALID], lh_inode_no := [5, 5, 5, 0],
     lh_data := [0, 0, 0, 0], lh_length := [0, 4096, 0, 0], lh_blocks := [1, 3, 2, 0]\<rparr>"

lemma upt_3: "[0..<3] = [0, 1, 2 :: nat]"
  by (simp add: numeral_eq_Suc)

lemma demo_header_good: "good_header demo_header"
  by (simp add: good_header_def demo_header_def committable_def NINODES_def g_params upt_3)

lemma demo_group: "group_ops [demo_header] 0 =
  [E_inode True 5 1, E_file 5 \<lparr>fi_offset = 0, fi_length = 4096, fi_blknr = 3\<rparr>, E_inode False 5 2]"
  by (simp add: demo_header_def entry_op_def add_w_def upt_3)

text \<open>C8. Digesting a group of log headers, with coalescing, leaves every inode with the size and the type
  that applying its entries one after the other in the order of the log gives, and succeeds. The
  group must be such that the entries of each inode are consistent with its type, that no data of an inode ends behind
  the size in its last record, and that the copy list has room.
\<close>

theorem digest_logs_applies_entries:
  assumes "ext_laws ops lookup" and "kinv k" and "n_hdrs \<le> length hdrs" and "list_all good_header (take n_hdrs hdrs)"
    and es: "es = group_ops (take n_hdrs hdrs) start" and "list_all (good_op log) es"
    and safe: "\<forall>n. safe_ops log (kview k n) (filter (\<lambda>e. op_inum e = n) es)"
    and "length (kf_memcpy k) + sum_list (map op_blks es) \<le> kf_memcpy_cap k"
  shows "\<exists>k'. digest_logs ops log n_hdrs start hdrs k = Done (n_hdrs, k') \<and> kinv k' \<and>
     (\<forall>n. kview k' n = fold (view_op log) (filter (\<lambda>e. op_inum e = n) es) (kview k n))"
proof -
  let ?l = "snd (fold replay_op es (kf_versions k, []))"
  have "items_ok log (of_inum n ?l) (kview k n) \<and>
      fold (view_item log) (of_inum n ?l) (kview k n) = fold (view_op log) (filter (\<lambda>e. op_inum e = n) es) (kview k n)" for n
    using coalesced_inode [OF assms(2) safe [THEN spec, of n]] by (simp add: sound_def Let_def replay_fold_of_inum)
  with digest_logs_items [OF assms(1-5,6) refl _ assms(8)] show ?thesis by auto
qed

theorem digest_logs_applies_entries_witness:
  "\<exists>k'. digest_logs demo_ext (demo_log 4096) 1 0 [demo_header] demo_kernfs = Done (1, k') \<and> kview k' 5 = (4096, T_FILE)"
proof -
  have "safe_ops (demo_log 4096) (kview demo_kernfs n) (filter (\<lambda>e. op_inum e = n) (group_ops (take 1 [demo_header]) 0))" for n
    by (simp add: demo_group op_inum_def safe_ops_def kview_def demo_kernfs_def zero_dinode_def demo_log_def T_FILE_def below_def iov_end_def add_w_def
        del: group_ops.simps)
  with digest_logs_applies_entries [OF demo_ext_laws demo_kernfs_inv _ _ refl, of 1 "[demo_header]" "demo_log 4096" 0]
  show ?thesis
    by (auto simp: demo_header_good demo_group good_op_def good_iov_def iov_shape_def demo_log_def T_FILE_def op_blks_def
        get_blk_cnt_from_length_def g_params demo_kernfs_def op_inum_def view_op_def view_inode_def view_file_def
        kview_def zero_dinode_def simp del: group_ops.simps)
qed

text \<open>C23. The data that the replay list of a group holds for an inode is the data of its file entries, in the order of the log,
  without that written before the inode was unlinked.
\<close>

theorem coalesce_keeps_data:
  assumes "kinv k" and "list_all good_header hs" and "digest_headers hs start (kf_versions k, []) = Done (vt, l)"
    and "safe_ops log (kview k n) (filter (\<lambda>e. op_inum e = n) (group_ops hs start))"
  shows "concat (map item_iovs (of_inum n l)) = fold kept_op (filter (\<lambda>e. op_inum e = n) (group_ops hs start)) []"
proof -
  have "l = snd (fold replay_op (group_ops hs start) (kf_versions k, []))"
    using assms(3) digest_headers_Done [OF assms(2), of start "(kf_versions k, [])"] by simp
  then show ?thesis using coalesced_inode [OF assms(1,4)] by (simp add: sound_def Let_def replay_fold_of_inum)
qed

theorem coalesce_keeps_data_witness:
  "\<exists>vt l. digest_headers [demo_header] 0 (kf_versions demo_kernfs, []) = Done (vt, l) \<and>
     concat (map item_iovs (of_inum 5 l)) = [\<lparr>fi_offset = 0, fi_length = 4096, fi_blknr = 3\<rparr>]"
proof -
  obtain vt l where vl: "digest_headers [demo_header] 0 (kf_versions demo_kernfs, []) = Done (vt, l)"
    using digest_headers_Done [of "[demo_header]" 0] demo_header_good by (metis list.pred_inject prod.collapse)
  have "safe_ops (demo_log 4096) (kview demo_kernfs 5) (filter (\<lambda>e. op_inum e = 5) (group_ops [demo_header] 0))"
    by (simp add: demo_group op_inum_def safe_ops_def kview_def demo_kernfs_def zero_dinode_def demo_log_def T_FILE_def below_def iov_end_def
        add_w_def del: group_ops.simps)
  from coalesce_keeps_data [OF demo_kernfs_inv _ vl this] demo_header_good
  have "concat (map item_iovs (of_inum 5 l)) = [\<lparr>fi_offset = 0, fi_length = 4096, fi_blknr = 3\<rparr>]"
    by (simp add: demo_group op_inum_def kept_op_def del: group_ops.simps)
  with vl show ?thesis by blast
qed

text \<open>C11. The copies that \<open>digest_file\<close> lists move every byte of an operation from its place in the log to the
  place that the file has for it on the device, for an operation that lies in one block or begins at the start of a block.
\<close>

theorem digest_file_places_data:
  assumes "ext_laws ops lookup" and "kinv k" and "snd (kview k inum) \<noteq> 0" and "iov_shape offset len"
    and "length (kf_memcpy k) + get_blk_cnt_from_length len \<le> kf_memcpy_cap k"
    and "in_range offset (kf_map_base k + blknr * g_block_size_bytes) (get_blk_cnt_from_length len * g_block_size_bytes)"
  shows "\<exists>k' ms. digest_file ops inum offset len blknr k = Done k' \<and> kf_memcpy k' = kf_memcpy k @ ms \<and>
     length ms \<le> get_blk_cnt_from_length len \<and>
     placed lookup (kf_ext k') inum offset (file_source (kf_map_base k) offset blknr) len ms"
  using digest_file_done [OF assms(1-5)] assms(6) unfolding kstep_def by blast

definition demo_file_kernfs :: "(nat \<Rightarrow> nat \<Rightarrow> bool) kernfs" where
  "demo_file_kernfs = demo_kernfs\<lparr>kf_ondisk := (\<lambda>_. zero_dinode)(5 := zero_dinode\<lparr>di_itype := T_FILE, di_size := 5000\<rparr>),
     kf_ext := \<lambda>n b. n = 5 \<and> b < 2\<rparr>"

theorem digest_file_places_data_witness:
  "\<exists>k' ms. digest_file demo_ext 5 4096 5000 7 demo_file_kernfs = Done k' \<and> kf_memcpy k' = ms \<and> length ms \<le> 2 \<and>
     placed demo_lookup (kf_ext k') 5 4096 (7 * 4096) 5000 ms"
proof -
  have "kinv demo_file_kernfs" by (simp add: kinv_def demo_file_kernfs_def demo_kernfs_def zero_dinode_def T_FILE_def)
  from digest_file_places_data [OF demo_ext_laws this, of 5 4096 5000 7] show ?thesis
    by (simp add: demo_file_kernfs_def demo_kernfs_def kview_def T_FILE_def iov_shape_def get_blk_cnt_from_length_def g_params
        in_range_def file_source_def flip: numeral_2_eq_2)
qed

text \<open>C21. Coalescing undoes a truncation: of a group that creates a file, writes to it and then truncates it below the
  written data, the digest leaves the size of the written data, where the entries of the log, in order, give the
  size in the last record.
\<close>

theorem digest_undoes_truncate:
  assumes "ext_laws ops lookup" and "kinv k" and "n_hdrs \<le> length hdrs" and "list_all good_header (take n_hdrs hdrs)"
    and es: "group_ops (take n_hdrs hdrs) start = [E_inode True n b, E_file n iv, E_inode False n b']"
    and n: "n \<noteq> 0" "kview k n = (0, 0)" "di_itype (log b) \<noteq> 0" "di_itype (log b') = di_itype (log b)"
    and iv: "good_iov iv" "di_size (log b') < iov_end iv"
    and "length (kf_memcpy k) + get_blk_cnt_from_length (fi_length iv) \<le> kf_memcpy_cap k"
  shows "fst (fold (view_op log) (group_ops (take n_hdrs hdrs) start) (kview k n)) = di_size (log b') \<and>
     (\<exists>k'. digest_logs ops log n_hdrs start hdrs k = Done (n_hdrs, k') \<and> fst (kview k' n) = iov_end iv)"
proof -
  let ?es = "[E_inode True n b, E_file n iv, E_inode False n b']"
  define v where "v = add16 (kf_versions k n) 1"
  have l: "[NTYPE_I (n, v) b' True, NTYPE_F (n, v) [iv]] = snd (fold replay_op ?es (kf_versions k, []))"
    by (simp add: replay_defs Let_def v_def)
  have ok: "\<forall>m. items_ok log (of_inum m [NTYPE_I (n, v) b' True, NTYPE_F (n, v) [iv]]) (kview k m)"
    using n by (simp add: view_inode_def)
  have good: "list_all (good_op log) ?es" and cap: "length (kf_memcpy k) + sum_list (map op_blks ?es) \<le> kf_memcpy_cap k"
    using n iv assms(12) by (simp_all add: good_op_def op_blks_def)
  from digest_logs_items [OF assms(1-4) es [symmetric] good l ok cap] obtain k' where
    "digest_logs ops log n_hdrs start hdrs k = Done (n_hdrs, k')"
    "kview k' n = fold (view_item log) (of_inum n [NTYPE_I (n, v) b' True, NTYPE_F (n, v) [iv]]) (kview k n)"
    by blast
  then show ?thesis using n iv(2) by (simp add: es view_op_def view_inode_def view_file_def)
qed

theorem digest_undoes_truncate_witness:
  "\<exists>k'. digest_logs demo_ext (demo_log 0) 1 0 [demo_header] demo_kernfs = Done (1, k') \<and> fst (kview k' 5) = 4096"
  using digest_undoes_truncate [OF demo_ext_laws demo_kernfs_inv, of 1 "[demo_header]" 0 5 1 _ 2 "demo_log 0"]
  by (simp add: demo_header_good demo_group good_iov_def iov_shape_def iov_end_def add_w_def demo_log_def T_FILE_def
      get_blk_cnt_from_length_def g_params demo_kernfs_def kview_def zero_dinode_def del: group_ops.simps)






end
