(* ===== verification/Messages.thy ===== *)
theory Messages
  imports FsyncAck
begin

text \<open>
  The text messages that the processes exchange.

  Senders print a message with \<open>sprintf\<close>, receivers take it apart with \<open>sscanf\<close> in
  \<open>signal_callback\<close>: of the SmartNIC (\<open>kernfs/nic/nic_fs.c\<close>, and \<open>low_lat_signal_callback\<close> for
  the low-latency channel), of the KernFS on the host (\<open>kernfs/fs.c\<close>) and of the LibFS
  (\<open>libfs/src/log/log.c\<close>). Format strings are those of the code, with the tags of
  \<open>rpc_interface.h\<close> in place; the two library functions are modelled for the conversions
  that occur. Leases are not compiled in. Requests to the storage of the SmartNIC (\<open>nr...\<close>) and
  digest requests of the host-only build are passed on as text. Notifications without text are left out.

  A variable that \<open>sscanf\<close> does not reach keeps what was in memory, which the receivers take as
  an argument: the bytes of \<open>cmd_hdr\<close>, the other integers, and the address string.
\<close>

section \<open>Formats\<close>

datatype conv = Conv_s | Conv_d | Conv_u | Conv_lu

datatype item = Lit char | Conv conv

datatype arg = A_str string | A_int int

text \<open>The items of a format string; other conversions do not occur.\<close>

fun fmt :: "string \<Rightarrow> item list" where
  "fmt [] = []"
| "fmt [c] = [Lit c]"
| "fmt (c # d # cs) =
     (if c \<noteq> CHR ''%'' then Lit c # fmt (d # cs)
      else if d = CHR ''s'' then Conv Conv_s # fmt cs
      else if d = CHR ''d'' then Conv Conv_d # fmt cs
      else if d = CHR ''u'' then Conv Conv_u # fmt cs
      else if d = CHR ''l'' then Conv Conv_lu # fmt (tl cs)
      else fmt cs)"

definition digit :: "nat \<Rightarrow> char" where
  "digit d = char_of (48 + d)"

fun digits :: "nat \<Rightarrow> string" where
  "digits n = (if n < 10 then [digit n] else digits (n div 10) @ [digit (n mod 10)])"

declare digits.simps [simp del]

definition print_dec :: "int \<Rightarrow> string" where
  "print_dec v = (if v < 0 then CHR ''-'' # digits (nat (- v)) else digits (nat v))"

fun sprintf :: "item list \<Rightarrow> arg list \<Rightarrow> string" where
  "sprintf [] as = []"
| "sprintf (Lit c # is) as = c # sprintf is as"
| "sprintf (Conv k # is) [] = []"
| "sprintf (Conv k # is) (A_int v # as) = print_dec v @ sprintf is as"
| "sprintf (Conv k # is) (A_str t # as) = t @ sprintf is as"

definition snprintf :: "nat \<Rightarrow> item list \<Rightarrow> arg list \<Rightarrow> string" where
  "snprintf n is as = take (n - 1) (sprintf is as)"

definition isspace :: "char \<Rightarrow> bool" where
  "isspace c \<longleftrightarrow> of_char c = (32 :: nat) \<or> 9 \<le> (of_char c :: nat) \<and> (of_char c :: nat) \<le> 13"

definition isdigit :: "char \<Rightarrow> bool" where
  "isdigit c \<longleftrightarrow> 48 \<le> (of_char c :: nat) \<and> (of_char c :: nat) \<le> 57"

definition dec_val :: "string \<Rightarrow> nat" where
  "dec_val ds = foldl (\<lambda>a c. 10 * a + (of_char c - 48)) 0 ds"

text \<open>
  The value of a number with the type of the conversion. A number that the type cannot hold is
  undefined behaviour; the scan stops there.
\<close>

fun conv_val :: "conv \<Rightarrow> bool \<Rightarrow> nat \<Rightarrow> int option" where
  "conv_val Conv_s neg n = None"
| "conv_val Conv_d neg n =
     (let v = (if neg then - int n else int n) in if - (2 ^ 31) \<le> v \<and> v < 2 ^ 31 then Some v else None)"
| "conv_val Conv_u neg n = (if n < 2 ^ 32 then Some (if neg then (- int n) mod 2 ^ 32 else int n) else None)"
| "conv_val Conv_lu neg n = (if n < 2 ^ 64 then Some (if neg then (- int n) mod 2 ^ 64 else int n) else None)"

definition scan_sign :: "string \<Rightarrow> bool \<times> string" where
  "scan_sign s = (case s of [] \<Rightarrow> (False, []) | c # cs \<Rightarrow>
     if c = CHR ''-'' then (True, cs) else if c = CHR ''+'' then (False, cs) else (False, s))"

text \<open>The list of the values that \<open>sscanf\<close> stores, in order; it ends at the first mismatch.\<close>

fun sscanf :: "item list \<Rightarrow> string \<Rightarrow> arg list" where
  "sscanf [] s = []"
| "sscanf (Lit c # is) s =
     (if isspace c then sscanf is (dropWhile isspace s)
      else case s of [] \<Rightarrow> [] | x # xs \<Rightarrow> if x = c then sscanf is xs else [])"
| "sscanf (Conv k # is) s =
     (let s1 = dropWhile isspace s in
      if k = Conv_s
      then let w = takeWhile (\<lambda>c. \<not> isspace c) s1
           in if w = [] then [] else A_str w # sscanf is (dropWhile (\<lambda>c. \<not> isspace c) s1)
      else let (neg, s2) = scan_sign s1; ds = takeWhile isdigit s2
           in if ds = [] then []
              else case conv_val k neg (dec_val ds) of
                     None \<Rightarrow> []
                   | Some v \<Rightarrow> A_int v # sscanf is (dropWhile isdigit s2))"

section \<open>Numbers\<close>

lemma isdigit_digit: "d < 10 \<Longrightarrow> isdigit (digit d)"
  by (simp add: isdigit_def digit_def)

lemma of_digit: "d < 10 \<Longrightarrow> of_char (digit d) = 48 + d"
  by (simp add: digit_def)

lemma digits_all: "\<forall>c \<in> set (digits n). isdigit c"
  by (induction n rule: digits.induct) (subst digits.simps, auto simp: isdigit_digit)

lemma digits_nonempty [simp]: "digits n \<noteq> []"
  by (subst digits.simps) simp

lemma dec_val_snoc: "dec_val (ds @ [c]) = 10 * dec_val ds + (of_char c - 48)"
  by (simp add: dec_val_def)

lemma dec_val_digits: "dec_val (digits n) = n"
proof (induction n rule: digits.induct)
  case (1 n)
  show ?case
  proof (cases "n < 10")
    case True
    then show ?thesis by (subst digits.simps) (simp add: dec_val_def of_digit)
  next
    case False
    then have "dec_val (digits n) = 10 * (n div 10) + n mod 10"
      using 1 by (subst digits.simps) (simp add: dec_val_snoc of_digit)
    then show ?thesis by simp
  qed
qed

lemma length_digits: "0 < k \<Longrightarrow> n < 10 ^ k \<Longrightarrow> length (digits n) \<le> k"
proof (induction n arbitrary: k rule: digits.induct)
  case (1 n)
  show ?case
  proof (cases "n < 10")
    case True
    then show ?thesis using 1 by (subst digits.simps) simp
  next
    case False
    obtain j where k: "k = Suc j" using "1.prems"(1) by (cases k) auto
    then have j: "k = Suc j" "0 < j" using "1.prems"(2) False by (cases j; simp)+
    then have "n div 10 < 10 ^ j" using "1.prems" by (simp add: less_mult_imp_div_less mult.commute)
    with 1(1) [OF False j(2)] show ?thesis using False j by (subst digits.simps) simp
  qed
qed

section \<open>Senders\<close>

definition MAX_SIGNAL_BUF :: nat where "MAX_SIGNAL_BUF = 1000"
definition MAX_SOCK_BUF :: nat where "MAX_SOCK_BUF = 256"

abbreviation A_nat :: "nat \<Rightarrow> arg" where "A_nat n \<equiv> A_int (int n)"

text \<open>\<open>int\<close> parameters are integers, unsigned ones natural numbers.\<close>

definition log_prefetch_msg :: "int \<Rightarrow> nat \<Rightarrow> nat \<Rightarrow> nat \<Rightarrow> nat \<Rightarrow> nat \<Rightarrow> int \<Rightarrow> int \<Rightarrow> nat \<Rightarrow> string" where
  "log_prefetch_msg libfs_id seqn start n n_blk base_addr reset_meta is_fsync ack_flag =
     sprintf (fmt ''|lp |%d|%lu|%lu|%u|%lu|%lu|%d|%d|%lu|'')
       [A_int libfs_id, A_nat seqn, A_nat start, A_nat n, A_nat n_blk, A_nat base_addr, A_int reset_meta, A_int is_fsync, A_nat ack_flag]"

definition send_fetch_loghdr_rpc_to_next_replica :: "int \<Rightarrow> nat \<Rightarrow> nat \<Rightarrow> nat \<Rightarrow> nat \<Rightarrow> nat \<Rightarrow> nat \<Rightarrow> string" where
  "send_fetch_loghdr_rpc_to_next_replica libfs_id seqn loghdr_buf n_loghdrs digest_blk_cnt start done_addr =
     sprintf (fmt ''|fh |%d|%lu|%lu|%u|%lu|%lu|%lu|'')
       [A_int libfs_id, A_nat seqn, A_nat loghdr_buf, A_nat n_loghdrs, A_nat digest_blk_cnt, A_nat start, A_nat done_addr]"

definition send_fetch_log_rpc_to_next_replica ::
  "int \<Rightarrow> nat \<Rightarrow> nat \<Rightarrow> nat \<Rightarrow> nat \<Rightarrow> nat \<Rightarrow> nat \<Rightarrow> int \<Rightarrow> nat \<Rightarrow> string" where
  "send_fetch_log_rpc_to_next_replica libfs_id seqn log_buf_addr log_size orig_size start done_addr fsync ack_addr =
     sprintf (fmt ''|fl |%d|%lu|%lu|%lu|%lu|%lu|%lu|%d|%lu|'')
       [A_int libfs_id, A_nat seqn, A_nat log_buf_addr, A_nat log_size, A_nat orig_size, A_nat start, A_nat done_addr, A_int fsync, A_nat ack_addr]"

definition send_copy_done_ack_to_last_replica :: "int \<Rightarrow> nat \<Rightarrow> nat \<Rightarrow> nat \<Rightarrow> nat \<Rightarrow> int \<Rightarrow> string" where
  "send_copy_done_ack_to_last_replica libfs_id seqn start log_size orig_log_size fsync =
     sprintf (fmt ''|cd |%d|%lu|%lu|%lu|%lu|%d'')
       [A_int libfs_id, A_nat seqn, A_nat start, A_nat log_size, A_nat orig_log_size, A_int fsync]"

definition send_persist_log_req_to_last_replica_host :: "int \<Rightarrow> nat \<Rightarrow> nat \<Rightarrow> nat \<Rightarrow> nat \<Rightarrow> nat \<Rightarrow> nat \<Rightarrow> string" where
  "send_persist_log_req_to_last_replica_host libfs_id seqn area_begin area_end start n_log_blks ack_addr =
     sprintf (fmt ''|pl |%d|%lu|%lu|%lu|%lu|%lu|%lu|'')
       [A_int libfs_id, A_nat seqn, A_nat area_begin, A_nat area_end, A_nat start, A_nat n_log_blks, A_nat ack_addr]"

definition memcpy_req_msg :: "int \<Rightarrow> nat \<Rightarrow> nat \<Rightarrow> nat \<Rightarrow> nat \<Rightarrow> nat \<Rightarrow> int \<Rightarrow> nat \<Rightarrow> int \<Rightarrow> string" where
  "memcpy_req_msg libfs_id first_seqn entries start n_orig_loghdrs n_orig_blks reset_meta ack_bit sge_count =
     sprintf (fmt ''|mr |%d|%lu|%lu|%lu|%u|%lu|%d|%lu|%d|'')
       [A_int libfs_id, A_nat first_seqn, A_nat entries, A_nat start, A_nat n_orig_loghdrs, A_nat n_orig_blks, A_int reset_meta,
        A_nat ack_bit, A_int sge_count]"

definition batched_publish_ack_msg :: "int \<Rightarrow> nat \<Rightarrow> nat \<Rightarrow> nat \<Rightarrow> nat \<Rightarrow> int \<Rightarrow> int \<Rightarrow> string" where
  "batched_publish_ack_msg libfs_id fseqn start n_digested n_digested_blks reset_meta sge_cnt =
     sprintf (fmt ''|complete |%d|%lu|%lu|%u|%lu|%d|%d'')
       [A_int libfs_id, A_nat fseqn, A_nat start, A_nat n_digested, A_nat n_digested_blks, A_int reset_meta, A_int sge_cnt]"

text \<open>A LibFS asks to publish the rest without a sequence number; SmartNICs forward it with one.\<close>

definition request_publish_remains :: "int \<Rightarrow> string" where
  "request_publish_remains self_id = sprintf (fmt ''|pr |%d|'') [A_int self_id]"

definition forward_publish_remains :: "int \<Rightarrow> nat \<Rightarrow> string" where
  "forward_publish_remains libfs_id seqn = sprintf (fmt ''|pr |%d|%lu|'') [A_int libfs_id, A_nat seqn]"

definition rpc_send_host_memcpy_buffer_addr :: "nat \<Rightarrow> string" where
  "rpc_send_host_memcpy_buffer_addr buf_addr = snprintf MAX_SIGNAL_BUF (fmt ''|ma |%lu|'') [A_nat buf_addr]"

definition rpc_request_host_memcpy_buffer_addr :: string where
  "rpc_request_host_memcpy_buffer_addr = snprintf MAX_SIGNAL_BUF (fmt ''|mb |'') []"

definition rpc_send_heartbeat :: "nat \<Rightarrow> string" where
  "rpc_send_heartbeat seqn = snprintf MAX_SIGNAL_BUF (fmt ''|hb |%lu|'') [A_nat seqn]"

definition rpc_send_pipeline_kernfs_meta_to_next_replica :: "nat \<Rightarrow> string" where
  "rpc_send_pipeline_kernfs_meta_to_next_replica flag_addr = snprintf MAX_SIGNAL_BUF (fmt ''|pk |%lu'') [A_nat flag_addr]"

definition reset_breakdown_timer_msg :: "int \<Rightarrow> string" where
  "reset_breakdown_timer_msg libfs_id = sprintf (fmt ''|tr |%d|'') [A_int libfs_id]"

definition print_breakdown_timer_msg :: "int \<Rightarrow> string" where
  "print_breakdown_timer_msg libfs_id = sprintf (fmt ''|tp |%d|'') [A_int libfs_id]"

definition rpc_bootstrap :: "nat \<Rightarrow> nat \<Rightarrow> string" where
  "rpc_bootstrap pid flag_addr = snprintf MAX_SIGNAL_BUF (fmt ''|bootstrap |%u|%lu'') [A_nat pid, A_nat flag_addr]"

definition rpc_bootstrap_response :: "nat \<Rightarrow> string" where
  "rpc_bootstrap_response peer_id = snprintf MAX_SIGNAL_BUF (fmt ''|bootstrap |%u'') [A_nat peer_id]"

text \<open>The address is cut to the 900 bytes of \<open>temp_str\<close>; the code has shorter ones.\<close>

definition rpc_register_log :: "int \<Rightarrow> nat \<Rightarrow> nat \<Rightarrow> string \<Rightarrow> string" where
  "rpc_register_log peer_id pid ack_bit ip =
     snprintf MAX_SIGNAL_BUF (fmt ''|peer |%d|%u|%lu|%s'') [A_int peer_id, A_nat pid, A_nat ack_bit, A_str (take 900 ip)]"

definition rpc_register_remote_libfs_peer :: "int \<Rightarrow> nat \<Rightarrow> nat \<Rightarrow> string \<Rightarrow> string" where
  "rpc_register_remote_libfs_peer peer_id pid ack_bit ip =
     snprintf MAX_SIGNAL_BUF (fmt ''|rp |%d|%u|%lu|%s'') [A_int peer_id, A_nat pid, A_nat ack_bit, A_str (take 900 ip)]"

definition rpcmsg_build_replicate :: "int \<Rightarrow> nat \<Rightarrow> nat \<Rightarrow> nat \<Rightarrow> int \<Rightarrow> int \<Rightarrow> int \<Rightarrow> int \<Rightarrow> nat \<Rightarrow> nat \<Rightarrow> string" where
  "rpcmsg_build_replicate libfs_id seqn n_log_blks n_log_hdrs ack persist steps inc_avail_ver end_blknr ack_bit =
     sprintf (fmt ''|repmsg |%d|%lu|%lu|%u|%d|%d|%d|%d|%lu|%lu|'')
       [A_int libfs_id, A_nat seqn, A_nat n_log_blks, A_nat n_log_hdrs, A_int ack, A_int persist, A_int steps, A_int inc_avail_ver,
        A_nat end_blknr, A_nat ack_bit]"

section \<open>Receivers\<close>

datatype rpc =
    Log_prefetch int nat nat nat nat nat int int nat
  | Fetch_loghdr int nat nat nat nat nat nat
  | Fetch_log int nat nat nat nat nat nat int nat
  | Copy_done int nat nat nat nat int
  | Persist_req int nat nat nat nat nat nat
  | Memcpy_req int nat nat nat nat nat int nat int
  | Publish_ack int nat nat nat nat int int
  | Publish_remains int nat
  | Memcpy_buf_addr nat
  | Req_memcpy_buf
  | Heartbeat nat
  | Pipeline_kernfs_meta nat
  | Timer_reset int
  | Timer_print int
  | Bootstrap nat nat
  | Bootstrap_ack nat
  | Register_log int nat nat string
  | Replicate int nat nat nat int int int int nat nat
  | Host_bootstrap nat
  | Other string

text \<open>
  What a variable holds after \<open>sscanf\<close>: \<open>k\<close> counts the conversions, the tag being number 0.
  Argument blocks from \<open>mlfs_zalloc\<close> are zero before.
\<close>

definition int_at :: "(nat \<Rightarrow> int) \<Rightarrow> arg list \<Rightarrow> nat \<Rightarrow> int" where
  "int_at mem vs k = (if k < length vs then (case vs ! k of A_int v \<Rightarrow> v | A_str t \<Rightarrow> mem k) else mem k)"

definition nat_at :: "(nat \<Rightarrow> int) \<Rightarrow> arg list \<Rightarrow> nat \<Rightarrow> nat" where
  "nat_at mem vs k = nat (int_at mem vs k)"

abbreviation zalloc :: "nat \<Rightarrow> int" where "zalloc \<equiv> \<lambda>_. 0"

definition str_at :: "string \<Rightarrow> arg list \<Rightarrow> nat \<Rightarrow> string" where
  "str_at mem vs k = (if k < length vs then (case vs ! k of A_int v \<Rightarrow> mem | A_str t \<Rightarrow> t) else mem)"

text \<open>The array \<open>cmd_hdr\<close> after reading the tag of a message into it.\<close>

definition cmd_hdr :: "string \<Rightarrow> string \<Rightarrow> string run" where
  "cmd_hdr stk s =
     (case sscanf (fmt ''|%s |'') s of
        A_str h # _ \<Rightarrow> if length h < 12 then Done (h @ CHR 0x00 # drop (Suc (length h)) stk) else Failed (OutOfBounds ''cmd_hdr'')
      | _ \<Rightarrow> Done stk)"

definition recv_log_prefetch :: "string \<Rightarrow> rpc" where
  "recv_log_prefetch s =
     (let vs = sscanf (fmt ''|%s |%d|%lu|%lu|%u|%lu|%lu|%d|%d|%lu'') s; i = int_at zalloc vs; n = nat_at zalloc vs
      in Log_prefetch (i 1) (n 2) (n 3) (n 4) (n 5) (n 6) (i 7) (i 8) (n 9))"

definition recv_fetch_loghdr :: "string \<Rightarrow> rpc" where
  "recv_fetch_loghdr s =
     (let vs = sscanf (fmt ''|%s |%d|%lu|%lu|%u|%lu|%lu|%lu'') s; i = int_at zalloc vs; n = nat_at zalloc vs
      in Fetch_loghdr (i 1) (n 2) (n 3) (n 4) (n 5) (n 6) (n 7))"

definition recv_fetch_log :: "string \<Rightarrow> rpc" where
  "recv_fetch_log s =
     (let vs = sscanf (fmt ''|%s |%d|%lu|%lu|%lu|%lu|%lu|%lu|%d|%lu'') s; i = int_at zalloc vs; n = nat_at zalloc vs
      in Fetch_log (i 1) (n 2) (n 3) (n 4) (n 5) (n 6) (n 7) (i 8) (n 9))"

definition recv_log_copy_done :: "string \<Rightarrow> rpc" where
  "recv_log_copy_done s =
     (let vs = sscanf (fmt ''|%s |%d|%lu|%lu|%lu|%lu|%d'') s; i = int_at zalloc vs; n = nat_at zalloc vs
      in Copy_done (i 1) (n 2) (n 3) (n 4) (n 5) (i 6))"

definition recv_publish_remains :: "(nat \<Rightarrow> int) \<Rightarrow> string \<Rightarrow> rpc" where
  "recv_publish_remains mem s =
     (let vs = sscanf (fmt ''|%s |%d|%lu'') s in Publish_remains (int_at mem vs 1) (nat_at mem vs 2))"

definition recv_nat :: "(nat \<Rightarrow> int) \<Rightarrow> string \<Rightarrow> nat" where
  "recv_nat mem s = nat_at mem (sscanf (fmt ''|%s |%lu'') s) 1"

definition recv_libfs_id :: "(nat \<Rightarrow> int) \<Rightarrow> string \<Rightarrow> int" where
  "recv_libfs_id mem s = int_at mem (sscanf (fmt ''|%s |%d'') s) 1"

definition recv_id :: "(nat \<Rightarrow> int) \<Rightarrow> string \<Rightarrow> nat" where
  "recv_id mem s = nat_at mem (sscanf (fmt ''|%s |%u'') s) 1"

definition recv_bootstrap :: "(nat \<Rightarrow> int) \<Rightarrow> string \<Rightarrow> rpc" where
  "recv_bootstrap mem s =
     (let vs = sscanf (fmt ''|%s |%u|%lu'') s in Bootstrap (nat_at mem vs 1) (nat_at mem vs 2))"

definition recv_register_log :: "(nat \<Rightarrow> int) \<Rightarrow> string \<Rightarrow> string \<Rightarrow> rpc" where
  "recv_register_log mem mem_ip s =
     (let vs = sscanf (fmt ''|%s |%d|%u|%lu|%s'') s
      in Register_log (int_at mem vs 1) (nat_at mem vs 2) (nat_at mem vs 3) (str_at mem_ip vs 4))"

definition recv_memcpy_req :: "string \<Rightarrow> rpc" where
  "recv_memcpy_req s =
     (let vs = sscanf (fmt ''|%s |%d|%lu|%lu|%lu|%u|%lu|%d|%lu|%d'') s; i = int_at zalloc vs; n = nat_at zalloc vs
      in Memcpy_req (i 1) (n 2) (n 3) (n 4) (n 5) (n 6) (i 7) (n 8) (i 9))"

definition recv_persist_log :: "string \<Rightarrow> rpc" where
  "recv_persist_log s =
     (let vs = sscanf (fmt ''|%s |%d|%lu|%lu|%lu|%lu|%lu|%lu'') s; i = int_at zalloc vs; n = nat_at zalloc vs
      in Persist_req (i 1) (n 2) (n 3) (n 4) (n 5) (n 6) (n 7))"

definition rpcmsg_parse_replicate :: "string \<Rightarrow> rpc" where
  "rpcmsg_parse_replicate s =
     (let vs = sscanf (fmt ''|%s |%d|%lu|%lu|%u|%d|%d|%d|%d|%lu|%lu|'') s; i = int_at zalloc vs; n = nat_at zalloc vs
      in Replicate (i 1) (n 2) (n 3) (n 4) (i 5) (i 6) (i 7) (i 8) (n 9) (n 10))"

definition recv_publish_ack :: "(nat \<Rightarrow> int) \<Rightarrow> string \<Rightarrow> rpc" where
  "recv_publish_ack mem s =
     (let vs = sscanf (fmt ''|%s |%d|%lu|%lu|%u|%lu|%d|%d|'') s; i = int_at mem vs; n = nat_at mem vs
      in Publish_ack (i 1) (n 2) (n 3) (n 4) (n 5) (i 6) (i 7))"

text \<open>The dispatchers. \<open>None\<close> stands for a message that is taken and dropped.\<close>

definition is_tag :: "string \<Rightarrow> char \<Rightarrow> char \<Rightarrow> bool" where
  "is_tag cmd c d \<longleftrightarrow> cmd ! 0 = c \<and> cmd ! 1 = d"

fun fetch_log_fsync :: "rpc \<Rightarrow> int" where
  "fetch_log_fsync (Fetch_log _ _ _ _ _ _ _ fsync _) = fsync"
| "fetch_log_fsync _ = 0"

definition nic_signal_callback :: "string \<Rightarrow> (nat \<Rightarrow> int) \<Rightarrow> string \<Rightarrow> string \<Rightarrow> rpc option run" where
  "nic_signal_callback stk mem mem_ip s = run_bind (cmd_hdr stk s) (\<lambda>cmd.
     if is_tag cmd CHR ''c'' CHR ''d'' then Done (Some (recv_log_copy_done s))
     else if is_tag cmd CHR ''f'' CHR ''h'' then Done (Some (recv_fetch_loghdr s))
     else if is_tag cmd CHR ''f'' CHR ''l''
     then mlfs_assert (fetch_log_fsync (recv_fetch_log s) = 0) ''!fsync'' (Done (Some (recv_fetch_log s)))
     else if is_tag cmd CHR ''h'' CHR ''b'' then Done (Some (Heartbeat (recv_nat mem s)))
     else if is_tag cmd CHR ''l'' CHR ''p'' then Done (Some (recv_log_prefetch s))
     else if is_tag cmd CHR ''m'' CHR ''a'' then Done (Some (Memcpy_buf_addr (recv_nat mem s)))
     else if is_tag cmd CHR ''p'' CHR ''k'' then Done (Some (Pipeline_kernfs_meta (recv_nat zalloc s)))
     else if is_tag cmd CHR ''p'' CHR ''r'' then Done (Some (recv_publish_remains mem s))
     else if is_tag cmd CHR ''t'' CHR ''p'' then Done (Some (Timer_print (recv_libfs_id mem s)))
     else if is_tag cmd CHR ''t'' CHR ''r'' then Done (Some (Timer_reset (recv_libfs_id mem s)))
     else if cmd ! 0 = CHR ''l'' \<or> cmd ! 0 = CHR ''m'' then Failed (Panic ''invalid code path'')
     else if cmd ! 0 = CHR ''b'' then Done (Some (recv_bootstrap mem s))
     else if cmd ! 0 = CHR ''p'' then Done (Some (recv_register_log mem mem_ip s))
     else if cmd ! 0 = CHR ''a'' then Done None
     else if is_tag cmd CHR ''n'' CHR ''r'' then Done (Some (Other s))
     else Failed (Panic ''unidentified remote signal''))"


definition host_signal_callback :: "string \<Rightarrow> (nat \<Rightarrow> int) \<Rightarrow> string \<Rightarrow> string \<Rightarrow> rpc option run" where
  "host_signal_callback stk mem mem_ip s = run_bind (cmd_hdr stk s) (\<lambda>cmd.
     if is_tag cmd CHR ''m'' CHR ''b'' then Done (Some Req_memcpy_buf)
     else if is_tag cmd CHR ''m'' CHR ''r'' then Done (Some (recv_memcpy_req s))
     else if is_tag cmd CHR ''p'' CHR ''l'' then Done (Some (recv_persist_log s))
     else if is_tag cmd CHR ''t'' CHR ''p'' then Done (Some (Timer_print (recv_libfs_id mem s)))
     else if is_tag cmd CHR ''t'' CHR ''r'' then Done (Some (Timer_reset (recv_libfs_id mem s)))
     else if cmd ! 0 = CHR ''d'' \<or> cmd ! 0 = CHR ''c'' then Done (Some (Other s))
     else if cmd ! 0 = CHR ''i'' then Failed (Assertion ''0'')
     else if cmd ! 0 = CHR ''r'' then Done (if cmd ! 3 = CHR ''m'' then Some (rpcmsg_parse_replicate s) else None)
     else if cmd ! 0 = CHR ''l'' \<or> cmd ! 0 = CHR ''m'' then Failed (Panic ''invalid code path'')
     else if cmd ! 0 = CHR ''b'' then Done (Some (Host_bootstrap (recv_id mem s)))
     else if cmd ! 0 = CHR ''p'' then Done (Some (recv_register_log mem mem_ip s))
     else if cmd ! 0 = CHR ''a'' then Done None
     else if is_tag cmd CHR ''n'' CHR ''r'' then Done (Some (Other s))
     else Failed (Panic ''unidentified remote signal''))"

text \<open>\<open>local\<close> tells whether the sender is the KernFS of the same machine.\<close>

definition libfs_signal_callback :: "string \<Rightarrow> (nat \<Rightarrow> int) \<Rightarrow> bool \<Rightarrow> string \<Rightarrow> rpc option run" where
  "libfs_signal_callback stk mem local s = run_bind (cmd_hdr stk s) (\<lambda>cmd.
     if is_tag cmd CHR ''l'' CHR ''a'' then Done None
     else if cmd ! 0 = CHR ''b'' then Done (Some (Bootstrap_ack (recv_id mem s)))
     else if cmd ! 0 = CHR ''c'' then mlfs_assert local ''sender_id == g_kernfs_id'' (Done (Some (recv_publish_ack mem s)))
     else if cmd ! 0 = CHR ''l'' \<or> cmd ! 0 = CHR ''f'' \<or> cmd ! 0 = CHR ''e'' then Failed (Panic ''invalid code path'')
     else if cmd ! 0 = CHR ''i'' then Failed (Assertion ''0'')
     else if is_tag cmd CHR ''n'' CHR ''r''
     then if takeWhile (\<lambda>c. c \<noteq> CHR 0x00) cmd = ''nrresp'' then Done None else Failed (Panic ''unidentified nicrpc msg'')
     else Failed (Panic ''unidentified remote signal''))"

section \<open>Messages arrive as they were sent\<close>

definition i32 :: "int \<Rightarrow> bool" where "i32 v \<longleftrightarrow> - (2 ^ 31) \<le> v \<and> v < 2 ^ 31"
definition u32 :: "nat \<Rightarrow> bool" where "u32 n \<longleftrightarrow> n < 2 ^ 32"
definition u64 :: "nat \<Rightarrow> bool" where "u64 n \<longleftrightarrow> n < 2 ^ 64"

definition ip_ok :: "string \<Rightarrow> bool" where
  "ip_ok ip \<longleftrightarrow> ip \<noteq> [] \<and> length ip \<le> 45 \<and> (\<forall>c \<in> set ip. \<not> isspace c)"

text \<open>Messages whose fields have their C types.\<close>

fun rpc_ok :: "rpc \<Rightarrow> bool" where
  "rpc_ok (Log_prefetch i a b c d e f g h) \<longleftrightarrow> i32 i \<and> u64 a \<and> u64 b \<and> u32 c \<and> u64 d \<and> u64 e \<and> i32 f \<and> i32 g \<and> u64 h"
| "rpc_ok (Fetch_loghdr i a b c d e f) \<longleftrightarrow> i32 i \<and> u64 a \<and> u64 b \<and> u32 c \<and> u64 d \<and> u64 e \<and> u64 f"
| "rpc_ok (Fetch_log i a b c d e f g h) \<longleftrightarrow> i32 i \<and> u64 a \<and> u64 b \<and> u64 c \<and> u64 d \<and> u64 e \<and> u64 f \<and> i32 g \<and> u64 h"
| "rpc_ok (Copy_done i a b c d e) \<longleftrightarrow> i32 i \<and> u64 a \<and> u64 b \<and> u64 c \<and> u64 d \<and> i32 e"
| "rpc_ok (Persist_req i a b c d e f) \<longleftrightarrow> i32 i \<and> u64 a \<and> u64 b \<and> u64 c \<and> u64 d \<and> u64 e \<and> u64 f"
| "rpc_ok (Memcpy_req i a b c d e f g h) \<longleftrightarrow> i32 i \<and> u64 a \<and> u64 b \<and> u64 c \<and> u32 d \<and> u64 e \<and> i32 f \<and> u64 g \<and> i32 h"
| "rpc_ok (Publish_ack i a b c d e f) \<longleftrightarrow> i32 i \<and> u64 a \<and> u64 b \<and> u32 c \<and> u64 d \<and> i32 e \<and> i32 f"
| "rpc_ok (Publish_remains i a) \<longleftrightarrow> i32 i \<and> u64 a"
| "rpc_ok (Memcpy_buf_addr a) \<longleftrightarrow> u64 a"
| "rpc_ok Req_memcpy_buf \<longleftrightarrow> True"
| "rpc_ok (Heartbeat a) \<longleftrightarrow> u64 a"
| "rpc_ok (Pipeline_kernfs_meta a) \<longleftrightarrow> u64 a"
| "rpc_ok (Timer_reset i) \<longleftrightarrow> i32 i"
| "rpc_ok (Timer_print i) \<longleftrightarrow> i32 i"
| "rpc_ok (Bootstrap a b) \<longleftrightarrow> u32 a \<and> u64 b"
| "rpc_ok (Bootstrap_ack a) \<longleftrightarrow> u32 a"
| "rpc_ok (Register_log i a b ip) \<longleftrightarrow> i32 i \<and> u32 a \<and> u64 b \<and> ip_ok ip"
| "rpc_ok (Replicate i a b c d e f g h j) \<longleftrightarrow> i32 i \<and> u64 a \<and> u64 b \<and> u32 c \<and> i32 d \<and> i32 e \<and> i32 f \<and> i32 g \<and> u64 h \<and> u64 j"
| "rpc_ok (Host_bootstrap a) \<longleftrightarrow> False"
| "rpc_ok (Other s) \<longleftrightarrow> False"

fun rpc_text :: "rpc \<Rightarrow> string" where
  "rpc_text (Log_prefetch i a b c d e f g h) = log_prefetch_msg i a b c d e f g h"
| "rpc_text (Fetch_loghdr i a b c d e f) = send_fetch_loghdr_rpc_to_next_replica i a b c d e f"
| "rpc_text (Fetch_log i a b c d e f g h) = send_fetch_log_rpc_to_next_replica i a b c d e f g h"
| "rpc_text (Copy_done i a b c d e) = send_copy_done_ack_to_last_replica i a b c d e"
| "rpc_text (Persist_req i a b c d e f) = send_persist_log_req_to_last_replica_host i a b c d e f"
| "rpc_text (Memcpy_req i a b c d e f g h) = memcpy_req_msg i a b c d e f g h"
| "rpc_text (Publish_ack i a b c d e f) = batched_publish_ack_msg i a b c d e f"
| "rpc_text (Publish_remains i a) = forward_publish_remains i a"
| "rpc_text (Memcpy_buf_addr a) = rpc_send_host_memcpy_buffer_addr a"
| "rpc_text Req_memcpy_buf = rpc_request_host_memcpy_buffer_addr"
| "rpc_text (Heartbeat a) = rpc_send_heartbeat a"
| "rpc_text (Pipeline_kernfs_meta a) = rpc_send_pipeline_kernfs_meta_to_next_replica a"
| "rpc_text (Timer_reset i) = reset_breakdown_timer_msg i"
| "rpc_text (Timer_print i) = print_breakdown_timer_msg i"
| "rpc_text (Bootstrap a b) = rpc_bootstrap a b"
| "rpc_text (Bootstrap_ack a) = rpc_bootstrap_response a"
| "rpc_text (Register_log i a b ip) = rpc_register_log i a b ip"
| "rpc_text (Replicate i a b c d e f g h j) = rpcmsg_build_replicate i a b c d e f g h j"
| "rpc_text (Host_bootstrap a) = []"
| "rpc_text (Other s) = s"

datatype endpoint = Nic | Nic_low_lat | Host | Libfs

text \<open>Where a message goes. Requests of an \<open>fsync\<close> take the low-latency channel.\<close>

fun dest :: "rpc \<Rightarrow> endpoint" where
  "dest (Log_prefetch i a b c d e f g h) = (if g \<noteq> 0 then Nic_low_lat else Nic)"
| "dest (Fetch_log i a b c d e f g h) = (if g \<noteq> 0 then Nic_low_lat else Nic)"
| "dest (Persist_req i a b c d e f) = Host"
| "dest (Memcpy_req i a b c d e f g h) = Host"
| "dest Req_memcpy_buf = Host"
| "dest (Replicate i a b c d e f g h j) = Host"
| "dest (Publish_ack i a b c d e f) = Libfs"
| "dest (Bootstrap_ack a) = Libfs"
| "dest m = Nic"


text \<open>Scanning a number that was printed, when no digit follows.\<close>

definition num_end :: "string \<Rightarrow> bool" where
  "num_end s \<longleftrightarrow> (case s of [] \<Rightarrow> True | c # _ \<Rightarrow> \<not> isdigit c)"

lemma num_end_simps [simp]: "num_end []" "num_end (CHR ''|'' # s)"
  by (simp_all add: num_end_def isdigit_def)

fun in_range :: "conv \<Rightarrow> int \<Rightarrow> bool" where
  "in_range Conv_s v \<longleftrightarrow> False"
| "in_range Conv_d v \<longleftrightarrow> i32 v"
| "in_range Conv_u v \<longleftrightarrow> 0 \<le> v \<and> v < 2 ^ 32"
| "in_range Conv_lu v \<longleftrightarrow> 0 \<le> v \<and> v < 2 ^ 64"

lemma takeWhile_digits:
  assumes "num_end s"
  shows "takeWhile isdigit (digits n @ s) = digits n" "dropWhile isdigit (digits n @ s) = s"
proof -
  have "takeWhile isdigit s = []" "dropWhile isdigit s = s" using assms by (auto simp: num_end_def split: list.splits)
  then show "takeWhile isdigit (digits n @ s) = digits n" "dropWhile isdigit (digits n @ s) = s"
    using digits_all [of n] by (simp_all add: takeWhile_append dropWhile_append)
qed

lemma digit_not_special:
  assumes "isdigit c"
  shows "\<not> isspace c" "c \<noteq> CHR ''-''" "c \<noteq> CHR ''+''"
  using assms by (auto simp: isdigit_def isspace_def)

lemma sscanf_num:
  assumes "num_end s" and "in_range k v"
  shows "sscanf (Conv k # is) (print_dec v @ s) = A_int v # sscanf is s"
proof -
  obtain c cs where n: "digits (nat \<bar>v\<bar>) = c # cs" by (cases "digits (nat \<bar>v\<bar>)") auto
  have c: "isdigit c" using digits_all [of "nat \<bar>v\<bar>"] n by simp
  have k: "k \<noteq> Conv_s" using assms(2) by auto
  have cv: "conv_val k (v < 0) (nat \<bar>v\<bar>) = Some v" using assms(2) by (cases k) (auto simp: i32_def)
  have p: "print_dec v = (if v < 0 then CHR ''-'' # digits (nat \<bar>v\<bar>) else digits (nat \<bar>v\<bar>))" by (simp add: print_dec_def)
  have w: "dropWhile isspace (print_dec v @ s) = print_dec v @ s"
    using digit_not_special [OF c] n by (auto simp: p isspace_def)
  have "scan_sign (print_dec v @ s) = (v < 0, digits (nat \<bar>v\<bar>) @ s)"
    using digit_not_special [OF c] n by (auto simp: p scan_sign_def)
  then show ?thesis using k cv takeWhile_digits [OF assms(1)] by (simp add: w dec_val_digits)
qed

declare sscanf.simps(3) [simp del]

lemma sscanf_str:
  "sscanf (Conv Conv_s # is) s =
     (let s1 = dropWhile isspace s; w = takeWhile (\<lambda>c. \<not> isspace c) s1
      in if w = [] then [] else A_str w # sscanf is (dropWhile (\<lambda>c. \<not> isspace c) s1))"
  by (simp add: sscanf.simps(3) Let_def)

lemma in_range_nat [simp]: "in_range Conv_u (int n) \<longleftrightarrow> u32 n" "in_range Conv_lu (int n) \<longleftrightarrow> u64 n"
  by (simp_all add: u32_def u64_def zless_nat_eq_int_zless)

declare in_range.simps(3,4) [simp del]

lemmas scan_simps = sscanf_str sscanf_num sscanf_num [where s = "[]", simplified] isspace_def int_at_def nat_at_def Let_def

lemmas send_defs = log_prefetch_msg_def send_fetch_loghdr_rpc_to_next_replica_def send_fetch_log_rpc_to_next_replica_def
  send_copy_done_ack_to_last_replica_def send_persist_log_req_to_last_replica_host_def memcpy_req_msg_def batched_publish_ack_msg_def
  forward_publish_remains_def rpc_send_host_memcpy_buffer_addr_def rpc_request_host_memcpy_buffer_addr_def rpc_send_heartbeat_def
  rpc_send_pipeline_kernfs_meta_to_next_replica_def reset_breakdown_timer_msg_def print_breakdown_timer_msg_def rpc_bootstrap_def
  rpc_bootstrap_response_def rpc_register_log_def rpcmsg_build_replicate_def

lemma i32_0 [simp]: "i32 0"
  by (simp add: i32_def)

lemma length_print_dec:
  "i32 v \<Longrightarrow> length (print_dec v) \<le> 11" "u32 n \<Longrightarrow> length (print_dec (int n)) \<le> 10" "u64 n \<Longrightarrow> length (print_dec (int n)) \<le> 20"
proof -
  have "nat \<bar>v\<bar> < 10 ^ 10" if "i32 v" using that by (auto simp: i32_def)
  then show "i32 v \<Longrightarrow> length (print_dec v) \<le> 11" using length_digits [of 10 "nat \<bar>v\<bar>"] by (cases "v < 0") (simp_all add: print_dec_def)
  show "u32 n \<Longrightarrow> length (print_dec (int n)) \<le> 10" using length_digits [of 10 n] by (simp add: print_dec_def u32_def)
  show "u64 n \<Longrightarrow> length (print_dec (int n)) \<le> 20" using length_digits [of 20 n] by (simp add: print_dec_def u64_def)
qed

lemma snprintf_fits: "length (sprintf is as) < n \<Longrightarrow> snprintf n is as = sprintf is as"
  by (simp add: snprintf_def)

lemma text_length: "rpc_ok m \<Longrightarrow> length (rpc_text m) < MAX_SOCK_BUF"
  by (cases m) (auto simp: send_defs snprintf_def MAX_SOCK_BUF_def ip_ok_def dest!: length_print_dec)

lemma recv_texts:
  "rpc_ok (Log_prefetch i a b c d e f g h) \<Longrightarrow> recv_log_prefetch (log_prefetch_msg i a b c d e f g h) = Log_prefetch i a b c d e f g h"
  "rpc_ok (Fetch_loghdr i a b c d e k) \<Longrightarrow>
     recv_fetch_loghdr (send_fetch_loghdr_rpc_to_next_replica i a b c d e k) = Fetch_loghdr i a b c d e k"
  "rpc_ok (Fetch_log i a b c d e k g h) \<Longrightarrow>
     recv_fetch_log (send_fetch_log_rpc_to_next_replica i a b c d e k g h) = Fetch_log i a b c d e k g h"
  "rpc_ok (Copy_done i a b c d f) \<Longrightarrow> recv_log_copy_done (send_copy_done_ack_to_last_replica i a b c d f) = Copy_done i a b c d f"
  "rpc_ok (Persist_req i a b c d e k) \<Longrightarrow>
     recv_persist_log (send_persist_log_req_to_last_replica_host i a b c d e k) = Persist_req i a b c d e k"
  "rpc_ok (Memcpy_req i a b c d e f h g) \<Longrightarrow> recv_memcpy_req (memcpy_req_msg i a b c d e f h g) = Memcpy_req i a b c d e f h g"
  "rpc_ok (Publish_ack i a b c d f g) \<Longrightarrow> recv_publish_ack mem (batched_publish_ack_msg i a b c d f g) = Publish_ack i a b c d f g"
  "rpc_ok (Publish_remains i a) \<Longrightarrow> recv_publish_remains mem (forward_publish_remains i a) = Publish_remains i a"
  "rpc_ok (Replicate i a b c f g i' j h k) \<Longrightarrow>
     rpcmsg_parse_replicate (rpcmsg_build_replicate i a b c f g i' j h k) = Replicate i a b c f g i' j h k"
  by (simp_all add: send_defs recv_log_prefetch_def recv_fetch_loghdr_def recv_fetch_log_def recv_log_copy_done_def recv_persist_log_def
      recv_memcpy_req_def recv_publish_ack_def recv_publish_remains_def rpcmsg_parse_replicate_def scan_simps)





lemma cmd_texts:
  "cmd_hdr stk (log_prefetch_msg i a b c d e f g h) = Done (''lp'' @ CHR 0x00 # drop 3 stk)"
  "cmd_hdr stk (send_fetch_loghdr_rpc_to_next_replica i a b c d e k) = Done (''fh'' @ CHR 0x00 # drop 3 stk)"
  "cmd_hdr stk (send_fetch_log_rpc_to_next_replica i a b c d e k g h) = Done (''fl'' @ CHR 0x00 # drop 3 stk)"
  "cmd_hdr stk (send_copy_done_ack_to_last_replica i a b c d f) = Done (''cd'' @ CHR 0x00 # drop 3 stk)"
  "cmd_hdr stk (send_persist_log_req_to_last_replica_host i a b c d e k) = Done (''pl'' @ CHR 0x00 # drop 3 stk)"
  "cmd_hdr stk (memcpy_req_msg i a b c d e f h g) = Done (''mr'' @ CHR 0x00 # drop 3 stk)"
  "cmd_hdr stk (batched_publish_ack_msg i a b c d f g) = Done (''complete'' @ CHR 0x00 # drop 9 stk)"
  "cmd_hdr stk (forward_publish_remains i a) = Done (''pr'' @ CHR 0x00 # drop 3 stk)"
  "cmd_hdr stk (reset_breakdown_timer_msg i) = Done (''tr'' @ CHR 0x00 # drop 3 stk)"
  "cmd_hdr stk (print_breakdown_timer_msg i) = Done (''tp'' @ CHR 0x00 # drop 3 stk)"
  "cmd_hdr stk (rpcmsg_build_replicate i a b c f g i' j h k) = Done (''repmsg'' @ CHR 0x00 # drop 7 stk)"
  "cmd_hdr stk rpc_request_host_memcpy_buffer_addr = Done (''mb'' @ CHR 0x00 # drop 3 stk)"
  by (simp_all add: cmd_hdr_def send_defs snprintf_def MAX_SIGNAL_BUF_def scan_simps) (simp_all add: numeral_eq_Suc)



text \<open>Every message fits the smallest buffer a sender prints into, and its tag fits \<open>cmd_hdr\<close> (previous
  property).\<close>

theorem rpc_text_fits: "rpc_ok m \<Longrightarrow> length (rpc_text m) < MAX_SOCK_BUF"
  by (rule text_length)

text \<open>C39. The registration of a remote LibFS with the host is dropped. A SmartNIC that is the last of the
  chain sends it when data is persisted by cache-line flushes, and waits for the acknowledgement.
  The host takes messages that start with \<open>r\<close> for replication messages if the fourth byte of
  \<open>cmd_hdr\<close> is \<open>m\<close>; the tag \<open>rp\<close> does not write that byte, and with any other value in it
  the message is ignored.\<close>

theorem register_remote_dropped:
  assumes "stk ! 3 \<noteq> CHR ''m''" and "length stk = 12"
  shows "host_signal_callback stk mem mem_ip (rpc_register_remote_libfs_peer i a b ip) = Done None"
proof -
  have "cmd_hdr stk (rpc_register_remote_libfs_peer i a b ip) = Done (''rp'' @ CHR 0x00 # drop 3 stk)"
    by (simp add: cmd_hdr_def rpc_register_remote_libfs_peer_def snprintf_def MAX_SIGNAL_BUF_def scan_simps) (simp add: numeral_eq_Suc)
  moreover have "drop 3 stk ! 0 = stk ! 3" using assms(2) by simp
  ultimately show ?thesis using assms(1) by (simp add: host_signal_callback_def is_tag_def nth_Cons_numeral)
qed

text \<open>C40. A SmartNIC reads a sequence number that a LibFS does not send. The request of a LibFS to publish
  the rest has one field, the receiver scans two, and the second keeps what was on the
  stack; it is forwarded to the next replica.\<close>

theorem publish_remains_seqn_indeterminate:
  assumes "i32 i"
  shows "nic_signal_callback stk mem mem_ip (request_publish_remains i) = Done (Some (Publish_remains i (nat (mem 2))))"
proof -
  have "cmd_hdr stk (request_publish_remains i) = Done (''pr'' @ CHR 0x00 # drop 3 stk)"
    by (simp add: cmd_hdr_def request_publish_remains_def scan_simps) (simp add: numeral_eq_Suc)
  moreover have "recv_publish_remains mem (request_publish_remains i) = Publish_remains i (nat (mem 2))"
    using assms by (simp add: recv_publish_remains_def request_publish_remains_def scan_simps) (simp add: sscanf.simps(3) scan_sign_def)
  ultimately show ?thesis by (simp add: nic_signal_callback_def is_tag_def)
qed

section \<open>Publishing over the wire\<close>

text \<open>The messages for a copy request and its acknowledgement, and what the receivers make of them.\<close>

definition c_bool :: "bool \<Rightarrow> int" where "c_bool b = (if b then 1 else 0)"

lemma c_bool_simps [simp]: "i32 (c_bool b)" "c_bool b = 0 \<longleftrightarrow> \<not> b"
  by (simp_all add: c_bool_def i32_def)

definition memcpy_req_text :: "nat \<Rightarrow> mc_arg \<Rightarrow> string" where
  "memcpy_req_text ack_bit a = memcpy_req_msg (int (mc_libfs_id a)) (mc_fetch_seqn a) (mc_n_memcpy_entries a) (mc_digest_start_blknr a)
     (mc_n_digested a) (mc_n_digested_blks a) (c_bool (mc_reset_meta a)) ack_bit (int (mc_sge_cnt a))"

definition publish_ack_text :: "mc_arg \<Rightarrow> string" where
  "publish_ack_text a = batched_publish_ack_msg (int (mc_libfs_id a)) (mc_fetch_seqn a) (mc_digest_start_blknr a) (mc_n_digested a)
     (mc_n_digested_blks a) (c_bool (mc_reset_meta a)) (int (mc_sge_cnt a))"

fun mc_of_rpc :: "rpc \<Rightarrow> mc_arg option" where
  "mc_of_rpc (Memcpy_req i a b c d e f g h) = Some \<lparr>mc_libfs_id = nat i, mc_fetch_seqn = a, mc_n_memcpy_entries = b,
     mc_digest_start_blknr = c, mc_n_digested = d, mc_n_digested_blks = e, mc_reset_meta = (f \<noteq> 0), mc_sge_cnt = nat h\<rparr>"
| "mc_of_rpc _ = None"

fun response_of_rpc :: "rpc \<Rightarrow> digest_response option" where
  "response_of_rpc (Publish_ack i a b c d e f) = Some \<lparr>dr_fetch_seqn = a, dr_digest_start_blknr = b, dr_n_digested = c,
     dr_n_digested_blks = d, dr_reset_meta = (e \<noteq> 0), dr_sge_cnt = nat f\<rparr>"
| "response_of_rpc _ = None"

definition mc_ok :: "mc_arg \<Rightarrow> bool" where
  "mc_ok a \<longleftrightarrow> i32 (int (mc_libfs_id a)) \<and> u64 (mc_fetch_seqn a) \<and> u64 (mc_n_memcpy_entries a) \<and> u64 (mc_digest_start_blknr a) \<and>
     u32 (mc_n_digested a) \<and> u64 (mc_n_digested_blks a) \<and> i32 (int (mc_sge_cnt a))"

text \<open>C20. A copy request that a SmartNIC sends reaches the host unchanged, and the acknowledgement that the
  host sends for it reaches the LibFS as the digest response of the request. So the publish
  pipeline, whose parts exchange these records, is what the processes do over the wire.\<close>

theorem publish_over_wire:
  assumes "mc_ok a" and "u64 ack_bit"
  shows "\<exists>m m'. host_signal_callback stk mem mem_ip (memcpy_req_text ack_bit a) = Done (Some m) \<and> mc_of_rpc m = Some a \<and>
    libfs_signal_callback stk' mem' True (publish_ack_text a) = Done (Some m') \<and> response_of_rpc m' = Some (publish_ack a)"
proof -
  let ?m = "Memcpy_req (int (mc_libfs_id a)) (mc_fetch_seqn a) (mc_n_memcpy_entries a) (mc_digest_start_blknr a)
     (mc_n_digested a) (mc_n_digested_blks a) (c_bool (mc_reset_meta a)) ack_bit (int (mc_sge_cnt a))"
  let ?m' = "Publish_ack (int (mc_libfs_id a)) (mc_fetch_seqn a) (mc_digest_start_blknr a) (mc_n_digested a)
     (mc_n_digested_blks a) (c_bool (mc_reset_meta a)) (int (mc_sge_cnt a))"
  have "rpc_ok ?m" "rpc_ok ?m'" using assms by (simp_all add: mc_ok_def)
  then have "host_signal_callback stk mem mem_ip (memcpy_req_text ack_bit a) = Done (Some ?m)"
    "libfs_signal_callback stk' mem' True (publish_ack_text a) = Done (Some ?m')"
    by (simp_all add: memcpy_req_text_def publish_ack_text_def host_signal_callback_def libfs_signal_callback_def is_tag_def
        mlfs_assert_def cmd_texts recv_texts)
  moreover have "mc_of_rpc ?m = Some a" "response_of_rpc ?m' = Some (publish_ack a)" by (simp_all add: publish_ack_def)
  ultimately show ?thesis by blast
qed

section \<open>Concrete messages\<close>


theorem rpc_text_fits_witness: "length (rpc_text (Copy_done 6 1 1001 4096 8192 1)) < MAX_SOCK_BUF"
  using rpc_text_fits [of "Copy_done 6 1 1001 4096 8192 1"] by (simp add: i32_def u64_def del: rpc_text.simps)

theorem register_remote_dropped_witness:
  "host_signal_callback ''abcdefghijkl'' (\<lambda>_. 0) [] (rpc_register_remote_libfs_peer 6 100 4096 ''10.0.0.1'') = Done None"
  using register_remote_dropped [of "''abcdefghijkl''" "\<lambda>_. 0" "[]" 6 100 4096 "''10.0.0.1''"] by simp

theorem publish_remains_seqn_indeterminate_witness:
  "nic_signal_callback ''abcdefghijkl'' (\<lambda>_. 99) [] (request_publish_remains 6) = Done (Some (Publish_remains 6 99))"
  using publish_remains_seqn_indeterminate [of 6 "''abcdefghijkl''" "\<lambda>_. 99" "[]"] by (simp add: i32_def)

definition demo_mc :: mc_arg where
  "demo_mc = \<lparr>mc_libfs_id = 6, mc_fetch_seqn = 1, mc_n_memcpy_entries = 2, mc_digest_start_blknr = 1001, mc_n_digested = 3,
     mc_n_digested_blks = 40, mc_reset_meta = True, mc_sge_cnt = 1\<rparr>"

theorem publish_over_wire_witness:
  "\<exists>m m'. host_signal_callback ''abcdefghijkl'' (\<lambda>_. 0) [] (memcpy_req_text 4096 demo_mc) = Done (Some m) \<and> mc_of_rpc m = Some demo_mc \<and>
    libfs_signal_callback ''abcdefghijkl'' (\<lambda>_. 0) True (publish_ack_text demo_mc) = Done (Some m') \<and>
    response_of_rpc m' = Some (publish_ack demo_mc)"
proof -
  have "mc_ok demo_mc" "u64 4096" by (simp_all add: demo_mc_def mc_ok_def i32_def u32_def u64_def)
  then show ?thesis by (rule publish_over_wire)
qed

end
