(* ===== verification/Stages.thy ===== *)
theory Stages
  imports DigestApply Messages FsyncAck Prefetch
begin

text \<open>
  The pipeline of the SmartNIC between a fetch request and the queue of copy lists.

  Models \<open>get_size\<close>, \<open>read_log_from_local_nvm\<close>, \<open>fetch_log_from_local_nvm_bg\<close> and
  \<open>fetch_log_from_primary_nic_dram_bg\<close> of \<open>kernfs/nic/fetch_log.c\<close>, \<open>coalesce_log\<close> of \<open>kernfs/nic/coalesce.c\<close>,
  \<open>compress_log_bg\<close> of \<open>kernfs/nic/compress.c\<close> (built without \<open>COMPRESS_LOG\<close>), \<open>build_loghdr_list\<close> and \<open>fetch_loghdrs\<close> of \<open>kernfs/nic/loghdr.c\<close>, \<open>build_memcpy_list\<close> of
  \<open>kernfs/nic/build_memcpy_list.c\<close> and \<open>persist_dirty_objects_nvm\<close> of \<open>kernfs/digest.c\<close>. A stage is a function from its
  argument to the arguments of the next stages, which the code puts into thread pools.

  A buffer of log blocks is a list with one element for each block: the block read as a log header. The
  address of a buffer or flag that a stage allocates is an argument.
\<close>

section \<open>Arguments\<close>




record compress_arg =
  cp_seqn :: nat
  cp_log_buf :: nat
  cp_log_size :: nat
  cp_fetch_start_blknr :: nat
  cp_fetch_log_done_p :: nat
  cp_fsync :: bool
  cp_fsync_ack_addr :: nat



record log_fetch_from_nic_arg =
  fn_libfs_id :: int
  fn_seqn :: nat
  fn_remote_log_buf_addr :: nat
  fn_log_size :: nat
  fn_orig_log_size :: nat
  fn_fetch_log_done_addr :: nat
  fn_start_blknr :: nat
  fn_fsync :: bool
  fn_fsync_ack_addr :: nat



fun fn_arg_of_rpc :: "rpc \<Rightarrow> log_fetch_from_nic_arg option" where
  "fn_arg_of_rpc (Fetch_log i seqn buf sz orig start done_addr fsync ack) =
     Some \<lparr>fn_libfs_id = i, fn_seqn = seqn, fn_remote_log_buf_addr = buf, fn_log_size = sz, fn_orig_log_size = orig,
       fn_fetch_log_done_addr = done_addr, fn_start_blknr = start, fn_fsync = (fsync \<noteq> 0), fn_fsync_ack_addr = ack\<rparr>"
| "fn_arg_of_rpc _ = None"

section \<open>Fetching and preparing the log on the primary\<close>





text \<open>The message to the next replica, and the channel it takes.\<close>

definition compress_channel :: "compress_arg \<Rightarrow> endpoint" where
  "compress_channel a = (if cp_fsync a then Nic_low_lat else Nic)"

definition compress_log_bg :: "nat \<Rightarrow> compress_arg \<Rightarrow> endpoint \<times> string" where
  "compress_log_bg libfs_id a =
     (compress_channel a,
      send_fetch_log_rpc_to_next_replica (int libfs_id) (cp_seqn a) (cp_log_buf a) (cp_log_size a) (cp_log_size a)
        (cp_fetch_start_blknr a) (cp_fetch_log_done_p a) (c_bool (cp_fsync a)) (cp_fsync_ack_addr a))"



section \<open>The replicas\<close>


text \<open>
  The argument of the copy to the last replica, which the copy to the local NVM gets too, apart from the acknowledgement
  address, and the address of the flag that is set on the previous SmartNIC.
\<close>

definition fetch_log_from_primary_nic_dram_bg :: "nat \<Rightarrow> nat \<Rightarrow> log_fetch_from_nic_arg \<Rightarrow> copy_arg \<times> nat" where
  "fetch_log_from_primary_nic_dram_bg local_log_buf copy_log_done_p a =
     (\<lparr>ca_libfs_id = nat (fn_libfs_id a), ca_seqn = fn_seqn a, ca_log_buf = local_log_buf, ca_log_size = fn_log_size a,
       ca_orig_log_size = fn_orig_log_size a, ca_start_blknr = fn_start_blknr a, ca_copy_log_done_p = copy_log_done_p,
       ca_fsync = fn_fsync a, ca_fsync_ack_addr = fn_fsync_ack_addr a\<rparr>, fn_fetch_log_done_addr a)"

section \<open>Building the copy list\<close>




section \<open>From a request to its headers\<close>

definition header_at :: "(nat \<Rightarrow> logheader) \<Rightarrow> nat \<Rightarrow> nat \<Rightarrow> logheader" where
  "header_at nvm base h = nvm (base + h * g_block_size_bytes)"

text \<open>The log on NVM holds a committed header with the right number of blocks for each of the groups.\<close>

definition stored :: "(nat \<Rightarrow> logheader) \<Rightarrow> nat \<Rightarrow> group list \<Rightarrow> bool" where
  "stored nvm base T \<longleftrightarrow>
     list_all (\<lambda>(h, n). lh_inuse (header_at nvm base h) = LH_COMMIT_MAGIC \<and> lh_nr_log_blocks (header_at nvm base h) = n) T"







section \<open>Inodes reach the disk\<close>






lemma ondisk_update [simp]:
  "kf_ondisk (mlfs_mark_inode_dirty n k) = kf_ondisk k" "kf_ondisk (put_kinode n ip k) = kf_ondisk k"
  "mlfs_mark_inode_dirty n (put_kinode n ip (put_kinode n ip' k)) = mlfs_mark_inode_dirty n (put_kinode n ip k)"
  "(put_kinode n ip k)\<lparr>kf_ext := e\<rparr> = put_kinode n ip (k\<lparr>kf_ext := e\<rparr>)"
  by (simp_all add: mlfs_mark_inode_dirty_def put_kinode_def)









section \<open>Room for the copies of a transaction\<close>

text \<open>A transaction under construction: data is added in pieces of less than a block or of whole blocks.\<close>

definition whole_blocks :: "nat \<Rightarrow> bool" where
  "whole_blocks sz \<longleftrightarrow> sz < g_block_size_bytes \<or> sz mod g_block_size_bytes = 0"

inductive tx_built :: "logheader_meta \<Rightarrow> bool" where
  start: "tx_built zero_loghdr_meta"
| data: "tx_built lm \<Longrightarrow> data_in_loghdr ty \<Longrightarrow> whole_blocks sz \<Longrightarrow> add_to_log log_size ty inum dat off sz lm = Done lm' \<Longrightarrow> tx_built lm'"
| inode: "tx_built lm \<Longrightarrow> \<not> data_in_loghdr ty \<Longrightarrow> committable ty \<Longrightarrow> add_to_loghdr log_size ty inum d len [] lm = Done lm' \<Longrightarrow>
    tx_built lm'"

text \<open>The length in the header is the size of the data.\<close>

definition lens :: "logheader \<Rightarrow> nat list" where
  "lens h = map (\<lambda>i. lh_length h ! i) [0..<lh_n h]"

fun op_len :: "log_op \<Rightarrow> nat \<Rightarrow> bool" where
  "op_len (Op_Inode t inum) l \<longleftrightarrow> True"
| "op_len (Op_Data t inum off v) l \<longleftrightarrow> iov_size v = l \<and> whole_blocks l"

lemma lens_push_entry:
  assumes "wf_loghdr h" and "lh_n h < g_max_blocks_per_operation"
  shows "lens (push_entry ty inum dat len h) = lens h @ [len]"
proof -
  have l: "lh_length (push_entry ty inum dat len h) = (lh_length h)[lh_n h := len]" by (simp add: push_entry_def)
  show ?thesis using assms unfolding lens_def by (simp add: l wf_loghdr_def)
qed

lemma add_to_loghdr_cur:
  assumes "lm_is_hdr_allocated lm = (lm_loghdr lm \<noteq> None)" and "add_to_loghdr log_size ty inum d len [] lm = Done lm'"
  shows "lh_n (cur_loghdr lm) < g_max_blocks_per_operation"
    and "cur_loghdr lm' = push_entry ty inum (if data_in_loghdr ty then d else 0) len (cur_loghdr lm)"
proof -
  have c: "cur_loghdr (lm\<lparr>lm_is_hdr_allocated := True, lm_loghdr := Some h\<rparr>) = h" for h by (simp add: cur_loghdr_def)
  show "lh_n (cur_loghdr lm) < g_max_blocks_per_operation"
    "cur_loghdr lm' = push_entry ty inum (if data_in_loghdr ty then d else 0) len (cur_loghdr lm)"
    using assms(2) c by (auto simp: add_to_loghdr_eq [OF assms(1)] split: if_splits)
qed

lemma tx_built_inv:
  "tx_built lm \<Longrightarrow> wf_meta lm \<and> (\<forall>e \<in> set (lh_entries (cur_loghdr lm)). committable (fst e)) \<and>
     list_all2 op_len (meta_ops lm) (lens (cur_loghdr lm))"
proof (induction rule: tx_built.induct)
  case start
  have "cur_loghdr zero_loghdr_meta = zero_loghdr" by (simp add: cur_loghdr_def zero_loghdr_meta_def)
  moreover have "lens zero_loghdr = []" by (simp add: lens_def zero_loghdr_def)
  ultimately show ?case by simp
next
  case (data lm ty sz log_size inum dat off lm')
  let ?h = "cur_loghdr lm"
  from data have wf: "wf_meta lm" by simp
  have "\<exists>lm1. add_to_loghdr log_size ty inum off sz [] lm1 = Done lm' \<and> lm_loghdr lm1 = lm_loghdr lm \<and>
      lm_is_hdr_allocated lm1 = lm_is_hdr_allocated lm"
    using data.hyps(4) by (auto simp: add_to_log_def Let_def mlfs_assert_Done_iff split: if_splits)
  then obtain lm1 where lm1: "add_to_loghdr log_size ty inum off sz [] lm1 = Done lm'" "lm_loghdr lm1 = lm_loghdr lm"
    "lm_is_hdr_allocated lm1 = (lm_loghdr lm1 \<noteq> None)" using wf by (auto simp: wf_meta_def)
  have h: "cur_loghdr lm1 = ?h" by (simp add: cur_loghdr_def lm1(2))
  have n: "lh_n ?h < g_max_blocks_per_operation" "cur_loghdr lm' = push_entry ty inum off sz ?h"
    using add_to_loghdr_cur [OF lm1(3,1)] data.hyps(2) by (simp_all add: h)
  note ops = add_to_log_Done [OF wf data.hyps(2,4)]
  from data.IH data.hyps(2,3) ops wf_cur_loghdr [OF wf] n show ?case
    by (auto simp: lh_entries_push_entry lens_push_entry list_all2_appendI data_in_loghdr_def committable_def)
next
  case (inode lm ty log_size inum d len lm')
  let ?h = "cur_loghdr lm"
  from inode have wf: "wf_meta lm" by simp
  then have a: "lm_is_hdr_allocated lm = (lm_loghdr lm \<noteq> None)" by (simp add: wf_meta_def)
  have n: "lh_n ?h < g_max_blocks_per_operation" "cur_loghdr lm' = push_entry ty inum 0 len ?h"
    using add_to_loghdr_cur [OF a inode.hyps(4)] inode.hyps(2) by simp_all
  note ops = add_to_loghdr_inode [OF wf inode.hyps(2,4)]
  from inode.IH inode.hyps(3) ops wf_cur_loghdr [OF wf] n show ?case
    by (auto simp: lh_entries_push_entry lens_push_entry list_all2_appendI)
qed

text \<open>The blocks that the digest counts for the entries of a header.\<close>

lemma entry_ops_blks:
  "length (filter (\<lambda>e. data_in_loghdr (fst e)) es) \<le> length iovs \<Longrightarrow> list_all2 op_len (entry_ops es iovs) ls \<Longrightarrow>
   sum_list (map2 (\<lambda>e l. if data_in_loghdr (fst e) then get_blk_cnt_from_length l else 0) es ls) \<le> ops_blocks (entry_ops es iovs)"
proof (induction es iovs arbitrary: ls rule: entry_ops.induct)
  case (2 t inum dat es iovs)
  show ?case
  proof (cases "data_in_loghdr t")
    case True
    with 2 obtain v vs where v: "iovs = v # vs" by (cases iovs) auto
    with True 2 obtain l ls' where ls: "ls = l # ls'" "iov_size v = l" "whole_blocks l" "list_all2 op_len (entry_ops es vs) ls'"
      by (auto simp: list_all2_Cons1)
    have "get_blk_cnt_from_length l \<le> op_blocks (Op_Data t inum dat v)"
      using ls(2,3) by (auto simp: get_blk_cnt_from_length_def whole_blocks_def)
    with 2(1) [OF True v _ ls(4)] 2(3) True v ls(1) show ?thesis by simp
  next
    case False
    with 2 obtain l ls' where "ls = l # ls'" "list_all2 op_len (entry_ops es iovs) ls'" by (auto simp: list_all2_Cons1)
    with 2(2) [OF False, of ls'] 2(3) False show ?thesis by simp
  qed
qed simp

lemma entry_op_blks:
  "committable (lh_type h ! i) \<Longrightarrow>
   op_blks (entry_op b h i) = (if data_in_loghdr (lh_type h ! i) then get_blk_cnt_from_length (lh_length h ! i) else 0)"
  by (cases "lh_type h ! i") (simp_all add: entry_op_def op_blks_def data_in_loghdr_def committable_def Let_def)

text \<open>A header that the commit of a transaction wrote.\<close>

definition committed :: "logheader \<Rightarrow> bool" where
  "committed h \<longleftrightarrow> (\<exists>s s'. wf_log s \<and> tx_built (lhm s) \<and> lm_is_hdr_allocated (lhm s) \<and> 1 + ops_blocks (meta_ops (lhm s)) \<le> log_cap s \<and>
     1 + ops_blocks (meta_ops (lhm s)) < 2 ^ 16 \<and> write_tx s = Done s' \<and> lm_loghdr (lhm s') = Some h)"

lemma committed_blks:
  assumes "committed h"
  shows "sum_list (map op_blks (map (entry_op b h) [0..<lh_n h])) < lh_nr_log_blocks h"
proof -
  from assms obtain s s' where s: "wf_log s" "tx_built (lhm s)" "lm_is_hdr_allocated (lhm s)"
    "1 + ops_blocks (meta_ops (lhm s)) \<le> log_cap s" "1 + ops_blocks (meta_ops (lhm s)) < 2 ^ 16" "write_tx s = Done s'"
    "lm_loghdr (lhm s') = Some h" unfolding committed_def by blast
  note inv = tx_built_inv [OF s(2)]
  then obtain h0 where h0: "lm_loghdr (lhm s) = Some h0" using s(3) by (auto simp: wf_meta_def)
  then have c: "cur_loghdr (lhm s) = h0" by (simp add: cur_loghdr_def)
  obtain h' where h': "lm_loghdr (lhm s') = Some h'" "lh_entries h' = lh_entries h0" "lh_length h' = lh_length h0"
    "lh_nr_log_blocks h' = 1 + ops_blocks (meta_ops (lhm s))"
    by (rule write_tx_Done [OF s(1) _ h0 _ s(4-6)]) (use inv c in \<open>auto simp: tx_layout_def\<close>)
  then have e: "lh_entries h = lh_entries h0" "lh_length h = lh_length h0" "lh_nr_log_blocks h = 1 + ops_blocks (meta_ops (lhm s))"
    using s(7) by auto
  have n: "lh_n h = lh_n h0" using length_lh_entries [of h] length_lh_entries [of h0] e(1) by simp
  have l: "lens h = lens h0" by (simp add: lens_def n e(2))
  have "\<forall>e \<in> set (lh_entries h). committable (fst e)" using inv c e(1) by simp
  then have com: "committable (lh_type h ! i)" if "i < lh_n h" for i using that by (simp add: lh_entries_def)
  have "map op_blks (map (entry_op b h) [0..<lh_n h]) =
      map2 (\<lambda>e l. if data_in_loghdr (fst e) then get_blk_cnt_from_length l else 0) (lh_entries h) (lens h)"
    by (auto simp: lh_entries_def lens_def entry_op_blks com zip_map_map intro!: nth_equalityI)
  moreover have "length (filter (\<lambda>e. data_in_loghdr (fst e)) (lh_entries h0)) \<le> length (take (lm_nr_iovec (lhm s)) (lm_io_vec (lhm s)))"
    using inv h0 n_data_le [of h0] by (auto simp: wf_meta_def n_data_def wf_loghdr_def g_params)
  ultimately show ?thesis using entry_ops_blks [of "lh_entries h0" _ "lens h0"] inv e l h0 c by (simp add: meta_ops_def less_Suc_eq_le)
qed

lemma group_blks:
  "list_all committed hs \<Longrightarrow> sum_list (map op_blks (group_ops hs start)) \<le> sum_list (map lh_nr_log_blocks hs)"
proof (induction hs arbitrary: start)
  case (Cons h hs)
  then show ?case using committed_blks [of h start] Cons.IH [of "add64 start (lh_nr_log_blocks h)"] by (simp add: add_mono less_imp_le)
qed simp

lemma stored_glen: "stored nvm base T \<Longrightarrow> sum_list (map lh_nr_log_blocks (map (\<lambda>(h, n). header_at nvm base h) T)) = glen T"
  by (induction T) (auto simp: stored_def)

section \<open>Properties\<close>








text \<open>C10. The copy list has room for the copies of a request. The list gets one entry for each block of the request. If the headers of its
  groups were written by commits of transactions whose data was added in pieces of less than a block or of whole blocks, then the
  entries of the groups need no more copies than that, also when every block has to be copied on its own.
\<close>

theorem request_copies_fit:
  assumes "request_for a T" and "stored nvm base T" and "list_all (\<lambda>(h, n). committed (header_at nvm base h)) T"
  shows "sum_list (map op_blks (group_ops (map (\<lambda>(h, n). header_at nvm base h) T) start)) \<le> pf_n_blk a"
proof -
  have "list_all committed (map (\<lambda>(h, n). header_at nvm base h) T)" using assms(3) by (auto simp: list_all_iff)
  from group_blks [OF this] stored_glen [OF assms(2)] assms(1) show ?thesis by (simp add: request_for_def)
qed

theorem request_copies_fit_witness:
  "\<exists>h. committed h \<and> group_ops [h] 1001 \<noteq> [] \<and> sum_list (map op_blks (group_ops [h] 1001)) \<le> pf_n_blk eager_request"
proof -
  obtain s' where s': "write_tx demo_tx = Done s'" using demo_tx_facts(5) by blast
  have l: "lhm demo_tx = demo_lhm" by (simp add: demo_tx_def)
  have b: "tx_built demo_lhm"
    by (rule tx_built.data [OF tx_built.start _ _ demo_lhm_built]) (simp_all add: data_in_loghdr_def whole_blocks_def g_params)
  have n: "ops_blocks (meta_ops demo_lhm) = 1" using demo_tx_facts(4) by (simp add: l g_block_size_bytes_def)
  have h0: "lm_loghdr (lhm demo_tx) = Some (cur_loghdr demo_lhm)" "\<forall>e \<in> set (lh_entries (cur_loghdr demo_lhm)). committable (fst e)"
    by (simp_all add: l cur_loghdr_def lh_entries_def committable_def)
  obtain h where h: "lm_loghdr (lhm s') = Some h" "lh_entries h = lh_entries (cur_loghdr demo_lhm)" "lh_nr_log_blocks h = 2"
    "lh_inuse h = LH_COMMIT_MAGIC"
    by (rule write_tx_Done [OF demo_tx_facts(1,2) h0 _ _ s']) (auto simp: n demo_tx_facts(3) tx_layout_def l)
  have "committed h" unfolding committed_def
    by (rule exI [of _ demo_tx], rule exI [of _ s']) (use s' h(1) b n l demo_tx_facts(1,3) in simp)
  moreover have "lh_n h = 1" using h(2) length_lh_entries [of h] by (simp add: cur_loghdr_def)
  moreover have "request_for eager_request [(1001, 2)]" by (simp add: request_for_def eager_request_def)
  ultimately show ?thesis
    using request_copies_fit [of eager_request "[(1001, 2)]" "\<lambda>_. h" 0 1001] h(3,4)
    by (intro exI [of _ h]) (simp add: stored_def header_at_def)
qed

end
