(* ===== verification/PersistLog.thy ===== *)
theory PersistLog
  imports Messages
begin

text \<open>
  Persisting the replicated log on the host of the last replica.

  Models \<open>persist_log\<close> and \<open>persist_log_worker\<close> of \<open>kernfs/fs.c\<close> with \<open>mlfs_persist\<close> of
  \<open>libfs/src/io/block_io.c\<close> and \<open>dax_persist\<close> of \<open>libfs/src/storage/storage_dax.c\<close>. A trace
  records the cache flushes and the write of the acknowledgement into the memory of the LibFS. Sizes
  are 32-bit numbers from \<open>mlfs_persist\<close> on.
\<close>

section \<open>Operations\<close>

record persist_log_arg =
  pl_libfs_id :: nat
  pl_seqn :: nat
  pl_log_area_begin_blknr :: nat
  pl_log_area_end_blknr :: nat
  pl_start_blknr :: nat
  pl_n_log_blks :: nat
  pl_fsync_ack_addr :: nat

text \<open>A flush of so many bytes from a byte offset of the log device; a remote write of one byte.\<close>

datatype host_effect = Pmem_persist nat nat | Remote_val8 nat nat nat

definition dax_persist :: "nat \<Rightarrow> nat \<Rightarrow> nat \<Rightarrow> host_effect list" where
  "dax_persist blockno offset io_size = [Pmem_persist (add64 (cast_w 64 (blockno * 2 ^ g_block_size_shift)) offset) io_size]"

definition mlfs_persist :: "nat \<Rightarrow> nat \<Rightarrow> nat \<Rightarrow> host_effect list" where
  "mlfs_persist blockno offset io_size = dax_persist blockno (cast32 offset) (cast32 io_size)"

definition persist_log :: "nat \<Rightarrow> nat \<Rightarrow> host_effect list" where
  "persist_log start_blk n_log_blk = mlfs_persist start_blk 0 (cast_w 64 (n_log_blk * 2 ^ g_block_size_shift))"

definition persist_log_worker :: "persist_log_arg \<Rightarrow> host_fs \<Rightarrow> host_effect list run" where
  "persist_log_worker a h =
     mlfs_assert (hf_persist_clflush h) ''persist_nvm_with_clflush''
       (let digest_end = hf_digest_end_blknrs h (pl_libfs_id a);
            log_end = sub64 (add64 (pl_start_blknr a) (pl_n_log_blks a)) 1;
            ack = Remote_val8 (pl_libfs_id a) (add64 (pl_fsync_ack_addr a) 1) 1
        in if digest_end < pl_start_blknr a
           then Done (persist_log (add64 digest_end 1) (sub64 log_end digest_end) @ [ack])
           else if digest_end > pl_start_blknr a
           then Done (persist_log (pl_log_area_begin_blknr a) (add64 (sub64 log_end (pl_log_area_begin_blknr a)) 1) @
                      persist_log (add64 digest_end 1) (sub64 (pl_log_area_end_blknr a) digest_end) @ [ack])
           else Failed (Assertion ''0''))"

text \<open>What the handler of \<open>RPC_PERSIST_LOG\<close> passes to the worker.\<close>

fun persist_arg_of_rpc :: "rpc \<Rightarrow> persist_log_arg option" where
  "persist_arg_of_rpc (Persist_req i a b c d e f) = Some \<lparr>pl_libfs_id = nat i, pl_seqn = a, pl_log_area_begin_blknr = b,
     pl_log_area_end_blknr = c, pl_start_blknr = d, pl_n_log_blks = e, pl_fsync_ack_addr = f\<rparr>"
| "persist_arg_of_rpc _ = None"

text \<open>The blocks that a trace flushes completely.\<close>

fun flushed :: "host_effect list \<Rightarrow> nat set" where
  "flushed [] = {}"
| "flushed (Pmem_persist addr n # es) = {k. addr \<le> k * g_block_size_bytes \<and> (k + 1) * g_block_size_bytes \<le> addr + n} \<union> flushed es"
| "flushed (Remote_val8 i addr v # es) = flushed es"

section \<open>What is flushed\<close>

lemma flushed_append: "flushed (xs @ ys) = flushed xs \<union> flushed ys"
  by (induction xs rule: flushed.induct) auto

text \<open>A flush of fewer than \<open>2 ^ 20\<close> blocks is complete; in general the number of blocks is taken modulo that.\<close>

lemma flushed_persist_log:
  assumes "b < 2 ^ 52" and "n < 2 ^ 52"
  shows "flushed (persist_log b n) = {b..<b + n mod 2 ^ 20}"
proof -
  have a: "b * 4096 < 2 ^ 64" "n * 4096 < 2 ^ 64" using assms by simp_all
  have "n * 4096 mod 2 ^ 32 = n mod 2 ^ 20 * 4096"
    using mult_mod_right [of 4096 n "2 ^ 20"] by (simp add: mult.commute)
  with a have "persist_log b n = [Pmem_persist (b * 4096) (n mod 2 ^ 20 * 4096)]"
    by (simp add: persist_log_def mlfs_persist_def dax_persist_def g_params cast_w_def add_w_def)
  then show ?thesis by (auto simp: g_params)
qed

lemma persist_log_worker_flushes:
  fixes a :: persist_log_arg and h :: host_fs
  defines "d \<equiv> hf_digest_end_blknrs h (pl_libfs_id a)" and "e \<equiv> pl_start_blknr a + pl_n_log_blks a"
    and "lo \<equiv> pl_log_area_begin_blknr a" and "hi \<equiv> pl_log_area_end_blknr a"
  assumes conf: "hf_persist_clflush h" and n: "0 < pl_n_log_blks a" and bounds: "lo \<le> pl_start_blknr a" "e \<le> Suc hi" "hi < 2 ^ 51" "d \<le> hi"
    and d: "d \<noteq> pl_start_blknr a"
    and near: "d < pl_start_blknr a \<Longrightarrow> e \<le> 2 ^ 20 + d" "pl_start_blknr a < d \<Longrightarrow> Suc hi < 2 ^ 20 + lo"
  shows "\<exists>es. persist_log_worker a h = Done (es @ [Remote_val8 (pl_libfs_id a) (add64 (pl_fsync_ack_addr a) 1) 1]) \<and>
    flushed es = (if d < pl_start_blknr a then {d<..<e} else {lo..<e} \<union> {d<..hi})"
proof -
  have c: "sub64 (add64 (pl_start_blknr a) (pl_n_log_blks a)) 1 = e - 1" "add64 d 1 = d + 1"
    using bounds n unfolding e_def by (simp_all add: add_w_id sub_w_id)
  show ?thesis
  proof (cases "d < pl_start_blknr a")
    case True
    let ?es = "persist_log (d + 1) (e - 1 - d)"
    have "d < e - 1 \<or> d = e - 1" using True n e_def by linarith
    then have s: "sub64 (e - 1) d = e - 1 - d" using bounds by (auto simp: sub_w_id)
    have "e - 1 - d < 2 ^ 20" "d + 1 < 2 ^ 52" "e - 1 - d < 2 ^ 52" using near(1) True bounds by simp_all
    then have "flushed ?es = {d + 1..<d + 1 + (e - 1 - d)}" using flushed_persist_log [of "d + 1" "e - 1 - d"] by simp
    also have "\<dots> = {d<..<e}" using True n unfolding e_def by auto
    finally have f: "flushed ?es = {d<..<e}" .
    have "persist_log_worker a h = Done (?es @ [Remote_val8 (pl_libfs_id a) (add64 (pl_fsync_ack_addr a) 1) 1])"
      using True conf unfolding persist_log_worker_def d_def [symmetric] c Let_def s by (simp add: mlfs_assert_def del: One_nat_def)
    then show ?thesis using f True by auto
  next
    case False
    then have gt: "pl_start_blknr a < d" using d by simp
    let ?es = "persist_log lo (e - lo) @ persist_log (d + 1) (hi - d)"
    have "lo \<le> e - 1" using bounds(1) n unfolding e_def by linarith
    then have s: "add64 (sub64 (e - 1) lo) 1 = e - lo" "sub64 hi d = hi - d" using bounds n e_def by (simp_all add: sub_w_id add_w_id)
    have w: "e - lo < 2 ^ 20" "hi - d < 2 ^ 20" "lo < 2 ^ 52" "d + 1 < 2 ^ 52" using near(2) [OF gt] bounds gt by simp_all
    have "flushed ?es = {lo..<lo + (e - lo)} \<union> {d + 1..<d + 1 + (hi - d)}"
      using flushed_persist_log [of lo "e - lo"] flushed_persist_log [of "d + 1" "hi - d"] w by (simp add: flushed_append)
    also have "\<dots> = {lo..<e} \<union> {d<..hi}" using bounds \<open>lo \<le> e - 1\<close> by auto
    finally have f: "flushed ?es = {lo..<e} \<union> {d<..hi}" .
    have "persist_log_worker a h = Done (?es @ [Remote_val8 (pl_libfs_id a) (add64 (pl_fsync_ack_addr a) 1) 1])"
      using False gt conf unfolding persist_log_worker_def d_def [symmetric] c Let_def lo_def [symmetric] hi_def [symmetric] s
      by (simp add: mlfs_assert_def del: One_nat_def)
    then show ?thesis using f False by auto
  qed
qed

text \<open>C24. The acknowledgement of an \<open>fsync\<close> by the last replica follows the flush of everything it stands
  for. The request that the SmartNIC sends arrives at the host, and the worker flushes all blocks
  of the log from the last digested one to the end of the group, across the end of the log area
  when the digested blocks are of the previous lap, before it acknowledges. This holds if the
  flushed ranges are shorter than \<open>2 ^ 20\<close> blocks.\<close>

theorem persist_request_flushes:
  assumes "rpc_ok (Persist_req (int l) seqn lo hi start n ack)" and "hf_persist_clflush h" and "hf_digest_end_blknrs h l = d"
    and "0 < n" and "lo \<le> start" and "start + n \<le> Suc hi" and "hi < 2 ^ 51" and "d \<le> hi" and "d \<noteq> start"
    and "d < start \<Longrightarrow> start + n \<le> 2 ^ 20 + d" and "start < d \<Longrightarrow> Suc hi < 2 ^ 20 + lo"
  shows "\<exists>m a es. host_signal_callback stk mem mem_ip (send_persist_log_req_to_last_replica_host (int l) seqn lo hi start n ack) = Done (Some m) \<and>
    persist_arg_of_rpc m = Some a \<and> persist_log_worker a h = Done (es @ [Remote_val8 l (add64 ack 1) 1]) \<and>
    flushed es = (if d < start then {d<..<start + n} else {lo..<start + n} \<union> {d<..hi})"
proof -
  let ?m = "Persist_req (int l) seqn lo hi start n ack"
  let ?a = "\<lparr>pl_libfs_id = l, pl_seqn = seqn, pl_log_area_begin_blknr = lo, pl_log_area_end_blknr = hi, pl_start_blknr = start,
    pl_n_log_blks = n, pl_fsync_ack_addr = ack\<rparr>"
  have "host_signal_callback stk mem mem_ip (send_persist_log_req_to_last_replica_host (int l) seqn lo hi start n ack) = Done (Some ?m)"
    using assms(1) by (simp add: host_signal_callback_def is_tag_def cmd_texts recv_texts)
  moreover have "persist_arg_of_rpc ?m = Some ?a" by simp
  moreover have "\<exists>es. persist_log_worker ?a h = Done (es @ [Remote_val8 l (add64 ack 1) 1]) \<and>
    flushed es = (if d < start then {d<..<start + n} else {lo..<start + n} \<union> {d<..hi})"
    by (rule persist_log_worker_flushes [of h ?a, unfolded persist_log_arg.select_convs assms(3), OF assms(2,4-11)])
  ultimately show ?thesis by blast
qed

text \<open>C38. A flush of \<open>2 ^ 20\<close> blocks or more stops short of the group. \<open>mlfs_persist\<close> takes the size in bytes
  as a 32-bit number; before the first digest the last digested block is 0, so for a log that
  starts at block \<open>2 ^ 20\<close> or behind (as those of the processes from identifier 8 on) no block of
  the group is flushed, and the \<open>fsync\<close> is acknowledged all the same.\<close>

theorem persist_log_misses_group:
  assumes "hf_persist_clflush h" and "hf_digest_end_blknrs h (pl_libfs_id a) = 0"
    and "2 ^ 20 \<le> pl_start_blknr a" and "0 < pl_n_log_blks a" and "pl_start_blknr a + pl_n_log_blks a \<le> 2 ^ 21"
  shows "\<exists>es. persist_log_worker a h = Done (es @ [Remote_val8 (pl_libfs_id a) (add64 (pl_fsync_ack_addr a) 1) 1]) \<and>
    flushed es \<inter> {pl_start_blknr a..<pl_start_blknr a + pl_n_log_blks a} = {}"
proof -
  let ?e = "pl_start_blknr a + pl_n_log_blks a"
  let ?es = "persist_log 1 (?e - 1)"
  have c: "sub64 (add64 (pl_start_blknr a) (pl_n_log_blks a)) 1 = ?e - 1" "add64 0 1 = 1" "sub64 (?e - 1) 0 = ?e - 1"
    using assms(4,5) by (simp_all add: add_w_id sub_w_id)
  have "persist_log_worker a h = Done (?es @ [Remote_val8 (pl_libfs_id a) (add64 (pl_fsync_ack_addr a) 1) 1])"
    using assms(1,3) unfolding persist_log_worker_def assms(2) c Let_def by (simp add: mlfs_assert_def del: One_nat_def)
  moreover have "(?e - 1) mod 2 ^ 20 = ?e - 1 - 2 ^ 20" using assms(3,4,5) by (simp add: mod_if)
  then have "flushed ?es = {1..<1 + (?e - 1 - 2 ^ 20)}" using flushed_persist_log [of 1 "?e - 1"] assms(3-5) by (simp del: One_nat_def)
  then have "flushed ?es \<inter> {pl_start_blknr a..<?e} = {}" using assms(5,3) by auto
  ultimately show ?thesis by blast
qed

section \<open>A concrete request\<close>

definition demo_last_host :: host_fs where
  "demo_last_host = demo_host\<lparr>hf_persist_clflush := True, hf_digest_end_blknrs := (\<lambda>_. 0)\<rparr>"

theorem persist_request_flushes_witness:
  "\<exists>m a es. host_signal_callback ''abcdefghijkl'' (\<lambda>_. 0) [] (send_persist_log_req_to_last_replica_host (int 6) 1 1001 2000 1001 3 4096) =
      Done (Some m) \<and> persist_arg_of_rpc m = Some a \<and> persist_log_worker a demo_last_host = Done (es @ [Remote_val8 6 (add64 4096 1) 1]) \<and>
    flushed es = (if 0 < (1001 :: nat) then {0<..<1001 + 3} else {1001..<1001 + 3} \<union> {0<..2000})"
  by (rule persist_request_flushes) (simp_all add: demo_last_host_def i32_def u64_def)

theorem persist_log_misses_group_witness:
  "\<exists>es. persist_log_worker \<lparr>pl_libfs_id = 8, pl_seqn = 1, pl_log_area_begin_blknr = 1100001, pl_log_area_end_blknr = 1231071,
      pl_start_blknr = 1100001, pl_n_log_blks = 3, pl_fsync_ack_addr = 4096\<rparr> demo_last_host = Done (es @ [Remote_val8 8 (add64 4096 1) 1]) \<and>
    flushed es \<inter> {1100001..<1100004} = {}"
  using persist_log_misses_group [of demo_last_host "\<lparr>pl_libfs_id = 8, pl_seqn = 1, pl_log_area_begin_blknr = 1100001,
    pl_log_area_end_blknr = 1231071, pl_start_blknr = 1100001, pl_n_log_blks = 3, pl_fsync_ack_addr = 4096\<rparr>"]
  by (simp add: demo_last_host_def)

end
