(* ===== verification/Spec2Isabelle.thy ===== *)
theory Spec2Isabelle
  imports File Publish FsyncAck Stages PersistLog
begin

text \<open>
  LineFS: the path of a write from the library file system to the replicas.

  \<^bold>\<open>The program.\<close> LineFS is a distributed file system for persistent memory (NVM) that runs parts of
  its work on SmartNICs. Three kinds of processes take part:

  \<^item> LibFS (\<open>libfs/\<close>) is linked into an application. A write is added to a transaction, which a
    commit writes to an operation log, a circular region of NVM that the process owns.
  \<^item> The KernFS on the SmartNIC (\<open>kernfs/nic/\<close>) fetches the log in groups, copies it to the replicas
    of a chain, acknowledges \<open>fsync\<close>, and builds lists of memory copies that publish (digest) the
    groups to the public area of the file system.
  \<^item> The KernFS on the host (\<open>kernfs/\<close>) carries out the copy lists, flushes logs, and acknowledges
    the published groups to the LibFS, which moves the head of its log.

  They exchange text messages and write into each other's memory by RDMA. Modelled is the build with
  the flags \<open>LIBFS\<close> (or \<open>KERNFS\<close>), \<open>DISTRIBUTED\<close>, \<open>MASTER\<close>, \<open>NIC_OFFLOAD\<close>, \<open>KLIB_HASH\<close>,
  \<open>LIMIT_PREFETCH\<close>, \<open>PIPELINE_RATE_LIMIT\<close> and \<open>BATCH_MEMCPY_LIST\<close>, without leases.

  \<^bold>\<open>Conventions (Prelude).\<close> An operation of the code is a function on an explicit state. Its result is
  a \<open>run\<close>: \<open>Done\<close> with the new state, \<open>Failed\<close> with the panic, failed assertion, null or
  out-of-bounds access that stops it, or \<open>Waiting\<close> when it spins on a condition that no
  message makes true. Unsigned integers are natural numbers, with the wrap-around written out in \<open>add64\<close>,
  \<open>sub32\<close>, \<open>cast32\<close> and so on; words of bitmaps are 64-bit words. Locks are left out; where threads
  interleave, the steps are the rules of an inductive relation.

  \<^bold>\<open>Theories and the code they model.\<close>

  \<^item> Loghdr: the metadata of a transaction (\<open>filesystem/shared.h\<close>, \<open>libfs/src/log/log.c\<close>: \<open>add_to_log\<close>, \<open>add_to_loghdr\<close>,
    \<open>compute_log_blocks\<close>). Adding an operation appends it to the list the metadata stands for; the
    block count is the sum over that list.
  \<^item> Fcache: inodes, the inode cache and the file cache (\<open>filesystem/fs.h\<close>, \<open>shared.h\<close>) with
    \<open>check_log_invalidation\<close>, which keeps exactly the pointers into the live part of the log.
  \<^item> Peer, Oplog, Commit: the state of a LibFS (record \<open>libfs\<close>), \<open>log_alloc\<close>, writing a transaction
    (\<open>persist_log_*\<close>), digest responses, \<open>commit_log\<close>, and the requests to fetch the log
    (\<open>distributed/replication.c\<close>).
  \<^item> Txn: a commit writes blocks first and the header last, inside the allocated part of the log, which
    is disjoint from undigested blocks while the tail is at most one lap ahead.
  \<^item> Prefetch: the relation \<open>reach\<close> of runs of a LibFS, and the invariant that the fetch requests cover the
    committed groups in order.
  \<^item> File: \<open>mlfs_file_write\<close> (\<open>filesystem/file.c\<close>) cuts a buffer into operations whose replay stores it.
  \<^item> Slots, Inodes: the contract \<open>slot_map\<close> between bitmaps and the code that hands out numbers, and the
    inode operations of \<open>filesystem/fs.c\<close> on top of it: well-formed inodes, disjoint slices, and
    where the slices end.
  \<^item> Bitmap (\<open>libfs/src/ds/bitmap.c\<close>): search, set, clear, weight and shift against the bit sequence.
  \<^item> Chain (\<open>distributed/peer.c\<close>): the order of the replicas.
  \<^item> Circbuf: the queues between pipeline stages, with the contract \<open>circ_item\<close> of their items, its
    lemmas on order, and the capacity that the masks really give.
  \<^item> HostMemcpy (\<open>kernfs/nic/host_memcpy.c\<close>, worker in \<open>kernfs/fs.c\<close>): the last stage; it interprets
    \<open>circ_item\<close> for its two queues, and the host performs all copies once and in fetch order.
  \<^item> Digest, DigestApply (\<open>kernfs/digest.c\<close>, \<open>kernfs/inode.c\<close>, \<open>kernfs/nic/build_memcpy_list.c\<close>): the stage before it, on the
    record \<open>kernfs\<close>. The entries of a group of log headers are coalesced into a replay list, which is applied to the inodes and
    yields the copy list. Digest has the definitions and shows that coalescing the entries of an inode keeps their effect
    under a condition on sizes; DigestApply shows that a group is applied as its entries say, that the copies put the data where
    the file has it, and what goes wrong without the condition and at an unlink. The extent trees are an argument of the
    definitions (\<open>ext_ops\<close>), their laws the hypothesis \<open>ext_laws\<close>.
  \<^item> Stages (\<open>kernfs/nic/fetch_log.c\<close>, \<open>coalesce.c\<close>, \<open>loghdr.c\<close>, \<open>compress.c\<close>, \<open>build_memcpy_list.c\<close>): the stages from a fetch request to
    the digest, each a function from its argument to the arguments of the next ones. A request of a run of \<open>reach\<close> arrives at
    the digest of each SmartNIC as the headers of its groups, the copy list has room for their copies, and building it leaves
    the inodes on disk as the entries say (\<open>persist_dirty_objects_nvm\<close> of \<open>kernfs/digest.c\<close>).
  \<^item> Publish: acknowledging a batch is the same for the LibFS as acknowledging its groups one by one,
    except across a wrap-around and for an empty batch.
  \<^item> FsyncAck (\<open>kernfs/nic/copy_log.c\<close>): \<open>fsync\<close> is acknowledged after all earlier groups have been written
    to the last replica, in every interleaving; and the run in which it never is.
  \<^item> Messages: formats, \<open>sprintf\<close>, \<open>sscanf\<close> and the dispatchers; messages arrive as they were sent.
  \<^item> PersistLog (\<open>kernfs/fs.c\<close>): flushing the log on the last replica before its acknowledgement.

  This theory joins the LibFS, the wire and the SmartNIC.

  \<^bold>\<open>Bounds and termination.\<close> All functions are total. Busy-waits consume a finite list of messages
  (\<open>inbox\<close>), so that waiting forever is the value \<open>Waiting\<close>. Polling a queue makes at most \<open>circ_cap\<close>
  rounds, the number of slots that the masks reach; this is enough, because a round either ends the
  loop or takes an item off. \<open>request_log_fetch\<close> repeats only while the number of unsynchronised groups
  decreases. Block numbers in runs of a LibFS stay below \<open>2 ^ 31\<close>, that is 8 TB of log; other
  bounds are hypotheses of the statements.

  \<^bold>\<open>Not modelled.\<close> The RDMA library and the transport under the messages; the storage engines (a write
  is an entry of a trace); compression and the watermarks of the rate limiter (\<open>compress.c\<close> with \<open>COMPRESS_LOG\<close>,
  \<open>limit_rate.c\<close>), so that the flag which holds the primary back is an argument;
  the digest of the host-only build, extent trees (an adaptation of the ext4 code on raw blocks) and block allocation; reading files and
  the read cache; directories, paths and the POSIX layer; leases; thread pools, timers, statistics;
  \<open>mkfs\<close>, benchmarks and tests. The parts are listed with their state in the manifest of the development.
\<close>

section \<open>The log reaches the SmartNIC\<close>








end
